(* ===== verification/Resile_Prelude.thy ===== *)
theory Resile_Prelude
  imports Complex_Main "HOL-Library.Word" "HOL-Library.Signed_Division"
begin

text \<open>
  The vocabulary every component of the model shares: Go's machine integers, the
  durations and instants of package \<^verbatim>\<open>time\<close>, and the collections of facts
  the component proofs are built on.

  A \<^verbatim>\<open>time.Duration\<close> is an \<^verbatim>\<open>int64\<close> count of nanoseconds and is
  modelled by its value in \<^typ>\<open>int\<close>; a \<^verbatim>\<open>time.Time\<close> is the number
  of nanoseconds since the Unix epoch, so the zero \<^verbatim>\<open>time.Time\<close> (the first
  of January of year 1) is a large negative number and \<^verbatim>\<open>IsZero\<close> is an
  equation. \<^verbatim>\<open>Time.Sub\<close> saturates at the ends of \<^verbatim>\<open>int64\<close>, as
  the library documents. Counters whose width the code relies on are words.
\<close>

section \<open>Collections of facts\<close>

named_theorems op_defs \<open>definitions of the operations of the components\<close>
named_theorems inv_defs \<open>definitions of the invariants of the components\<close>
named_theorems preserved \<open>facts that an operation preserves an invariant\<close>

section \<open>Machine integers\<close>

type_synonym u64 = "64 word"
type_synonym u32 = "32 word"
type_synonym i32 = "32 word"

definition max_int64 :: int where
  "max_int64 = 9223372036854775807"

definition min_int64 :: int where
  "min_int64 = - 9223372036854775808"

definition clamp_int64 :: "int \<Rightarrow> int" where
  "clamp_int64 x = max min_int64 (min max_int64 x)"

lemma clamp_int64_id: "min_int64 \<le> x \<Longrightarrow> x \<le> max_int64 \<Longrightarrow> clamp_int64 x = x"
  by (simp add: clamp_int64_def)

lemma clamp_int64_mono: "x \<le> y \<Longrightarrow> clamp_int64 x \<le> clamp_int64 y"
  by (auto simp: clamp_int64_def)

lemma clamp_int64_nonneg: "0 \<le> x \<Longrightarrow> 0 \<le> clamp_int64 x"
  by (simp add: clamp_int64_def min_int64_def max_int64_def)

text \<open>Incrementing and decrementing a word away from its ends, read as a number.\<close>

lemma unat_add_one:
  fixes x :: "'a::len word"
  assumes "Suc (unat x) < 2 ^ LENGTH('a)"
  shows "unat (x + 1) = Suc (unat x)"
  using assms by (simp add: unat_word_ariths)

lemma unat_sub_one:
  fixes x :: "'a::len word"
  assumes "0 < unat x"
  shows "unat (x - 1) = unat x - 1"
  using assms by (metis unat_gt_0 unat_minus_one)

lemma unat_less_pow: "unat (w :: 'a::len word) < 2 ^ LENGTH('a)"
  by (rule unsigned_less)

lemma word_ge_iff_unat: "(x :: 'a::len word) \<le> y \<longleftrightarrow> unat x \<le> unat y"
  by (rule word_le_nat_alt)

section \<open>Durations and instants\<close>

type_synonym duration = int
type_synonym time = int

definition Nanosecond :: duration where "Nanosecond = 1"
definition Microsecond :: duration where "Microsecond = 1000"
definition Millisecond :: duration where "Millisecond = 1000000"
definition Second :: duration where "Second = 1000000000"
definition Minute :: duration where "Minute = 60000000000"
definition Hour :: duration where "Hour = 3600000000000"

lemmas duration_units =
  Nanosecond_def Microsecond_def Millisecond_def Second_def Minute_def Hour_def

definition zero_time :: time where
  "zero_time = - 62135596800000000000"

definition IsZero :: "time \<Rightarrow> bool" where
  "IsZero t \<longleftrightarrow> t = zero_time"

definition time_Sub :: "time \<Rightarrow> time \<Rightarrow> duration" where
  "time_Sub t u = clamp_int64 (t - u)"

lemma time_Sub_self [simp]: "time_Sub t t = 0"
  by (simp add: time_Sub_def clamp_int64_def min_int64_def max_int64_def)

lemma time_Sub_mono: "t \<le> t' \<Longrightarrow> time_Sub t u \<le> time_Sub t' u"
  by (simp add: time_Sub_def clamp_int64_mono)

lemma time_Sub_nonneg: "u \<le> t \<Longrightarrow> 0 \<le> time_Sub t u"
  by (simp add: time_Sub_def clamp_int64_nonneg)

lemma time_Sub_exact: "\<bar>t - u\<bar> \<le> max_int64 \<Longrightarrow> time_Sub t u = t - u"
  unfolding time_Sub_def by (rule clamp_int64_id) (auto simp: min_int64_def max_int64_def)

section \<open>The last elements of a list\<close>

definition last_n :: "nat \<Rightarrow> 'a list \<Rightarrow> 'a list" where
  "last_n n xs = drop (length xs - n) xs"

lemma last_n_Nil [simp]: "last_n n [] = []"
  by (simp add: last_n_def)

lemma length_last_n [simp]: "length (last_n n xs) = min n (length xs)"
  by (simp add: last_n_def)

lemma last_n_all: "length xs \<le> n \<Longrightarrow> last_n n xs = xs"
  by (simp add: last_n_def)

lemma last_n_snoc_short: "length xs < n \<Longrightarrow> last_n n (xs @ [x]) = last_n n xs @ [x]"
  by (simp add: last_n_def)

lemma last_n_snoc_full:
  assumes "0 < n" "n \<le> length xs"
  shows "xs ! (length xs - n) # last_n n (xs @ [x]) = last_n n xs @ [x]"
proof -
  let ?d = "length xs - n"
  have "last_n n xs = xs ! ?d # drop (Suc ?d) xs"
    using assms by (simp add: last_n_def Cons_nth_drop_Suc)
  moreover have "last_n n (xs @ [x]) = drop (Suc ?d) xs @ [x]"
    using assms by (simp add: last_n_def Suc_diff_le)
  ultimately show ?thesis by simp
qed

lemma count_last_n_snoc:
  assumes "0 < n" "n \<le> length xs"
  shows "count_list (last_n n (xs @ [x])) v + (if xs ! (length xs - n) = v then 1 else 0)
       = count_list (last_n n xs) v + (if x = v then 1 else 0)"
  using arg_cong [OF last_n_snoc_full [OF assms, of x], of "\<lambda>ys. count_list ys v"]
  by (auto split: if_splits)

end
