(* ===== verification/Token_Bucket.thy ===== *)
theory Token_Bucket
  imports Resile_Prelude
begin

text \<open>
  The interface of a token bucket, which two components of the program provide: the
  adaptive retry bucket (\<^verbatim>\<open>adaptive_retry.go\<close>) and, between two ticks of
  the clock, the rate limiter (\<^verbatim>\<open>ratelimit.go\<close>).

  A run is a list of operations, \<open>Take\<close> (ask for a token) and \<open>Refill\<close>;
  \<open>bucket_run\<close> counts the granted requests. The clients' bounds on the number of
  grants are proved once here, from the laws the provider promises.
\<close>

datatype bucket_op = Take | Refill

fun bucket_run ::
  "('s \<Rightarrow> bool \<times> 's) \<Rightarrow> ('s \<Rightarrow> 's) \<Rightarrow> bucket_op list \<Rightarrow> 's \<Rightarrow> nat \<times> 's" where
  "bucket_run acquire refill [] s = (0, s)"
| "bucket_run acquire refill (Take # os) s =
     (let (granted, s') = acquire s;
          (n, s'') = bucket_run acquire refill os s'
      in ((if granted then Suc n else n), s''))"
| "bucket_run acquire refill (Refill # os) s = bucket_run acquire refill os (refill s)"

locale token_bucket =
  fixes acquire :: "'s \<Rightarrow> bool \<times> 's"
    and level :: "'s \<Rightarrow> rat"
    and cost :: "'s \<Rightarrow> rat"
    and ok :: "'s \<Rightarrow> bool"
  assumes ok_acquire: "ok s \<Longrightarrow> ok (snd (acquire s))"
    and level_nonneg: "ok s \<Longrightarrow> 0 \<le> level s"
    and cost_pos: "ok s \<Longrightarrow> 0 < cost s"
    and cost_acquire: "ok s \<Longrightarrow> cost (snd (acquire s)) = cost s"
    and acquire_grants: "ok s \<Longrightarrow> fst (acquire s) \<longleftrightarrow> cost s \<le> level s"
    and acquire_level: "ok s \<Longrightarrow> fst (acquire s) \<Longrightarrow> level (snd (acquire s)) = level s - cost s"
    and acquire_refuses: "ok s \<Longrightarrow> \<not> fst (acquire s) \<Longrightarrow> snd (acquire s) = s"
begin

lemma run_refused:
  assumes "ok s" "\<not> fst (acquire s)"
  shows "bucket_run acquire refill (replicate n Take) s = (0, s)"
proof (induction n)
  case 0
  then show ?case by simp
next
  case (Suc n)
  have "acquire s = (False, s)"
    using assms acquire_refuses [OF assms] by (cases "acquire s") auto
  with Suc show ?case by simp
qed

text \<open>Without refills, the bucket grants as many requests as whole costs fit its level.\<close>

lemma run_takes:
  assumes "ok s"
  shows "fst (bucket_run acquire refill (replicate n Take) s) = min n (nat \<lfloor>level s / cost s\<rfloor>)"
  using assms
proof (induction n arbitrary: s)
  case 0
  then show ?case by simp
next
  case (Suc n)
  let ?s' = "snd (acquire s)"
  note c = cost_pos [OF \<open>ok s\<close>]
  show ?case
  proof (cases "fst (acquire s)")
    case True
    have le: "1 \<le> level s / cost s"
      using True acquire_grants [OF \<open>ok s\<close>] c by (simp add: le_divide_eq)
    have "level ?s' / cost ?s' = level s / cost s - 1"
      using acquire_level [OF \<open>ok s\<close> True] cost_acquire [OF \<open>ok s\<close>] c by (simp add: diff_divide_distrib)
    then have "nat \<lfloor>level s / cost s\<rfloor> = Suc (nat \<lfloor>level ?s' / cost ?s'\<rfloor>)"
      using le by (simp add: floor_diff_one Suc_nat_eq_nat_zadd1 le_floor_iff)
    with Suc.IH [OF ok_acquire [OF \<open>ok s\<close>]] True show ?thesis
      by (simp add: split_beta Let_def)
  next
    case False
    then have "level s / cost s < 1"
      using acquire_grants [OF \<open>ok s\<close>] c by (simp add: divide_less_eq)
    then have "nat \<lfloor>level s / cost s\<rfloor> = 0"
      by (simp add: floor_less_iff le_less_linear)
    with run_refused [OF \<open>ok s\<close> False, where n = "Suc n"] show ?thesis
      by simp
  qed
qed

end

text \<open>A bucket that is refilled by at most \<open>gain\<close> at a time.\<close>

locale refilled_bucket = token_bucket +
  fixes refill :: "'s \<Rightarrow> 's"
    and gain :: "'s \<Rightarrow> rat"
  assumes ok_refill: "ok s \<Longrightarrow> ok (refill s)"
    and cost_refill: "ok s \<Longrightarrow> cost (refill s) = cost s"
    and gain_refill: "ok s \<Longrightarrow> gain (refill s) = gain s"
    and gain_acquire: "ok s \<Longrightarrow> gain (snd (acquire s)) = gain s"
    and level_refill: "ok s \<Longrightarrow> level (refill s) \<le> level s + gain s"
begin

text \<open>Amortised bound: what is granted was in the bucket or came in by a refill.\<close>

lemma run_paid:
  assumes "ok s"
  shows "of_nat (fst (bucket_run acquire refill os s)) * cost s
    \<le> level s + of_nat (count_list os Refill) * gain s"
  using assms
proof (induction os arbitrary: s)
  case Nil
  then show ?case by (simp add: level_nonneg)
next
  case (Cons x os)
  note okA = ok_acquire [OF \<open>ok s\<close>] and okR = ok_refill [OF \<open>ok s\<close>]
  show ?case
  proof (cases x)
    case Take
    then show ?thesis
      using Cons.IH [OF okA] cost_acquire [OF \<open>ok s\<close>] gain_acquire [OF \<open>ok s\<close>]
        acquire_level [OF \<open>ok s\<close>] acquire_refuses [OF \<open>ok s\<close>]
      by (cases "fst (acquire s)") (simp_all add: split_beta Let_def algebra_simps)
  next
    case Refill
    then show ?thesis
      using Cons.IH [OF okR] cost_refill [OF \<open>ok s\<close>] gain_refill [OF \<open>ok s\<close>]
        level_refill [OF \<open>ok s\<close>]
      by (simp add: algebra_simps)
  qed
qed

end

end
