(* ===== verification/Float64.thy ===== *)
theory Float64
  imports Complex_Main "HOL-Library.Log_Nat"
begin

text \<open>
  IEEE~754 binary64, Go's \<^verbatim>\<open>float64\<close>, as an executable type: a finite value is
  the rational number it denotes, next to the two infinities and a NaN. Every operation
  computes the exact rational result and rounds it once, to the nearest representable
  number with ties to even (\<open>rnd\<close>): 53 significant bits, exponents down to
  $-1074$ for the last bit, overflow to an infinity from $2^{1024}$ on. The two zeros are one
  value; the code can tell them apart nowhere, because it divides by converted integers
  only, whose zero is positive.

  The comparison operators are those of the hardware (false as soon as a NaN is involved),
  given to the type through the syntactic classes \<open>ord\<close>, \<open>plus\<close>,
  \<open>minus\<close>, \<open>times\<close> and \<open>inverse\<close>, so that the model's
  expressions read like the code's.

  The lemmas say that rounding is monotone (\<open>rnd_mono\<close>), leaves representable
  numbers alone (\<open>rnd_exact\<close>), and that small integers are representable. They
  are what the components use: a bound that is itself representable survives rounding
  (\<open>rnd_bounds\<close>).
\<close>

section \<open>Rounding a positive rational\<close>

text \<open>\<open>binade x\<close> is the exponent $e$ with $2^e \le x < 2^{e+1}$.\<close>

definition binade :: "rat \<Rightarrow> int" where
  "binade x =
     (let (n, d) = quotient_of x;
          k = bitlen n - bitlen d
      in if 2 powi k \<le> x then k else k - 1)"

definition round_half_even :: "rat \<Rightarrow> int" where
  "round_half_even x =
     (let f = \<lfloor>x\<rfloor>; r = x - of_int f
      in if r < 1 / 2 then f
         else if 1 / 2 < r then f + 1
         else if even f then f else f + 1)"

text \<open>The spacing of the representable numbers around \<open>x\<close>.\<close>

definition quantum :: "rat \<Rightarrow> rat" where
  "quantum x = 2 powi (max (binade x - 52) (- 1074))"

definition round_pos :: "rat \<Rightarrow> rat" where
  "round_pos x = of_int (round_half_even (x / quantum x)) * quantum x"

lemma powi_2_less_iff [simp]: "(2::rat) powi a < 2 powi b \<longleftrightarrow> a < b"
  by (meson one_less_numeral_iff power_int_le_imp_less_exp power_int_strict_increasing semiring_norm(76)
      leD leI power_int_increasing one_le_numeral)

lemma powi_2_le_iff [simp]: "(2::rat) powi a \<le> 2 powi b \<longleftrightarrow> a \<le> b"
  by (simp flip: not_less)

lemma bitlen_powi_bounds:
  fixes n :: int
  assumes "0 < n"
  shows "2 powi (bitlen n - 1) \<le> (of_int n :: rat)" and "(of_int n :: rat) < 2 powi bitlen n"
proof -
  have b: "2 ^ nat (bitlen n - 1) \<le> n" "n < 2 ^ nat (bitlen n)"
    using bitlen_bounds [OF assms] by auto
  have "0 < bitlen n" using assms by (simp add: bitlen_alt_def)
  then have e: "2 powi (bitlen n - 1) = (2 ^ nat (bitlen n - 1) :: rat)"
    "2 powi bitlen n = (2 ^ nat (bitlen n) :: rat)"
    by (simp_all add: power_int_def)
  show "2 powi (bitlen n - 1) \<le> (of_int n :: rat)"
    using b(1) unfolding e by (metis of_int_le_iff of_int_numeral of_int_power)
  show "(of_int n :: rat) < 2 powi bitlen n"
    using b(2) unfolding e by (metis of_int_less_iff of_int_numeral of_int_power)
qed

lemma binade_bounds:
  assumes "0 < x"
  shows "2 powi binade x \<le> x" and "x < 2 powi (binade x + 1)"
proof -
  obtain n d where q: "quotient_of x = (n, d)" by fastforce
  have d: "0 < d" using q by (rule quotient_of_denom_pos)
  have x: "x = of_int n / of_int d" using q by (rule quotient_of_div)
  have n: "0 < n" using assms d x by (simp add: zero_less_divide_iff)
  let ?k = "bitlen n - bitlen d"
  have "x < 2 powi bitlen n / 2 powi (bitlen d - 1)"
    unfolding x using bitlen_powi_bounds [OF n] bitlen_powi_bounds [OF d] n d
    by (intro frac_less) auto
  also have "\<dots> = 2 powi (?k + 1)"
    by (simp add: power_int_diff power_int_add field_simps)
  finally have up: "x < 2 powi (?k + 1)" .
  have "2 powi (bitlen n - 1) / 2 powi bitlen d \<le> x"
    unfolding x using bitlen_powi_bounds [OF n] bitlen_powi_bounds [OF d] n d
    by (intro frac_le) auto
  then have lo: "2 powi (?k - 1) \<le> x"
    by (simp add: power_int_diff power_int_add field_simps)
  show "2 powi binade x \<le> x" using lo by (auto simp: binade_def q Let_def)
  show "x < 2 powi (binade x + 1)" using up by (auto simp: binade_def q Let_def)
qed

lemma binade_unique:
  assumes "2 powi k \<le> x" "x < 2 powi (k + 1)"
  shows "binade x = k"
proof -
  have x: "0 < x" using assms(1) by (meson less_le_trans zero_less_numeral zero_less_power_int)
  have "(2::rat) powi k < 2 powi (binade x + 1)" "(2::rat) powi binade x < 2 powi (k + 1)"
    using assms binade_bounds [OF x] by linarith+
  then have "k < binade x + 1" "binade x < k + 1"
    by simp_all
  then show ?thesis by simp
qed

lemma binade_mono: "0 < x \<Longrightarrow> x \<le> y \<Longrightarrow> binade x \<le> binade y"
proof -
  assume "0 < x" "x \<le> y"
  then have "(2::rat) powi binade x < 2 powi (binade y + 1)"
    using binade_bounds(1) [of x] binade_bounds(2) [of y] by linarith
  then show ?thesis
    by simp
qed

lemma binade_ge_iff: "0 < x \<Longrightarrow> k \<le> binade x \<longleftrightarrow> 2 powi k \<le> x"
  using binade_bounds [of x] by (metis add_le_cancel_right leD leI le_less_trans less_le_trans
      powi_2_le_iff powi_2_less_iff zle_add1_eq_le)

lemma binade_0 [simp]: "binade 0 = - 2"
  by (simp add: binade_def bitlen_alt_def)

lemma round_half_even_of_int [simp]: "round_half_even (of_int i) = i"
  by (simp add: round_half_even_def Let_def)

lemma round_half_even_near: "\<bar>of_int (round_half_even x) - x\<bar> \<le> 1 / 2"
  using floor_correct [of x] by (auto simp: round_half_even_def Let_def abs_le_iff)

lemma round_half_even_mono:
  assumes "x \<le> y"
  shows "round_half_even x \<le> round_half_even y"
proof (cases "\<lfloor>x\<rfloor> = \<lfloor>y\<rfloor>")
  case True
  with assms show ?thesis by (auto simp: round_half_even_def Let_def)
next
  case False
  then have "\<lfloor>x\<rfloor> + 1 \<le> \<lfloor>y\<rfloor>" using floor_mono [OF assms] by linarith
  then show ?thesis by (auto simp: round_half_even_def Let_def)
qed

lemma quantum_pos [simp]: "0 < quantum x"
  by (simp add: quantum_def)

lemma round_grid_le: "0 < q \<Longrightarrow> x \<le> of_int m * q \<Longrightarrow> of_int (round_half_even (x / q)) * q \<le> of_int m * q"
  using round_half_even_mono [of "x / q" "of_int m"] by (simp add: divide_le_eq)

lemma round_grid_ge: "0 < q \<Longrightarrow> of_int m * q \<le> x \<Longrightarrow> of_int m * q \<le> of_int (round_half_even (x / q)) * q"
  using round_half_even_mono [of "of_int m" "x / q"] by (simp add: le_divide_eq)

lemma powi_on_grid: "j \<le> k \<Longrightarrow> (2::rat) powi k = of_int (2 ^ nat (k - j)) * 2 powi j"
proof -
  assume "j \<le> k"
  then obtain n where k: "k = j + int n" using zle_iff_zadd by blast
  have "(2::rat) powi (j + int n) = 2 powi j * 2 ^ n" by (simp add: power_int_add)
  then show ?thesis by (simp add: k)
qed

lemma quantum_mono: "0 < x \<Longrightarrow> x \<le> y \<Longrightarrow> quantum x \<le> quantum y"
  using binade_mono [of x y] by (simp add: quantum_def)

lemma round_pos_mono:
  assumes "0 < x" "x \<le> y"
  shows "round_pos x \<le> round_pos y"
proof (cases "quantum x = quantum y")
  case True
  then show ?thesis
    using assms by (simp add: round_pos_def round_half_even_mono divide_right_mono mult_right_mono less_imp_le)
next
  case False
  let ?e = "binade y" and ?jx = "max (binade x - 52) (- 1074)" and ?jy = "max (binade y - 52) (- 1074)"
  from False assms have "quantum x < quantum y" using quantum_mono by fastforce
  then have j: "?jx < ?jy" by (simp only: quantum_def powi_2_less_iff)
  have b: "binade x + 1 \<le> ?e" "?jx \<le> ?e" "?jy \<le> ?e" using j by linarith+
  have "x \<le> 2 powi ?e"
  proof -
    have "x < 2 powi (binade x + 1)" using assms by (simp add: binade_bounds)
    also have "\<dots> \<le> 2 powi ?e" using b by simp
    finally show ?thesis by simp
  qed
  then have "round_pos x \<le> 2 powi ?e"
    unfolding round_pos_def quantum_def powi_on_grid [OF b(2)] by (intro round_grid_le) auto
  also have "2 powi ?e \<le> y" using assms by (intro binade_bounds) auto
  then have "2 powi ?e \<le> round_pos y"
    unfolding round_pos_def quantum_def powi_on_grid [OF b(3)] by (intro round_grid_ge) auto
  finally show ?thesis .
qed

section \<open>The type and its operations\<close>

datatype f64 = Fin rat | PInf | NInf | NaN

definition rnd :: "rat \<Rightarrow> f64" where
  "rnd x =
     (if x = 0 then Fin 0
      else let y = round_pos \<bar>x\<bar>
           in if 1024 \<le> binade y then (if 0 < x then PInf else NInf)
              else Fin (sgn x * y))"

fun f64_val :: "f64 \<Rightarrow> rat" where
  "f64_val (Fin x) = x"
| "f64_val _ = 0"

definition representable :: "rat \<Rightarrow> bool" where
  "representable x \<longleftrightarrow>
     x = 0 \<or> (binade \<bar>x\<bar> < 1024 \<and> of_int \<lfloor>\<bar>x\<bar> / quantum \<bar>x\<bar>\<rfloor> = \<bar>x\<bar> / quantum \<bar>x\<bar>)"

fun f64_ok :: "f64 \<Rightarrow> bool" where
  "f64_ok (Fin x) = representable x"
| "f64_ok _ = True"

text \<open>The comparisons: none holds with a NaN.\<close>

instantiation f64 :: ord
begin

fun less_eq_f64 :: "f64 \<Rightarrow> f64 \<Rightarrow> bool" where
  "less_eq_f64 NaN b = False"
| "less_eq_f64 a NaN = False"
| "less_eq_f64 NInf b = True"
| "less_eq_f64 a PInf = True"
| "less_eq_f64 (Fin x) (Fin y) = (x \<le> y)"
| "less_eq_f64 a b = False"

fun less_f64 :: "f64 \<Rightarrow> f64 \<Rightarrow> bool" where
  "less_f64 NaN b = False"
| "less_f64 a NaN = False"
| "less_f64 (Fin x) (Fin y) = (x < y)"
| "less_f64 NInf b = (b \<noteq> NInf)"
| "less_f64 a PInf = (a \<noteq> PInf)"
| "less_f64 a b = False"

instance ..
end

text \<open>
  The arithmetic. An infinity times zero, the difference of two infinities and their quotient
  are NaN; a finite number divided by zero is a signed infinity, or NaN for zero by zero.
\<close>

instantiation f64 :: "{plus, minus, uminus, times, inverse}"
begin

fun uminus_f64 :: "f64 \<Rightarrow> f64" where
  "uminus_f64 (Fin x) = Fin (- x)"
| "uminus_f64 PInf = NInf"
| "uminus_f64 NInf = PInf"
| "uminus_f64 NaN = NaN"

fun plus_f64 :: "f64 \<Rightarrow> f64 \<Rightarrow> f64" where
  "plus_f64 (Fin x) (Fin y) = rnd (x + y)"
| "plus_f64 NaN b = NaN"
| "plus_f64 a NaN = NaN"
| "plus_f64 (Fin x) b = b"
| "plus_f64 a (Fin y) = a"
| "plus_f64 PInf PInf = PInf"
| "plus_f64 NInf NInf = NInf"
| "plus_f64 a b = NaN"

definition minus_f64 :: "f64 \<Rightarrow> f64 \<Rightarrow> f64" where
  "minus_f64 a b = a + - b"

fun signed_inf :: "rat \<Rightarrow> f64" where
  "signed_inf s = (if 0 < s then PInf else if s < 0 then NInf else NaN)"

fun f64_sign :: "f64 \<Rightarrow> rat" where
  "f64_sign (Fin x) = sgn x"
| "f64_sign PInf = 1"
| "f64_sign NInf = - 1"
| "f64_sign NaN = 0"

fun times_f64 :: "f64 \<Rightarrow> f64 \<Rightarrow> f64" where
  "times_f64 (Fin x) (Fin y) = rnd (x * y)"
| "times_f64 a b = signed_inf (f64_sign a * f64_sign b)"

fun divide_f64 :: "f64 \<Rightarrow> f64 \<Rightarrow> f64" where
  "divide_f64 (Fin x) (Fin y) = (if y = 0 then signed_inf (sgn x) else rnd (x / y))"
| "divide_f64 NaN b = NaN"
| "divide_f64 a NaN = NaN"
| "divide_f64 (Fin x) b = Fin 0"
| "divide_f64 a (Fin y) = (if y < 0 then - a else a)"
| "divide_f64 a b = NaN"

definition inverse_f64 :: "f64 \<Rightarrow> f64" where
  "inverse_f64 a = divide (Fin 1) a"

instance ..
end

text \<open>
  The conversions. Go leaves the result of converting a float that does not fit the integer
  type to the implementation; \<open>oor\<close> is that result.
\<close>

definition f64_of_int :: "int \<Rightarrow> f64" where
  "f64_of_int i = rnd (of_int i)"

definition trunc_rat :: "rat \<Rightarrow> int" where
  "trunc_rat x = (if 0 \<le> x then \<lfloor>x\<rfloor> else \<lceil>x\<rceil>)"

fun f64_to_int :: "nat \<Rightarrow> (f64 \<Rightarrow> int) \<Rightarrow> f64 \<Rightarrow> int" where
  "f64_to_int w oor (Fin x) =
     (let i = trunc_rat x
      in if - (2 ^ (w - 1)) \<le> i \<and> i < 2 ^ (w - 1) then i else oor (Fin x))"
| "f64_to_int w oor a = oor a"

section \<open>Rounding is monotone and exact on representable numbers\<close>

lemma round_pos_nonneg: "0 \<le> x \<Longrightarrow> 0 \<le> round_pos x"
  using round_half_even_mono [of "of_int 0" "x / quantum x"] quantum_pos [of x]
  by (simp add: round_pos_def round_half_even_of_int [of 0, simplified] zero_le_divide_iff zero_le_mult_iff less_imp_le del: quantum_pos)

lemma representable_round_pos: "0 < x \<Longrightarrow> representable x \<Longrightarrow> round_pos x = x"
  unfolding representable_def round_pos_def
  by (metis abs_of_pos less_irrefl nonzero_eq_divide_eq quantum_pos round_half_even_of_int)

lemma round_pos_0 [simp]: "round_pos 0 = 0"
  using round_half_even_of_int [of 0] by (simp add: round_pos_def)

lemma rnd_exact: "representable x \<Longrightarrow> rnd x = Fin x"
  by (cases x "0::rat" rule: linorder_cases)
    (auto simp: rnd_def Let_def representable_round_pos representable_def
      sgn_if dest: representable_round_pos [rotated])

lemma rnd_0 [simp]: "rnd 0 = Fin 0" by (simp add: rnd_def)

lemma rnd_minus: "rnd (- x) = - rnd x"
  by (auto simp: rnd_def Let_def sgn_if)

lemma rnd_mono_pos: "0 < x \<Longrightarrow> x \<le> y \<Longrightarrow> rnd x \<le> rnd y"
  using round_pos_mono [of x y] binade_mono [of "round_pos x" "round_pos y"] round_pos_nonneg [of x]
  by (cases "0 < round_pos x") (auto simp: rnd_def Let_def not_less)

lemma f64_le_minus: "- a \<le> - b \<longleftrightarrow> b \<le> (a :: f64)"
  by (cases a; cases b) auto

lemma rnd_sign: "0 < x \<Longrightarrow> Fin 0 \<le> rnd x"
  by (auto simp: rnd_def Let_def round_pos_nonneg)

lemma f64_le_trans: "a \<le> b \<Longrightarrow> b \<le> c \<Longrightarrow> a \<le> (c :: f64)"
  by (cases a; cases b; cases c) auto

theorem rnd_mono: "x \<le> y \<Longrightarrow> rnd x \<le> rnd y"
proof -
  assume xy: "x \<le> y"
  consider "0 < x" | "y < 0" | "x \<le> 0" "0 \<le> y" by linarith
  then show ?thesis
  proof cases
    case 1 with xy show ?thesis by (simp add: rnd_mono_pos)
  next
    case 2 with xy show ?thesis
      using rnd_mono_pos [of "- y" "- x"] by (simp add: rnd_minus f64_le_minus)
  next
    case 3
    have "rnd x \<le> Fin 0" using 3 rnd_sign [of "- x"] f64_le_minus [of "Fin 0" "rnd x"]
      by (cases "x = 0") (auto simp: rnd_minus)
    moreover have "Fin 0 \<le> rnd y" using 3 rnd_sign [of y] by (cases "y = 0") auto
    ultimately show ?thesis by (rule f64_le_trans)
  qed
qed

lemma representable_dyadic:
  assumes x: "x = of_int m * 2 powi k" and m: "\<bar>m\<bar> < 2 ^ 53" and k: "- 1074 \<le> k" "\<bar>x\<bar> < 2 powi 1024"
  shows "representable x"
proof (cases "x = 0")
  case True then show ?thesis by (simp add: representable_def)
next
  case False
  then have pos: "0 < \<bar>x\<bar>" by simp
  let ?j = "max (binade \<bar>x\<bar> - 52) (- 1074)"
  have ax: "\<bar>x\<bar> = of_int \<bar>m\<bar> * 2 powi k" using x by (simp add: abs_mult)
  have "of_int \<bar>m\<bar> < (2::rat) powi 53" using m
    by (metis of_int_less_iff of_int_numeral of_int_power power_int_numeral)
  then have "\<bar>x\<bar> < 2 powi 53 * 2 powi k" unfolding ax by simp
  also have "\<dots> = 2 powi (53 + k)" by (simp add: power_int_add)
  finally have "(2::rat) powi binade \<bar>x\<bar> < 2 powi (53 + k)" using binade_bounds(1) [OF pos] by linarith
  then have j: "?j \<le> k" using k by simp
  have "\<bar>x\<bar> / quantum \<bar>x\<bar> = of_int (\<bar>m\<bar> * 2 ^ nat (k - ?j))"
    unfolding quantum_def by (subst ax, subst powi_on_grid [OF j]) simp
  moreover have "binade \<bar>x\<bar> < 1024" using k(2) binade_ge_iff [OF pos, of 1024] by linarith
  ultimately show ?thesis unfolding representable_def by (metis floor_of_int)
qed

lemma representable_of_int: "\<bar>i\<bar> < 2 ^ 53 \<Longrightarrow> representable (of_int i)"
proof -
  assume i: "\<bar>i\<bar> < 2 ^ 53"
  have "\<bar>of_int i :: rat\<bar> < 2 ^ 53" using i by (metis of_int_abs of_int_less_iff of_int_numeral of_int_power)
  also have "(2::rat) ^ 53 < 2 powi 1024" by simp
  finally show ?thesis using i by (intro representable_dyadic [of _ i 0]) auto
qed

lemma f64_of_int_exact: "\<bar>i\<bar> < 2 ^ 53 \<Longrightarrow> f64_of_int i = Fin (of_int i)"
  by (simp add: f64_of_int_def rnd_exact representable_of_int)

lemma rnd_bounds:
  assumes "representable a" "representable b" "a \<le> x" "x \<le> b"
  obtains z where "rnd x = Fin z" "a \<le> z" "z \<le> b"
proof -
  have "Fin a \<le> rnd x" "rnd x \<le> Fin b" using rnd_mono [OF assms(3)] rnd_mono [OF assms(4)] assms(1,2)
    by (simp_all add: rnd_exact)
  then show ?thesis using that by (cases "rnd x") auto
qed

text \<open>Sums, differences and products of small integers are exact.\<close>

definition integral :: "rat \<Rightarrow> bool" where
  "integral x \<longleftrightarrow> of_int \<lfloor>x\<rfloor> = x"

lemma integral_of_int [simp]: "integral (of_int i)"
  by (simp add: integral_def)

lemma integralE: "integral x \<Longrightarrow> (\<And>i. x = of_int i \<Longrightarrow> thesis) \<Longrightarrow> thesis"
  unfolding integral_def by metis

lemma integral_numeral [simp]: "integral 0" "integral 1" "integral (numeral n)"
  using integral_of_int [of 0] integral_of_int [of 1] integral_of_int [of "numeral n"] by simp_all

lemma integral_add: "integral x \<Longrightarrow> integral y \<Longrightarrow> integral (x + y)"
  by (metis integralE integral_of_int of_int_add)

lemma integral_diff: "integral x \<Longrightarrow> integral y \<Longrightarrow> integral (x - y)"
  by (metis integralE integral_of_int of_int_diff)

lemma representable_integral: "integral x \<Longrightarrow> \<bar>x\<bar> < 2 ^ 53 \<Longrightarrow> representable x"
proof -
  assume "integral x" and lt: "\<bar>x\<bar> < 2 ^ 53"
  then obtain i where i: "x = of_int i" by (auto elim: integralE)
  have "\<bar>i\<bar> < 2 ^ 53"
    using lt unfolding i by (metis of_int_abs of_int_less_iff of_int_numeral of_int_power)
  then show ?thesis unfolding i by (rule representable_of_int)
qed

lemma rnd_integral: "integral x \<Longrightarrow> \<bar>x\<bar> < 2 ^ 53 \<Longrightarrow> rnd x = Fin x"
  by (rule rnd_exact) (rule representable_integral)

text \<open>Conversions of \<^verbatim>\<open>int64\<close> values never overflow and keep the order.\<close>

lemma representable_2_63: "representable (2 ^ 63)"
  by (rule representable_dyadic [of _ 1 63]) simp_all

lemma representable_minus: "representable x \<Longrightarrow> representable (- x)"
  by (simp add: representable_def)

lemma f64_of_int_mono: "i \<le> j \<Longrightarrow> f64_of_int i \<le> f64_of_int j"
  by (simp add: f64_of_int_def rnd_mono)

lemma f64_of_int_finite:
  assumes "\<bar>i\<bar> \<le> 2 ^ 63"
  obtains z where "f64_of_int i = Fin z"
proof -
  have "i \<le> 2 ^ 63" "- (2 ^ 63) \<le> i" using assms by auto
  then have "(of_int i :: rat) \<le> of_int (2 ^ 63)" "of_int (- (2 ^ 63)) \<le> (of_int i :: rat)"
    by (simp_all only: of_int_le_iff)
  then have "(of_int i :: rat) \<le> 2 ^ 63" "- (2 ^ 63) \<le> (of_int i :: rat)"
    by (simp_all only: of_int_minus of_int_power of_int_numeral)
  then obtain z where "rnd (of_int i) = Fin z"
    using rnd_bounds [OF representable_minus [OF representable_2_63] representable_2_63] by metis
  then show ?thesis using that by (simp add: f64_of_int_def)
qed

lemma f64_of_int_pos:
  assumes "1 \<le> i" "i \<le> 2 ^ 63"
  obtains z where "f64_of_int i = Fin z" "1 \<le> z"
proof -
  have "\<bar>i\<bar> \<le> 2 ^ 63" using assms by simp
  then obtain z where z: "f64_of_int i = Fin z" by (rule f64_of_int_finite)
  have "f64_of_int 1 \<le> f64_of_int i" using assms(1) by (rule f64_of_int_mono)
  then show ?thesis using that z by (simp add: f64_of_int_exact)
qed

text \<open>A ratio of at least one stays at least one, and scales a bound up.\<close>

lemma f64_ratio_ge_one:
  assumes "f64_of_int e \<ge> f64_of_int i" "f64_of_int e = Fin x" "f64_of_int i = Fin y" "0 < y"
  shows "f64_of_int e / f64_of_int i \<ge> Fin 1"
proof -
  have "rnd 1 \<le> rnd (x / y)" using assms by (intro rnd_mono) (simp add: le_divide_eq)
  moreover have "rnd 1 = Fin 1" by (rule rnd_integral) simp_all
  ultimately show ?thesis using assms by simp
qed

lemma f64_scale_ge:
  assumes "q \<ge> Fin 1" "0 < m" "representable m"
  shows "q * Fin m \<ge> Fin m"
proof (cases q)
  case (Fin x)
  have "rnd m \<le> rnd (x * m)" using assms Fin by (intro rnd_mono) simp
  with Fin assms(3) show ?thesis by (simp add: rnd_exact)
qed (use assms in auto)

text \<open>Subtracting one from a representable number between one and $2^{53}$ is exact.\<close>

lemma representable_minus_one:
  assumes t: "representable t" "1 \<le> t" "t \<le> 2 ^ 53"
  shows "representable (t - 1)"
proof (cases "t = 2 ^ 53")
  case True
  have "integral (t - 1)" unfolding True by (intro integral_diff) simp_all
  then show ?thesis using True by (intro representable_integral) simp_all
next
  case False
  let ?e = "binade t" and ?k = "binade t - 52"
  define m where "m = \<lfloor>t / quantum t\<rfloor>"
  have pos: "0 < t" using t by simp
  have e: "0 \<le> ?e" using binade_ge_iff [OF pos, of 0] t by simp
  have "\<not> 2 powi 53 \<le> t" using t(3) False by simp
  then have e52: "?e \<le> 52" using binade_ge_iff [OF pos, of 53] by linarith
  have q: "quantum t = 2 powi ?k" using e by (simp add: quantum_def)
  have m: "t = of_int m * 2 powi ?k"
    using t(1) pos q unfolding representable_def m_def
    by (metis abs_of_pos less_irrefl nonzero_eq_divide_eq quantum_pos)
  have one: "(1::rat) = of_int (2 ^ nat (0 - ?k)) * 2 powi ?k"
    using powi_on_grid [of ?k 0] e52 by simp
  have "t - 1 = of_int (m - 2 ^ nat (0 - ?k)) * 2 powi ?k"
    by (simp only: of_int_diff left_diff_distrib m [symmetric] one [symmetric])
  moreover have "\<bar>m - 2 ^ nat (0 - ?k)\<bar> < 2 ^ 53"
  proof -
    have "t < 2 powi (?e + 1)" using pos by (rule binade_bounds)
    also have "\<dots> = 2 ^ 53 * 2 powi ?k" using powi_on_grid [of ?k "?e + 1"] by simp
    finally have "of_int m * 2 powi ?k < 2 ^ 53 * (2::rat) powi ?k" by (simp only: m [symmetric])
    then have "of_int m < (2 ^ 53 :: rat)" by (rule mult_right_less_imp_less) simp
    then have "m < 2 ^ 53" by (metis of_int_less_iff of_int_numeral of_int_power)
    moreover have "0 \<le> (of_int m - of_int (2 ^ nat (0 - ?k)) :: rat) * 2 powi ?k"
      using t(2) by (simp only: left_diff_distrib m [symmetric] one [symmetric])
    then have "(0::rat) \<le> of_int m - of_int (2 ^ nat (0 - ?k))"
      by (rule mult_right_le_imp_le [of 0, simplified mult_zero_left]) simp
    then have "0 \<le> m - 2 ^ nat (0 - ?k)" by (simp only: of_int_diff [symmetric] of_int_0_le_iff)
    moreover have "(0::int) \<le> 2 ^ nat (0 - ?k)" by simp
    ultimately show ?thesis by linarith
  qed
  moreover have "\<bar>t - 1\<bar> < 2 powi 1024"
  proof -
    have "\<bar>t - 1\<bar> < 2 powi 53" using t by simp
    also have "(2::rat) powi 53 < 2 powi 1024" by (simp only: powi_2_less_iff)
    finally show ?thesis .
  qed
  ultimately show ?thesis using e by (intro representable_dyadic [of _ _ ?k]) auto
qed

end
