(* ===== verification/Adaptive_Bucket.thy ===== *)
theory Adaptive_Bucket
  imports Token_Bucket Float64
begin

text \<open>
  The client-side bucket of retry tokens (\<^verbatim>\<open>adaptive_retry.go\<close>). A retry costs
  \<open>retryCost\<close> tokens, a successful response gives \<open>successRefill\<close> back, up to
  \<open>maxCapacity\<close>. Both operations run under the bucket's mutex, so each is one atomic
  state transformer.
\<close>

section \<open>The bucket and its operations\<close>

record adaptive_bucket =
  ab_tokens :: f64
  ab_maxCapacity :: f64
  ab_retryCost :: f64
  ab_successRefill :: f64

definition NewAdaptiveBucket :: "f64 \<Rightarrow> f64 \<Rightarrow> f64 \<Rightarrow> adaptive_bucket" where
  "NewAdaptiveBucket maxCapacity retryCost successRefill =
     \<lparr>ab_tokens = maxCapacity, ab_maxCapacity = maxCapacity,
      ab_retryCost = retryCost, ab_successRefill = successRefill\<rparr>"

definition DefaultAdaptiveBucket :: adaptive_bucket where
  "DefaultAdaptiveBucket = NewAdaptiveBucket (Fin 500) (Fin 5) (Fin 1)"

definition AcquireRetryToken :: "adaptive_bucket \<Rightarrow> bool \<times> adaptive_bucket" where
  "AcquireRetryToken b =
     (if ab_tokens b \<ge> ab_retryCost b
      then (True, b\<lparr>ab_tokens := ab_tokens b - ab_retryCost b\<rparr>)
      else (False, b))"

definition AddSuccessToken :: "adaptive_bucket \<Rightarrow> adaptive_bucket" where
  "AddSuccessToken b =
     (let b = b\<lparr>ab_tokens := ab_tokens b + ab_successRefill b\<rparr>
      in if ab_tokens b > ab_maxCapacity b then b\<lparr>ab_tokens := ab_maxCapacity b\<rparr> else b)"

lemmas bucket_defs = NewAdaptiveBucket_def DefaultAdaptiveBucket_def
  AcquireRetryToken_def AddSuccessToken_def

declare bucket_defs [op_defs]

section \<open>The level stays between zero and the capacity\<close>

text \<open>
  Any finite configuration: rounding cannot push the level out of the range, because both
  ends of the range are representable.
\<close>

definition bucket_ok :: "adaptive_bucket \<Rightarrow> bool" where
  "bucket_ok b \<longleftrightarrow>
     Fin 0 \<le> ab_tokens b \<and> ab_tokens b \<le> ab_maxCapacity b \<and>
     ab_maxCapacity b \<noteq> PInf \<and> f64_ok (ab_maxCapacity b) \<and>
     Fin 0 \<le> ab_retryCost b \<and> Fin 0 \<le> ab_successRefill b"

declare bucket_ok_def [inv_defs]

lemma f64_geE:
  assumes "Fin a \<le> x" "x \<le> y" "y \<noteq> PInf"
  obtains u v where "x = Fin u" "y = Fin v" "a \<le> u" "u \<le> v"
  using assms by (cases x; cases y) auto

lemma bucket_ok_New:
  "representable cap \<Longrightarrow> 0 \<le> cap \<Longrightarrow> Fin 0 \<le> cost \<Longrightarrow> Fin 0 \<le> refill \<Longrightarrow>
     bucket_ok (NewAdaptiveBucket (Fin cap) cost refill)"
  by (simp add: bucket_ok_def NewAdaptiveBucket_def)

lemma bucket_ok_Acquire [preserved]:
  assumes "bucket_ok b"
  shows "bucket_ok (snd (AcquireRetryToken b))"
proof (cases "ab_tokens b \<ge> ab_retryCost b")
  case True
  obtain t m where tm: "ab_tokens b = Fin t" "ab_maxCapacity b = Fin m" "0 \<le> t" "t \<le> m"
    using assms by (auto simp: bucket_ok_def elim!: f64_geE)
  obtain c where c: "ab_retryCost b = Fin c" "0 \<le> c" "c \<le> t"
    using assms True tm by (cases "ab_retryCost b") (auto simp: bucket_ok_def)
  have "representable 0" "representable m"
    using assms tm by (simp_all add: bucket_ok_def representable_def)
  then obtain z where "rnd (t - c) = Fin z" "0 \<le> z" "z \<le> m"
    using rnd_bounds [of 0 m "t - c"] c tm by auto
  then show ?thesis
    using assms True tm c by (simp add: AcquireRetryToken_def bucket_ok_def minus_f64_def)
next
  case False
  with assms show ?thesis by (simp add: AcquireRetryToken_def)
qed

lemma bucket_ok_Success [preserved]:
  assumes "bucket_ok b"
  shows "bucket_ok (AddSuccessToken b)"
proof -
  obtain t m where tm: "ab_tokens b = Fin t" "ab_maxCapacity b = Fin m" "0 \<le> t" "t \<le> m"
    using assms by (auto simp: bucket_ok_def elim!: f64_geE)
  have "Fin 0 \<le> ab_tokens b + ab_successRefill b"
  proof (cases "ab_successRefill b")
    case (Fin r)
    then have "rnd 0 \<le> rnd (t + r)"
      using assms tm by (intro rnd_mono) (simp add: bucket_ok_def)
    then show ?thesis using Fin tm by simp
  qed (use assms tm in \<open>auto simp: bucket_ok_def\<close>)
  then show ?thesis
    using assms tm by (cases "Fin t + ab_successRefill b") (auto simp: AddSuccessToken_def bucket_ok_def Let_def)
qed

lemma bucket_ok_run [preserved]:
  "bucket_ok b \<Longrightarrow> bucket_ok (snd (bucket_run AcquireRetryToken AddSuccessToken os b))"
proof (induction os arbitrary: b)
  case Nil
  then show ?case by simp
next
  case (Cons x os)
  then show ?case
    by (cases x) (simp_all add: split_beta Let_def bucket_ok_Acquire bucket_ok_Success)
qed

lemma run_maxCapacity [simp]:
  "ab_maxCapacity (snd (bucket_run AcquireRetryToken AddSuccessToken os b)) = ab_maxCapacity b"
proof (induction os arbitrary: b)
  case (Cons x os)
  then show ?case by (cases x) (simp_all add: split_beta Let_def bucket_defs)
qed simp

text \<open>
  Whatever the sequence of retries and successes, a bucket made with a capacity that is a
  finite non-negative float, a non-negative cost and a non-negative refill keeps its level
  between zero and the capacity: neither rounding nor an infinite refill breaks the range.
\<close>

theorem adaptive_bucket_level_bounds:
  assumes "representable cap" "0 \<le> cap" "Fin 0 \<le> cost" "Fin 0 \<le> refill"
  shows "Fin 0 \<le> ab_tokens (snd (bucket_run AcquireRetryToken AddSuccessToken os
             (NewAdaptiveBucket (Fin cap) cost refill)))
       \<and> ab_tokens (snd (bucket_run AcquireRetryToken AddSuccessToken os
             (NewAdaptiveBucket (Fin cap) cost refill))) \<le> Fin cap"
  using bucket_ok_run [OF bucket_ok_New [OF assms], where os = os]
  by (simp add: bucket_ok_def NewAdaptiveBucket_def)

theorem adaptive_bucket_level_bounds_witness:
  "Fin 0 \<le> ab_tokens (snd (bucket_run AcquireRetryToken AddSuccessToken [Take, Refill, Take]
             (NewAdaptiveBucket (Fin 10) (Fin 3) PInf)))
   \<and> ab_tokens (snd (bucket_run AcquireRetryToken AddSuccessToken [Take, Refill, Take]
             (NewAdaptiveBucket (Fin 10) (Fin 3) PInf))) \<le> Fin 10"
proof -
  have "representable 10" using representable_of_int [of 10] by simp
  then show ?thesis by (rule adaptive_bucket_level_bounds) simp_all
qed

section \<open>Integer configurations are exact\<close>

text \<open>
  A bucket whose four parameters are integers below $2^{53}$, as the defaults are, computes
  without rounding: it provides the token-bucket interface.
\<close>

definition bucket_exact :: "adaptive_bucket \<Rightarrow> bool" where
  "bucket_exact b \<longleftrightarrow>
     (case (ab_tokens b, ab_maxCapacity b, ab_retryCost b, ab_successRefill b) of
        (Fin t, Fin m, Fin c, Fin r) \<Rightarrow>
          integral t \<and> integral m \<and> integral c \<and> integral r \<and>
          0 \<le> t \<and> t \<le> m \<and> 0 < c \<and> 0 \<le> r \<and> m + r < 2 ^ 53
      | _ \<Rightarrow> False)"

declare bucket_exact_def [inv_defs]

lemma bucket_exactE:
  assumes "bucket_exact b"
  obtains t m c r where "ab_tokens b = Fin t" "ab_maxCapacity b = Fin m"
    "ab_retryCost b = Fin c" "ab_successRefill b = Fin r"
    "integral t" "integral m" "integral c" "integral r"
    "0 \<le> t" "t \<le> m" "0 < c" "0 \<le> r" "m + r < 2 ^ 53"
  using assms by (auto simp: bucket_exact_def split: f64.splits)

lemma Acquire_exact:
  assumes "bucket_exact b"
  shows "AcquireRetryToken b =
    (if f64_val (ab_retryCost b) \<le> f64_val (ab_tokens b)
     then (True, b\<lparr>ab_tokens := Fin (f64_val (ab_tokens b) - f64_val (ab_retryCost b))\<rparr>)
     else (False, b))"
proof -
  obtain t m c where e: "ab_tokens b = Fin t" "ab_maxCapacity b = Fin m" "ab_retryCost b = Fin c"
    "integral t" "integral c" "0 \<le> t" "t \<le> m" "0 < c" "m < 2 ^ 53"
    using assms by (auto elim!: bucket_exactE)
  then have "rnd (t - c) = Fin (t - c)" if "c \<le> t"
    using that by (intro rnd_integral integral_diff) auto
  with e show ?thesis by (simp add: AcquireRetryToken_def minus_f64_def)
qed

lemma Success_exact:
  assumes "bucket_exact b"
  shows "AddSuccessToken b =
    b\<lparr>ab_tokens := Fin (min (f64_val (ab_tokens b) + f64_val (ab_successRefill b))
                         (f64_val (ab_maxCapacity b)))\<rparr>"
proof -
  obtain t m c r where e: "ab_tokens b = Fin t" "ab_maxCapacity b = Fin m" "ab_successRefill b = Fin r"
    "integral t" "integral r" "0 \<le> t" "t \<le> m" "0 \<le> r" "m + r < 2 ^ 53"
    using assms by (rule bucket_exactE)
  then have "rnd (t + r) = Fin (t + r)" by (intro rnd_integral integral_add) auto
  with e show ?thesis by (simp add: AddSuccessToken_def Let_def min_def)
qed

interpretation retry_bucket: refilled_bucket AcquireRetryToken
  "\<lambda>b. f64_val (ab_tokens b)" "\<lambda>b. f64_val (ab_retryCost b)" bucket_exact
  AddSuccessToken "\<lambda>b. f64_val (ab_successRefill b)"
proof
  fix b
  assume b: "bucket_exact b"
  then obtain t m c r where e: "ab_tokens b = Fin t" "ab_maxCapacity b = Fin m"
    "ab_retryCost b = Fin c" "ab_successRefill b = Fin r"
    "integral t" "integral m" "integral c" "integral r"
    "0 \<le> t" "t \<le> m" "0 < c" "0 \<le> r" "m + r < 2 ^ 53"
    by (rule bucket_exactE)
  note A = Acquire_exact [OF b] and S = Success_exact [OF b]
  show "bucket_exact (snd (AcquireRetryToken b))"
    using b e by (auto simp: A bucket_exact_def integral_diff)
  show "bucket_exact (AddSuccessToken b)"
    using b e by (auto simp: S bucket_exact_def integral_add min_def)
  show "0 \<le> f64_val (ab_tokens b)" "0 < f64_val (ab_retryCost b)"
    using e by simp_all
qed (auto simp: Acquire_exact Success_exact)

lemma Default_exact: "bucket_exact DefaultAdaptiveBucket"
  by (simp add: bucket_defs bucket_exact_def)

text \<open>
  C39. The default bucket allows at most one hundred retries plus one for every five successful
  responses, in any order of requests and responses: five times the number of granted retries
  never exceeds 500 plus the number of successes.
\<close>

theorem default_bucket_retry_budget:
  "5 * fst (bucket_run AcquireRetryToken AddSuccessToken os DefaultAdaptiveBucket)
     \<le> 500 + count_list os Refill"
proof -
  let ?n = "fst (bucket_run AcquireRetryToken AddSuccessToken os DefaultAdaptiveBucket)"
  have "of_nat (5 * ?n) \<le> (of_nat (500 + count_list os Refill) :: rat)"
    using retry_bucket.run_paid [OF Default_exact, of os]
    by (simp add: DefaultAdaptiveBucket_def NewAdaptiveBucket_def mult.commute)
  then show ?thesis by (simp only: of_nat_le_iff)
qed

text \<open>
  With no successful response, the default bucket grants exactly the first hundred retries
  and refuses every later one.
\<close>

theorem default_bucket_depletes:
  "fst (bucket_run AcquireRetryToken AddSuccessToken (replicate n Take) DefaultAdaptiveBucket)
     = min n 100"
  using retry_bucket.run_takes [OF Default_exact, of AddSuccessToken n]
  by (simp add: DefaultAdaptiveBucket_def NewAdaptiveBucket_def)

end
