(* ===== verification/Rate_Limiter.thy ===== *)
theory Rate_Limiter
  imports Token_Bucket Float64
begin

text \<open>
  The time-based token bucket (\<^verbatim>\<open>ratelimit.go\<close>). \<open>Acquire\<close> runs under the
  limiter's mutex and reads the clock once; that reading is its argument \<open>now\<close>.
\<close>

section \<open>The limiter and its operation\<close>

record rate_limiter =
  rl_limit :: f64
  rl_tokens :: f64
  rl_interval :: duration
  rl_lastRefillAt :: time

definition NewRateLimiter :: "f64 \<Rightarrow> duration \<Rightarrow> time \<Rightarrow> rate_limiter" where
  "NewRateLimiter limit interval now =
     \<lparr>rl_limit = limit, rl_tokens = limit, rl_interval = interval, rl_lastRefillAt = now\<rparr>"

definition refill_tokens :: "time \<Rightarrow> rate_limiter \<Rightarrow> rate_limiter" where
  "refill_tokens now rl =
     (let elapsed = time_Sub now (rl_lastRefillAt rl);
          refill = f64_of_int elapsed / f64_of_int (rl_interval rl) * rl_limit rl
      in if refill > Fin 0
         then (let rl = rl\<lparr>rl_tokens := rl_tokens rl + refill\<rparr>;
                   rl = (if rl_tokens rl > rl_limit rl then rl\<lparr>rl_tokens := rl_limit rl\<rparr> else rl)
               in rl\<lparr>rl_lastRefillAt := now\<rparr>)
         else rl)"

definition Acquire :: "time \<Rightarrow> rate_limiter \<Rightarrow> bool \<times> rate_limiter" where
  "Acquire now rl =
     (let rl = refill_tokens now rl
      in if rl_tokens rl \<ge> Fin 1 then (True, rl\<lparr>rl_tokens := rl_tokens rl - Fin 1\<rparr>)
         else (False, rl))"

lemmas limiter_defs = NewRateLimiter_def refill_tokens_def Acquire_def

declare limiter_defs [op_defs]

text \<open>A run: one \<open>Acquire\<close> per clock reading; the answers, and the limiter after them.\<close>

fun acquire_run :: "time list \<Rightarrow> rate_limiter \<Rightarrow> bool list \<times> rate_limiter" where
  "acquire_run [] rl = ([], rl)"
| "acquire_run (t # ts) rl =
     (let (g, rl') = Acquire t rl; (gs, rl'') = acquire_run ts rl' in (g # gs, rl''))"

section \<open>The level stays between zero and the limit\<close>

definition limiter_ok :: "rate_limiter \<Rightarrow> bool" where
  "limiter_ok rl \<longleftrightarrow>
     Fin 0 \<le> rl_tokens rl \<and> rl_tokens rl \<le> rl_limit rl \<and>
     rl_limit rl \<noteq> PInf \<and> f64_ok (rl_limit rl)"

declare limiter_ok_def [inv_defs]

lemma limiter_okE:
  assumes "limiter_ok rl"
  obtains t m where "rl_tokens rl = Fin t" "rl_limit rl = Fin m" "0 \<le> t" "t \<le> m" "representable m"
  using assms by (cases "rl_tokens rl"; cases "rl_limit rl") (auto simp: limiter_ok_def)

lemma refill_limit [simp]:
  "rl_limit (refill_tokens now rl) = rl_limit rl"
  "rl_interval (refill_tokens now rl) = rl_interval rl"
  by (simp_all add: refill_tokens_def Let_def)

lemma acquire_limit [simp]:
  "rl_limit (snd (Acquire now rl)) = rl_limit rl"
  "rl_interval (snd (Acquire now rl)) = rl_interval rl"
  by (simp_all add: Acquire_def Let_def)

lemma limiter_ok_refill [preserved]:
  assumes "limiter_ok rl"
  shows "limiter_ok (refill_tokens now rl)"
proof -
  obtain t m where tm: "rl_tokens rl = Fin t" "rl_limit rl = Fin m" "0 \<le> t" "t \<le> m" "representable m"
    using assms by (rule limiter_okE)
  let ?r = "f64_of_int (time_Sub now (rl_lastRefillAt rl)) / f64_of_int (rl_interval rl) * rl_limit rl"
  have sum: "Fin 0 \<le> Fin t + ?r" if "?r > Fin 0"
  proof (cases ?r)
    case (Fin r)
    then have "rnd 0 \<le> rnd (t + r)" using that tm by (intro rnd_mono) simp
    with Fin show ?thesis by simp
  qed (use that in auto)
  show ?thesis
  proof (cases "?r > Fin 0")
    case True
    with sum tm show ?thesis
      by (cases "Fin t + ?r") (auto simp: refill_tokens_def limiter_ok_def Let_def)
  next
    case False
    with assms show ?thesis by (simp add: refill_tokens_def Let_def)
  qed
qed

lemma limiter_ok_acquire [preserved]:
  assumes "limiter_ok rl"
  shows "limiter_ok (snd (Acquire now rl))"
proof -
  have ok: "limiter_ok (refill_tokens now rl)" by (rule limiter_ok_refill [OF assms])
  then obtain t m where tm: "rl_tokens (refill_tokens now rl) = Fin t" "rl_limit rl = Fin m"
    "0 \<le> t" "t \<le> m" "representable m"
    by (auto elim: limiter_okE)
  show ?thesis
  proof (cases "1 \<le> t")
    case True
    have "representable 0" by (simp add: representable_def)
    then obtain z where "rnd (t - 1) = Fin z" "0 \<le> z" "z \<le> m"
      using rnd_bounds [of 0 m "t - 1"] True tm by auto
    with True tm show ?thesis by (simp add: Acquire_def Let_def limiter_ok_def minus_f64_def)
  next
    case False
    with ok tm show ?thesis by (simp add: Acquire_def Let_def)
  qed
qed

lemma limiter_ok_run [preserved]:
  "limiter_ok rl \<Longrightarrow> limiter_ok (snd (acquire_run ts rl))"
  by (induction ts arbitrary: rl) (simp_all add: split_beta Let_def limiter_ok_acquire)

lemma run_limit [simp]: "rl_limit (snd (acquire_run ts rl)) = rl_limit rl"
  by (induction ts arbitrary: rl) (simp_all add: split_beta Let_def)

lemma limiter_ok_New: "representable m \<Longrightarrow> 0 \<le> m \<Longrightarrow> limiter_ok (NewRateLimiter (Fin m) i t)"
  by (simp add: limiter_ok_def NewRateLimiter_def)

text \<open>
  For every finite non-negative limit and every interval, zero and negative intervals
  included, the level stays between zero and the limit for any sequence of clock readings,
  even one that runs backwards.
\<close>

theorem rate_limiter_level_bounds:
  assumes "representable m" "0 \<le> m"
  shows "Fin 0 \<le> rl_tokens (snd (acquire_run ts (NewRateLimiter (Fin m) i t0)))
       \<and> rl_tokens (snd (acquire_run ts (NewRateLimiter (Fin m) i t0))) \<le> Fin m"
  using limiter_ok_run [OF limiter_ok_New [OF assms], of ts i t0]
  by (simp add: limiter_ok_def NewRateLimiter_def)

theorem rate_limiter_level_bounds_witness:
  "Fin 0 \<le> rl_tokens (snd (acquire_run [5, 3, 7] (NewRateLimiter (Fin 2) 0 4)))
   \<and> rl_tokens (snd (acquire_run [5, 3, 7] (NewRateLimiter (Fin 2) 0 4))) \<le> Fin 2"
proof -
  have "representable 2" using representable_of_int [of 2] by simp
  then show ?thesis by (rule rate_limiter_level_bounds) simp
qed

section \<open>A limit below one starves every caller\<close>

lemma acquire_refused_below_one:
  assumes "limiter_ok rl" "rl_limit rl < Fin 1"
  shows "fst (Acquire now rl) = False"
proof -
  obtain t m where "rl_tokens (refill_tokens now rl) = Fin t" "rl_limit rl = Fin m" "t \<le> m"
    using limiter_ok_refill [OF assms(1), of now] by (auto elim: limiter_okE)
  with assms(2) show ?thesis by (simp add: Acquire_def Let_def)
qed

text \<open>
  C40. A limiter whose limit is below one, such as half a request per second, refuses every
  request for ever, however long its callers wait: the bucket is capped at the limit, and a
  request needs a whole token.
\<close>

theorem rate_limiter_fractional_limit_starves:
  assumes "representable m" "0 \<le> m" "m < 1"
  shows "fst (acquire_run ts (NewRateLimiter (Fin m) i t0)) = replicate (length ts) False"
proof -
  have "fst (acquire_run ts rl) = replicate (length ts) False"
    if "limiter_ok rl" "rl_limit rl < Fin 1" for rl
    using that
    by (induction ts arbitrary: rl)
      (simp_all add: split_beta Let_def limiter_ok_acquire acquire_refused_below_one)
  then show ?thesis
    using limiter_ok_New [OF assms(1,2)] assms(3) by (simp add: NewRateLimiter_def)
qed

lemma representable_half: "representable (1 / 2)"
  by (rule representable_dyadic [of _ 1 "- 1"]) (simp_all add: power_int_minus)

theorem rate_limiter_fractional_limit_starves_witness:
  "fst (acquire_run [0, 4 * Second, Hour] (NewRateLimiter (Fin (1 / 2)) Second 0))
     = [False, False, False]"
  using rate_limiter_fractional_limit_starves [OF representable_half, of "[0, 4 * Second, Hour]" Second 0]
  by simp

section \<open>Bursts at one instant\<close>

text \<open>
  While the clock stands still no token comes in, and subtracting one token is exact for
  levels up to $2^{53}$: the limiter then provides the token-bucket interface.
\<close>

definition limiter_still :: "time \<Rightarrow> rate_limiter \<Rightarrow> bool" where
  "limiter_still now rl \<longleftrightarrow>
     limiter_ok rl \<and> f64_ok (rl_tokens rl) \<and> rl_tokens rl \<le> Fin (2 ^ 53) \<and>
     rl_lastRefillAt rl = now"

declare limiter_still_def [inv_defs]

lemma refill_same_instant: "rl_lastRefillAt rl = now \<Longrightarrow> refill_tokens now rl = rl"
  by (cases "f64_of_int (rl_interval rl)"; cases "rl_limit rl")
    (auto simp: refill_tokens_def Let_def f64_of_int_def)

lemma acquire_still:
  assumes "limiter_still now rl"
  shows "Acquire now rl =
    (if 1 \<le> f64_val (rl_tokens rl)
     then (True, rl\<lparr>rl_tokens := Fin (f64_val (rl_tokens rl) - 1)\<rparr>) else (False, rl))"
proof -
  obtain t m where t: "rl_tokens rl = Fin t" "rl_limit rl = Fin m" "0 \<le> t" "t \<le> m"
    using assms by (auto simp: limiter_still_def elim: limiter_okE)
  have "rnd (t - 1) = Fin (t - 1)" if "1 \<le> t"
    using assms t that by (intro rnd_exact representable_minus_one) (auto simp: limiter_still_def)
  with t assms show ?thesis
    by (simp add: Acquire_def Let_def refill_same_instant limiter_still_def minus_f64_def)
qed

interpretation still_limiter: token_bucket "Acquire now"
  "\<lambda>rl. f64_val (rl_tokens rl)" "\<lambda>_. 1" "limiter_still now" for now
proof
  fix rl
  assume s: "limiter_still now rl"
  then obtain t m where t: "rl_tokens rl = Fin t" "rl_limit rl = Fin m" "0 \<le> t" "t \<le> m"
    by (auto simp: limiter_still_def elim: limiter_okE)
  note A = acquire_still [OF s]
  show "0 \<le> f64_val (rl_tokens rl)" using t by simp
  show "limiter_still now (snd (Acquire now rl))"
    using s t representable_minus_one [of t] by (auto simp: A limiter_still_def limiter_ok_def)
qed (auto simp: acquire_still split: if_splits)

lemma acquire_run_bucket:
  "length (filter id (fst (acquire_run (replicate n now) rl)))
     = fst (bucket_run (Acquire now) id (replicate n Take) rl)"
  by (induction n arbitrary: rl) (simp_all add: split_beta Let_def)

lemma burst_still:
  assumes "limiter_still now rl"
  shows "length (filter id (fst (acquire_run (replicate n now) rl)))
    = min n (nat \<lfloor>f64_val (rl_tokens rl)\<rfloor>)"
  using still_limiter.run_takes [OF assms] by (simp add: acquire_run_bucket)

section \<open>A quiet interval restores the whole limit\<close>

lemma refill_after_interval:
  assumes "limiter_ok rl" "rl_limit rl = Fin m" "0 < m"
    "0 < rl_interval rl" "rl_interval rl \<le> max_int64"
    "rl_lastRefillAt rl + rl_interval rl \<le> now"
  shows "refill_tokens now rl = rl\<lparr>rl_tokens := Fin m, rl_lastRefillAt := now\<rparr>"
proof -
  let ?e = "time_Sub now (rl_lastRefillAt rl)" and ?i = "rl_interval rl"
  have e: "?i \<le> ?e" "1 \<le> ?i" "?e \<le> 2 ^ 63" "?i \<le> 2 ^ 63"
    using assms by (auto simp: time_Sub_def clamp_int64_def max_int64_def min_int64_def)
  obtain x y where xy: "f64_of_int ?e = Fin x" "f64_of_int ?i = Fin y" "1 \<le> y"
    using e by (metis f64_of_int_pos order_trans)
  obtain t where t: "rl_tokens rl = Fin t" "0 \<le> t" "t \<le> m" "representable m"
    using assms by (auto elim: limiter_okE)
  have "f64_of_int ?e / f64_of_int ?i \<ge> Fin 1"
    using xy f64_of_int_mono [OF e(1)] by (intro f64_ratio_ge_one) auto
  then have r: "f64_of_int ?e / f64_of_int ?i * Fin m \<ge> Fin m"
    using assms(3) t by (intro f64_scale_ge)
  have sum: "Fin t + (f64_of_int ?e / f64_of_int ?i * Fin m) \<ge> Fin m"
  proof (cases "f64_of_int ?e / f64_of_int ?i * Fin m")
    case (Fin r')
    then have "rnd m \<le> rnd (t + r')" using r t by (intro rnd_mono) simp
    with Fin t show ?thesis by (simp add: rnd_exact)
  qed (use r in auto)
  have "Fin 0 < f64_of_int ?e / f64_of_int ?i * Fin m"
    using r assms(3) by (cases "f64_of_int ?e / f64_of_int ?i * Fin m") auto
  then show ?thesis
    using sum t assms(2)
    by (cases "Fin t + (f64_of_int ?e / f64_of_int ?i * Fin m)")
      (auto simp: refill_tokens_def Let_def)
qed

lemma acquire_run_refilled:
  "0 < n \<Longrightarrow> refill_tokens now rl = rl' \<Longrightarrow> refill_tokens now rl' = rl' \<Longrightarrow>
     fst (acquire_run (replicate n now) rl) = fst (acquire_run (replicate n now) rl')"
  by (cases n) (simp_all add: Acquire_def Let_def)

text \<open>
  Once a whole interval has passed since the last refill, whatever was spent before, a
  burst of simultaneous requests is granted up to the whole part of the limit and not beyond.
\<close>

theorem rate_limiter_burst_after_interval:
  assumes "limiter_ok rl" "rl_limit rl = Fin m" "0 < m" "m \<le> 2 ^ 53"
    "0 < rl_interval rl" "rl_interval rl \<le> max_int64"
    "rl_lastRefillAt rl + rl_interval rl \<le> now"
  shows "length (filter id (fst (acquire_run (replicate n now) rl))) = min n (nat \<lfloor>m\<rfloor>)"
proof (cases "n = 0")
  case False
  let ?rl = "rl\<lparr>rl_tokens := Fin m, rl_lastRefillAt := now\<rparr>"
  have still: "limiter_still now ?rl"
    using assms by (auto simp: limiter_still_def limiter_ok_def)
  have "fst (acquire_run (replicate n now) rl) = fst (acquire_run (replicate n now) ?rl)"
    using False assms
    by (intro acquire_run_refilled refill_after_interval refill_same_instant) auto
  then show ?thesis using burst_still [OF still] by simp
qed simp

theorem rate_limiter_burst_after_interval_witness:
  "length (filter id (fst (acquire_run (replicate 5 (2 * Second))
     \<lparr>rl_limit = Fin 3, rl_tokens = Fin 0, rl_interval = Second, rl_lastRefillAt = Second\<rparr>))) = 3"
proof -
  let ?rl = "\<lparr>rl_limit = Fin 3, rl_tokens = Fin 0, rl_interval = Second, rl_lastRefillAt = Second\<rparr>"
  have "representable 3" using representable_of_int [of 3] by simp
  then have "limiter_ok ?rl" by (simp add: limiter_ok_def)
  then show ?thesis
    using rate_limiter_burst_after_interval [of ?rl 3 "2 * Second" 5]
    by (simp add: Second_def max_int64_def)
qed

end
