(* ===== verification/Rate_Bound.thy ===== *)
theory Rate_Bound
  imports Rate_Limiter
begin

text \<open>
  The rate limiter enforces its rate: a bound from above on what it grants during any period, with
  the rounding of all its float operations accounted for. The potential of the limiter, its level
  plus what can still flow in until the end of the period, pays for every grant; each operation adds
  at most a rounding error that is small against one request.
\<close>

section \<open>Rounding errors\<close>

text \<open>A relative error of $2^{-52}$ and an absolute one of $2^{-60}$ cover a rounding.\<close>

lemma rnd_error:
  assumes "0 \<le> x" "rnd x = Fin z"
  shows "\<bar>z - x\<bar> \<le> x / 2 ^ 52 + 1 / 2 ^ 60"
proof (cases "x = 0")
  case True
  then show ?thesis using assms(2) by simp
next
  case False
  then have x: "0 < x" using assms(1) by simp
  then have z: "z = of_int (round_half_even (x / quantum x)) * quantum x"
    using assms(2) by (simp add: rnd_def round_pos_def Let_def split: if_splits)
  have "\<bar>of_int (round_half_even (x / quantum x)) - x / quantum x\<bar> * quantum x \<le> 1 / 2 * quantum x"
    by (intro mult_right_mono round_half_even_near) (simp add: less_imp_le)
  moreover have "\<bar>of_int (round_half_even (x / quantum x)) - x / quantum x\<bar> * quantum x = \<bar>z - x\<bar>"
  proof -
    have "quantum x \<noteq> 0" using quantum_pos [of x] by (metis less_irrefl)
    then have "(of_int (round_half_even (x / quantum x)) - x / quantum x) * quantum x = z - x"
      by (simp add: z left_diff_distrib)
    then show ?thesis using quantum_pos [of x] by (metis abs_mult abs_of_pos)
  qed
  ultimately have e: "\<bar>z - x\<bar> \<le> quantum x / 2" by simp
  have b: "(2::rat) powi (binade x - 52) = 2 powi binade x / 2 ^ 52" by (simp add: power_int_diff)
  have "quantum x \<le> 2 powi (binade x - 52) + 2 powi (- 1074)"
    by (cases "- 1074 \<le> binade x - 52") (simp_all add: quantum_def max_def)
  also have "2 powi (binade x - 52) \<le> x / 2 ^ 52"
    unfolding b by (intro divide_right_mono binade_bounds x) simp
  also have "(2::rat) powi (- 1074) \<le> 2 powi (- 60)" by (simp only: powi_2_le_iff)
  also have "(2::rat) powi (- 60) = 1 / 2 ^ 60" by (simp add: power_int_minus)
  finally have "quantum x \<le> x / 2 ^ 52 + 1 / 2 ^ 60" by simp
  moreover have "0 < quantum x" by simp
  ultimately show ?thesis using e by linarith
qed

lemma rnd_up:
  assumes "0 \<le> x" "rnd x = Fin z"
  shows "z \<le> x * (1 + 1 / 2 ^ 52) + 1 / 2 ^ 60"
proof -
  have "z - x \<le> x / 2 ^ 52 + 1 / 2 ^ 60" using rnd_error [OF assms] by linarith
  then show ?thesis by simp
qed

lemma rnd_finite:
  assumes "0 \<le> x" "x \<le> 2 ^ 200"
  obtains z where "rnd x = Fin z" "0 \<le> z"
proof -
  have "representable (2 ^ 200)" by (rule representable_dyadic [of _ 1 200]) simp_all
  moreover have "representable 0" by (simp add: representable_def)
  ultimately show ?thesis using rnd_bounds [of 0 "2 ^ 200" x] assms that by metis
qed

text \<open>Integers of the size of an \<^verbatim>\<open>int64\<close>.\<close>

lemma int_error:
  assumes "1 \<le> e" "f64_of_int e = Fin x"
  shows "of_int e * (1 - 2 / 2 ^ 52) \<le> x" "x \<le> of_int e * (1 + 2 / 2 ^ 52)"
proof -
  have "\<bar>x - of_int e\<bar> \<le> of_int e / 2 ^ 52 + 1 / 2 ^ 60"
    using assms by (intro rnd_error) (simp_all add: f64_of_int_def)
  then have "x - of_int e \<le> of_int e / 2 ^ 52 + 1 / 2 ^ 60" "of_int e - x \<le> of_int e / 2 ^ 52 + 1 / 2 ^ 60"
    by linarith+
  moreover have "(1::rat) \<le> of_int e" using assms(1) by simp
  ultimately show "of_int e * (1 - 2 / 2 ^ 52) \<le> x" "x \<le> of_int e * (1 + 2 / 2 ^ 52)" by simp_all
qed

section \<open>One refill\<close>

text \<open>The refill is at most the exact share of the limit, up to a small factor.\<close>

lemma quotient_bound:
  assumes "1 \<le> e" "e \<le> 2 ^ 63" "1 \<le> i" "i \<le> 2 ^ 63"
  obtains q where "f64_of_int e / f64_of_int i = Fin q" "1 / 2 ^ 64 \<le> q"
    "q \<le> of_int e / of_int i * (1 + 7 / 2 ^ 52) + 1 / 2 ^ 60"
proof -
  obtain x y where x: "f64_of_int e = Fin x" "1 \<le> x" and y: "f64_of_int i = Fin y" "1 \<le> y"
    using f64_of_int_pos assms by metis
  have "(of_int k :: rat) \<le> 2 ^ 63" if "k \<le> 2 ^ 63" for k
    using that by (metis of_int_le_iff of_int_numeral of_int_power)
  then have e: "(1::rat) \<le> of_int e" "(of_int e :: rat) \<le> 2 ^ 63" "(1::rat) \<le> of_int i" "(of_int i :: rat) \<le> 2 ^ 63"
    using assms by simp_all
  note bx = int_error [OF assms(1) x(1)] and by' = int_error [OF assms(3) y(1)]
  have "y \<le> of_int i * 2" by (rule order_trans [OF by'(2)]) (use e in \<open>simp add: field_simps\<close>)
  then have y64: "y \<le> 2 ^ 64" using e by simp
  have d: "0 < of_int i * (1 - 2 / 2 ^ 52 :: rat)" using e by simp
  have "x / y \<le> (of_int e * (1 + 2 / 2 ^ 52)) / (of_int i * (1 - 2 / 2 ^ 52))"
    using bx by' d e by (intro frac_le) simp_all
  also have "\<dots> = of_int e / of_int i * ((1 + 2 / 2 ^ 52) / (1 - 2 / 2 ^ 52))" by simp
  also have "\<dots> \<le> of_int e / of_int i * (1 + 5 / 2 ^ 52)" using e by (intro mult_left_mono) simp_all
  finally have up: "x / y \<le> of_int e / of_int i * (1 + 5 / 2 ^ 52)" .
  have "1 / 2 ^ 64 \<le> x / y" using x y y64 by (simp add: field_simps)
  moreover have "x / y \<le> 2 ^ 200"
  proof -
    have "x \<le> of_int e * 2" by (rule order_trans [OF bx(2)]) (use e in \<open>simp add: field_simps\<close>)
    moreover have "x / y \<le> x" using x y by (simp add: field_simps)
    ultimately show ?thesis using e by (auto intro: order_trans)
  qed
  moreover have "representable (1 / 2 ^ 64)"
    by (rule representable_dyadic [of _ 1 "- 64"]) (simp_all add: power_int_minus)
  moreover have "representable (2 ^ 200)" by (rule representable_dyadic [of _ 1 200]) simp_all
  ultimately obtain q where q: "rnd (x / y) = Fin q" "1 / 2 ^ 64 \<le> q" using rnd_bounds by metis
  have "q \<le> x / y * (1 + 1 / 2 ^ 52) + 1 / 2 ^ 60" using x y q by (intro rnd_up) simp_all
  also have "\<dots> \<le> of_int e / of_int i * (1 + 5 / 2 ^ 52) * (1 + 1 / 2 ^ 52) + 1 / 2 ^ 60"
    by (intro add_right_mono mult_right_mono up) simp
  also have "\<dots> \<le> of_int e / of_int i * (1 + 7 / 2 ^ 52) + 1 / 2 ^ 60"
  proof -
    have "of_int e / of_int i * ((1 + 5 / 2 ^ 52) * (1 + 1 / 2 ^ 52)) \<le> of_int e / of_int i * (1 + 7 / 2 ^ 52 :: rat)"
      using e by (intro mult_left_mono) simp_all
    then show ?thesis by simp
  qed
  finally show ?thesis using that x y q by simp
qed

lemma share_le: "0 \<le> a \<Longrightarrow> a \<le> b \<Longrightarrow> 1 \<le> d \<Longrightarrow> a / d \<le> (b::rat)"
  using divide_left_mono [of 1 d a] by simp

lemma refill_bound:
  assumes "1 \<le> e" "e \<le> 2 ^ 63" "1 \<le> i" "i \<le> 2 ^ 63" "1 \<le> m" "m \<le> 2 ^ 48"
  obtains r where "f64_of_int e / f64_of_int i * Fin m = Fin r" "0 < r"
    "r \<le> of_int e / of_int i * m * (1 + 9 / 2 ^ 52) + 3 * m / 2 ^ 60"
proof -
  define p :: rat where "p = of_int e / of_int i"
  obtain q where q: "f64_of_int e / f64_of_int i = Fin q" "1 / 2 ^ 64 \<le> q"
    "q \<le> p * (1 + 7 / 2 ^ 52) + 1 / 2 ^ 60"
    using quotient_bound assms unfolding p_def by metis
  have e: "(1::rat) \<le> of_int e" "(of_int e :: rat) \<le> 2 ^ 63" "(1::rat) \<le> of_int i"
    using assms(1,3) order_trans [of "of_int e :: rat"] of_int_le_iff [of e "2 ^ 63", where ?'a = rat] assms(2) by simp_all
  have p: "0 \<le> p" "p \<le> 2 ^ 63"
    using e unfolding p_def by (simp, intro share_le) simp_all
  have qm: "q * m \<le> (p * (1 + 7 / 2 ^ 52) + 1 / 2 ^ 60) * m" using q(3) assms(5) by (intro mult_right_mono) simp_all
  have "(p * (1 + 7 / 2 ^ 52) + 1 / 2 ^ 60) * m \<le> (2 ^ 63 * (1 + 7 / 2 ^ 52) + 1 / 2 ^ 60) * 2 ^ 48"
    using p assms(5,6) by (intro mult_mono add_mono mult_right_mono) simp_all
  also have "\<dots> \<le> (2 ^ 200 :: rat)" by simp
  finally have "q * m \<le> 2 ^ 200" using qm by simp
  moreover have "1 / 2 ^ 64 \<le> q * m" using mult_mono [of "1 / 2 ^ 64" q 1 m] q(2) assms(5) by simp
  moreover have "representable (1 / 2 ^ 64)"
    by (rule representable_dyadic [of _ 1 "- 64"]) (simp_all add: power_int_minus)
  moreover have "representable (2 ^ 200)" by (rule representable_dyadic [of _ 1 200]) simp_all
  ultimately obtain r where r: "rnd (q * m) = Fin r" "1 / 2 ^ 64 \<le> r" using rnd_bounds by metis
  have "0 \<le> q * m" using q(2) assms(5) by simp
  from rnd_up [OF this r(1)] have "r \<le> q * m * (1 + 1 / 2 ^ 52) + 1 / 2 ^ 60" .
  also have "\<dots> \<le> (p * (1 + 7 / 2 ^ 52) + 1 / 2 ^ 60) * m * (1 + 1 / 2 ^ 52) + 1 / 2 ^ 60"
    using mult_right_mono [OF qm, of "1 + 1 / 2 ^ 52"] by simp
  also have "\<dots> = p * m * ((1 + 7 / 2 ^ 52) * (1 + 1 / 2 ^ 52)) + m * (1 / 2 ^ 60 * (1 + 1 / 2 ^ 52)) + 1 / 2 ^ 60"
    by (simp only: distrib_right distrib_left mult.assoc mult.commute mult.left_commute)
  also have "\<dots> \<le> p * m * (1 + 9 / 2 ^ 52) + m * (2 / 2 ^ 60) + m * (1 / 2 ^ 60)"
    using p assms(5) by (intro add_mono mult_left_mono) simp_all
  finally have "r \<le> p * m * (1 + 9 / 2 ^ 52) + 3 * m / 2 ^ 60" by simp
  moreover have "0 < r" using r(2) by (rule less_le_trans [rotated]) simp
  ultimately show ?thesis using that q r by (simp add: p_def)
qed

text \<open>The level after a refill, and after a grant.\<close>

lemma level_after_refill:
  assumes "1 \<le> e" "e \<le> 2 ^ 63" "1 \<le> i" "i \<le> 2 ^ 63" "1 \<le> m" "m \<le> 2 ^ 48" "0 \<le> t" "t \<le> m"
  obtains s where "Fin t + f64_of_int e / f64_of_int i * Fin m = Fin s"
    "s \<le> t + of_int e / of_int i * m * (1 + 11 / 2 ^ 52) + 2 * m / 2 ^ 52"
proof -
  define a where "a = of_int e / of_int i * m"
  obtain r where r: "f64_of_int e / f64_of_int i * Fin m = Fin r" "0 < r"
    "r \<le> a * (1 + 9 / 2 ^ 52) + 3 * m / 2 ^ 60"
    using refill_bound assms unfolding a_def by metis
  have e: "(1::rat) \<le> of_int e" "(of_int e :: rat) \<le> 2 ^ 63" "(1::rat) \<le> of_int i"
    using assms(1,3) of_int_le_iff [of e "2 ^ 63", where ?'a = rat] assms(2) by simp_all
  have a: "0 \<le> a" using e assms(5) by (simp add: a_def)
  have "a \<le> 2 ^ 63 * 2 ^ 48"
    using e assms(5,6) unfolding a_def by (intro mult_mono share_le) simp_all
  then have "t + r \<le> 2 ^ 200" using r(3) assms(6,8) by simp
  then obtain s where s: "rnd (t + r) = Fin s" using rnd_finite [of "t + r"] r(2) assms(7) by (metis add_nonneg_nonneg less_imp_le)
  have "s \<le> (t + r) * (1 + 1 / 2 ^ 52) + 1 / 2 ^ 60" using s r(2) assms(7) by (intro rnd_up) simp_all
  then have "s \<le> t + a * (1 + 11 / 2 ^ 52) + 2 * m / 2 ^ 52" using r(3) a assms(5,8) by (simp add: algebra_simps add_divide_distrib)
  then show ?thesis using that s r(1) by (simp add: a_def)
qed

lemma level_after_grant:
  assumes "1 \<le> t" "t \<le> m" "m \<le> 2 ^ 48"
  obtains s where "Fin t - Fin 1 = Fin s" "s \<le> t - 1 + 2 * m / 2 ^ 52"
proof -
  have "t - 1 \<le> 2 ^ 200" using assms by simp
  then obtain s where s: "rnd (t - 1) = Fin s" using rnd_finite [of "t - 1"] assms(1) by auto
  have "s \<le> (t - 1) * (1 + 1 / 2 ^ 52) + 1 / 2 ^ 60" using s assms(1) by (intro rnd_up) simp_all
  then have "s \<le> t - 1 + 2 * m / 2 ^ 52" using assms by (simp add: field_simps)
  then show ?thesis using that s by (simp add: minus_f64_def)
qed

section \<open>The potential\<close>

text \<open>What flows in per nanosecond, at most, and the potential of a limiter for the period from \<open>a\<close> on.\<close>

definition inflow :: "rat \<Rightarrow> duration \<Rightarrow> rat" where
  "inflow m i = m * (1 + 11 / 2 ^ 52) / of_int i"

definition potential :: "time \<Rightarrow> duration \<Rightarrow> rat \<Rightarrow> duration \<Rightarrow> rate_limiter \<Rightarrow> rat" where
  "potential a T m i rl =
     (if a \<le> rl_lastRefillAt rl
      then f64_val (rl_tokens rl) + inflow m i * of_int (max 0 (a + T - rl_lastRefillAt rl))
      else m + inflow m i * of_int T)"

text \<open>The limiter as the theorem uses it.\<close>

definition rate_setting :: "rat \<Rightarrow> duration \<Rightarrow> rate_limiter \<Rightarrow> bool" where
  "rate_setting m i rl \<longleftrightarrow> limiter_ok rl \<and> rl_limit rl = Fin m \<and> rl_interval rl = i
     \<and> 1 \<le> m \<and> m \<le> 2 ^ 48 \<and> 1 \<le> i \<and> i \<le> 2 ^ 63"

lemma inflow_nonneg: "rate_setting m i rl \<Longrightarrow> 0 \<le> inflow m i"
  by (simp add: inflow_def rate_setting_def)

lemma rate_setting_steps:
  "rate_setting m i rl \<Longrightarrow> rate_setting m i (refill_tokens now rl)"
  "rate_setting m i rl \<Longrightarrow> rate_setting m i (snd (Acquire now rl))"
  by (simp_all add: rate_setting_def limiter_ok_refill limiter_ok_acquire)

lemma rate_settingE:
  assumes "rate_setting m i rl"
  obtains t where "rl_tokens rl = Fin t" "0 \<le> t" "t \<le> m"
  using assms by (auto simp: rate_setting_def elim: limiter_okE)

lemma refill_not_later:
  assumes "rate_setting m i rl" "now \<le> rl_lastRefillAt rl"
  shows "refill_tokens now rl = rl"
proof -
  have "time_Sub now (rl_lastRefillAt rl) \<le> 0"
    using assms(2) by (simp add: time_Sub_def clamp_int64_def min_int64_def max_int64_def)
  then have "f64_of_int (time_Sub now (rl_lastRefillAt rl)) \<le> Fin 0"
    using f64_of_int_mono [of "time_Sub now (rl_lastRefillAt rl)" 0] by (simp add: f64_of_int_def)
  moreover have "\<bar>time_Sub now (rl_lastRefillAt rl)\<bar> \<le> 2 ^ 63"
    by (auto simp: time_Sub_def clamp_int64_def min_int64_def max_int64_def)
  then obtain x where x: "f64_of_int (time_Sub now (rl_lastRefillAt rl)) = Fin x" by (rule f64_of_int_finite)
  moreover obtain y where y: "f64_of_int i = Fin y" "1 \<le> y"
    using assms(1) f64_of_int_pos [of i] by (auto simp: rate_setting_def)
  ultimately have "rnd (x / y) \<le> rnd 0" by (intro rnd_mono) (simp add: divide_nonpos_nonneg)
  then have q: "rnd (x / y) \<le> Fin 0" by simp
  have "\<not> rnd (x / y) * Fin m > Fin 0"
  proof (cases "rnd (x / y)")
    case (Fin q')
    then have "rnd (q' * m) \<le> rnd 0" using q assms(1) by (intro rnd_mono) (simp add: rate_setting_def mult_nonpos_nonneg)
    then show ?thesis using Fin by (cases "rnd (q' * m)") auto
  qed (use q assms(1) in \<open>auto simp: rate_setting_def\<close>)
  then show ?thesis using assms(1) x y by (simp add: refill_tokens_def rate_setting_def Let_def)
qed

lemma refill_later:
  assumes "rate_setting m i rl" "rl_lastRefillAt rl < now" "rl_tokens rl = Fin t"
  obtains s where "refill_tokens now rl = rl\<lparr>rl_tokens := Fin s, rl_lastRefillAt := now\<rparr>" "s \<le> m"
    "s \<le> t + inflow m i * of_int (now - rl_lastRefillAt rl) + 2 * m / 2 ^ 52"
proof -
  let ?e = "time_Sub now (rl_lastRefillAt rl)"
  have e: "1 \<le> ?e" "?e \<le> 2 ^ 63" "?e \<le> now - rl_lastRefillAt rl"
    using assms(2) by (auto simp: time_Sub_def clamp_int64_def min_int64_def max_int64_def)
  have m: "1 \<le> m" "m \<le> 2 ^ 48" "1 \<le> i" "i \<le> 2 ^ 63" using assms(1) by (simp_all add: rate_setting_def)
  have t: "0 \<le> t" "t \<le> m" using assms(1,3) by (auto elim: rate_settingE)
  obtain s where s: "Fin t + f64_of_int ?e / f64_of_int i * Fin m = Fin s"
    "s \<le> t + of_int ?e / of_int i * m * (1 + 11 / 2 ^ 52) + 2 * m / 2 ^ 52"
    using level_after_refill [OF e(1,2) m(3,4,1,2) t] by metis
  obtain r where r: "f64_of_int ?e / f64_of_int i * Fin m = Fin r" "0 < r"
    using refill_bound [OF e(1,2) m(3,4,1,2)] by metis
  have "of_int ?e / of_int i * m * (1 + 11 / 2 ^ 52) = inflow m i * of_int ?e"
    by (simp add: inflow_def mult.commute)
  also have "\<dots> \<le> inflow m i * of_int (now - rl_lastRefillAt rl)"
    using e(3) inflow_nonneg [OF assms(1)] by (intro mult_left_mono) (simp_all only: of_int_le_iff)
  finally have bound: "s \<le> t + inflow m i * of_int (now - rl_lastRefillAt rl) + 2 * m / 2 ^ 52" using s(2) by simp
  have "refill_tokens now rl = rl\<lparr>rl_tokens := Fin (min s m), rl_lastRefillAt := now\<rparr>"
    using assms(1,3) s(1) r by (auto simp: refill_tokens_def rate_setting_def Let_def min_def)
  then show ?thesis using that [of "min s m"] bound by simp
qed

lemma refill_potential:
  assumes "rate_setting m i rl" "a \<le> now" "now \<le> a + T"
  shows "potential a T m i (refill_tokens now rl) \<le> potential a T m i rl + 2 * m / 2 ^ 52"
    and "a \<le> rl_lastRefillAt (refill_tokens now rl)"
proof -
  obtain t where t: "rl_tokens rl = Fin t" "0 \<le> t" "t \<le> m" using assms(1) by (rule rate_settingE)
  have R: "0 \<le> inflow m i" and m: "1 \<le> m" using assms(1) by (auto intro: inflow_nonneg simp: rate_setting_def)
  have "potential a T m i (refill_tokens now rl) \<le> potential a T m i rl + 2 * m / 2 ^ 52 \<and> a \<le> rl_lastRefillAt (refill_tokens now rl)"
  proof (cases "now \<le> rl_lastRefillAt rl")
    case True
    then show ?thesis using refill_not_later [OF assms(1) True] assms m by simp
  next
    case False
    then have L: "rl_lastRefillAt rl < now" by simp
    obtain s where s: "refill_tokens now rl = rl\<lparr>rl_tokens := Fin s, rl_lastRefillAt := now\<rparr>" "s \<le> m"
      "s \<le> t + inflow m i * of_int (now - rl_lastRefillAt rl) + 2 * m / 2 ^ 52"
      using refill_later [OF assms(1) L t(1)] by metis
    have p: "potential a T m i (refill_tokens now rl) = s + inflow m i * of_int (a + T - now)"
      using s(1) assms(2,3) by (simp add: potential_def)
    show ?thesis
    proof (cases "a \<le> rl_lastRefillAt rl")
      case True
      have "inflow m i * of_int (now - rl_lastRefillAt rl) + inflow m i * of_int (a + T - now)
          = inflow m i * of_int (a + T - rl_lastRefillAt rl)"
        by (simp flip: distrib_left)
      moreover have "potential a T m i rl = t + inflow m i * of_int (a + T - rl_lastRefillAt rl)"
        using True L assms(3) t(1) by (simp add: potential_def)
      ultimately show ?thesis using p s assms(2) by simp
    next
      case False
      have "inflow m i * of_int (a + T - now) \<le> inflow m i * of_int T"
        using R assms(2) by (intro mult_left_mono) simp_all
      moreover have "max 0 (a + T - now) = a + T - now" using assms(3) by simp
      ultimately show ?thesis using p s False m assms(2) by (simp add: potential_def)
    qed
  qed
  then show "potential a T m i (refill_tokens now rl) \<le> potential a T m i rl + 2 * m / 2 ^ 52"
    "a \<le> rl_lastRefillAt (refill_tokens now rl)" by simp_all
qed

lemma acquire_potential:
  assumes "rate_setting m i rl" "a \<le> now" "now \<le> a + T"
  shows "of_bool (fst (Acquire now rl)) + potential a T m i (snd (Acquire now rl)) \<le> potential a T m i rl + 4 * m / 2 ^ 52"
proof -
  let ?rl = "refill_tokens now rl"
  note ok = rate_setting_steps(1) [OF assms(1), of now]
  obtain t where t: "rl_tokens ?rl = Fin t" "0 \<le> t" "t \<le> m" using ok by (rule rate_settingE)
  note p = refill_potential [OF assms]
  have m: "1 \<le> m" "m \<le> 2 ^ 48" using assms(1) by (simp_all add: rate_setting_def)
  show ?thesis
  proof (cases "1 \<le> t")
    case True
    obtain s where s: "Fin t - Fin 1 = Fin s" "s \<le> t - 1 + 2 * m / 2 ^ 52"
      using level_after_grant [OF True t(3) m(2)] by metis
    have "potential a T m i (?rl\<lparr>rl_tokens := Fin s\<rparr>) = potential a T m i ?rl - t + s"
      using p(2) t(1) by (simp add: potential_def)
    then show ?thesis using True t(1) s p(1) by (simp add: Acquire_def Let_def)
  next
    case False
    then show ?thesis using t(1) p(1) m by (simp add: Acquire_def Let_def)
  qed
qed

lemma run_potential:
  "rate_setting m i rl \<Longrightarrow> list_all (\<lambda>t. a \<le> t \<and> t \<le> a + T) ts \<Longrightarrow>
     of_nat (count_list (fst (acquire_run ts rl)) True) + potential a T m i (snd (acquire_run ts rl))
       \<le> potential a T m i rl + of_nat (length ts) * (4 * m / 2 ^ 52)"
proof (induction ts arbitrary: rl)
  case (Cons t ts)
  let ?g = "fst (Acquire t rl)" and ?rl = "snd (Acquire t rl)"
  have step: "of_bool ?g + potential a T m i ?rl \<le> potential a T m i rl + 4 * m / 2 ^ 52"
    using Cons.prems by (intro acquire_potential) simp_all
  have "of_nat (count_list (fst (acquire_run ts ?rl)) True) + potential a T m i (snd (acquire_run ts ?rl))
      \<le> potential a T m i ?rl + of_nat (length ts) * (4 * m / 2 ^ 52)"
    using Cons.prems rate_setting_steps(2) by (intro Cons.IH) simp_all
  with step show ?case
    by (cases ?g) (simp_all add: split_beta Let_def distrib_right add_divide_distrib)
qed simp

lemma potential_bounds:
  assumes "rate_setting m i rl" "0 \<le> T"
  shows "0 \<le> potential a T m i rl" "potential a T m i rl \<le> m + inflow m i * of_int T"
proof -
  obtain t where t: "rl_tokens rl = Fin t" "0 \<le> t" "t \<le> m" using assms(1) by (rule rate_settingE)
  have R: "0 \<le> inflow m i" using assms(1) by (rule inflow_nonneg)
  have "inflow m i * of_int (max 0 (a + T - rl_lastRefillAt rl)) \<le> inflow m i * of_int T" if "a \<le> rl_lastRefillAt rl"
    using R that assms(2) by (intro mult_left_mono) simp_all
  then show "potential a T m i rl \<le> m + inflow m i * of_int T" using t by (auto simp: potential_def)
  have "0 \<le> inflow m i * of_int (max 0 (a + T - rl_lastRefillAt rl))" "0 \<le> inflow m i * of_int T"
    using R assms(2) by simp_all
  then show "0 \<le> potential a T m i rl" using t by (simp add: potential_def)
qed

lemma rate_setting_run: "rate_setting m i rl \<Longrightarrow> rate_setting m i (snd (acquire_run ts rl))"
  by (induction ts arbitrary: rl) (simp_all add: split_beta Let_def rate_setting_steps)

section \<open>The bound\<close>

text \<open>
  C25. The rate limiter enforces its rate. During any period of \<open>T\<close> nanoseconds, whatever
  the limiter did before and in whatever order the clock readings in the period come, fewer requests
  are granted than the limit, plus the limit times the number of intervals in the period, plus one.
  The float arithmetic cannot exceed this, for limits up to $2^{48}$, as long as the requests of the
  period times the limit stay below $2^{48}$ and the requests the rate allows in it below $2^{47}$.
\<close>

theorem rate_limit_is_enforced:
  assumes "rate_setting m i rl" "list_all (\<lambda>t. a \<le> t \<and> t \<le> a + T) ts" "0 \<le> T"
    "of_nat (length ts) * m \<le> 2 ^ 48" "m * of_int T / of_int i \<le> 2 ^ 47"
  shows "of_nat (count_list (fst (acquire_run ts rl)) True) < m + m * of_int T / of_int i + 1"
proof -
  define p where "p = m * of_int T / of_int i"
  have inflow: "inflow m i * of_int T = p * (1 + 11 / 2 ^ 52)"
    by (simp add: inflow_def p_def mult.commute)
  have "of_nat (count_list (fst (acquire_run ts rl)) True)
      \<le> potential a T m i rl + of_nat (length ts) * (4 * m / 2 ^ 52)"
    using run_potential [OF assms(1,2)] potential_bounds(1) [OF rate_setting_run [OF assms(1)] assms(3), of a ts]
    by linarith
  also have "\<dots> \<le> m + p * (1 + 11 / 2 ^ 52) + of_nat (length ts) * m * (4 / 2 ^ 52)"
    using potential_bounds(2) [OF assms(1,3), of a] by (simp add: inflow)
  also have "\<dots> < m + p + 1" using assms(4,5) by (simp add: p_def [symmetric] distrib_left)
  finally show ?thesis by (simp add: p_def)
qed

theorem rate_limit_is_enforced_witness:
  "of_nat (count_list (fst (acquire_run [0, 0, 0, 0, Second, Second] (NewRateLimiter (Fin 2) Second 0))) True)
     < (2 :: rat) + 2 * of_int Second / of_int Second + 1"
proof -
  have "representable 2" using representable_of_int [of 2] by simp
  then have "rate_setting 2 Second (NewRateLimiter (Fin 2) Second 0)"
    using limiter_ok_New [of 2 Second 0] by (simp add: rate_setting_def NewRateLimiter_def Second_def)
  then show ?thesis
    using rate_limit_is_enforced [of 2 Second _ 0 Second "[0, 0, 0, 0, Second, Second]"] by (simp add: Second_def)
qed

end
