(* ===== verification/Go_Errors.thy ===== *)
theory Go_Errors
  imports Resile_Prelude
begin

text \<open>
  Error values and package \<^verbatim>\<open>errors\<close>. An \<^verbatim>\<open>error\<close> is an option,
  \<^term>\<open>None\<close> for nil. A non-nil error is a tree: the sentinels of the library and of
  package \<^verbatim>\<open>context\<close>, errors of the caller (a number stands for the identity of
  the value), the wrappers with an \<^verbatim>\<open>Unwrap() error\<close> method, and the value
  \<^verbatim>\<open>errors.Join\<close> makes, whose \<^verbatim>\<open>Unwrap\<close> returns a list.

  \<^verbatim>\<open>errors.Is\<close> and \<^verbatim>\<open>errors.As\<close> walk this tree in pre-order.
  Comparison with \<^verbatim>\<open>==\<close> is equality of trees. Caller types with their own
  \<^verbatim>\<open>Is\<close> or \<^verbatim>\<open>As\<close> methods are not modelled.
\<close>

datatype panic_value = PanicValue nat | InvalidInt64N

text \<open>
  How a caller's error answers the question for its delay: with a duration, or with the time that
  remains until an instant, for which it reads the clock.
\<close>

datatype retry_delay = DelayFor duration | DelayUntil time

datatype go_error =
    ErrCircuitOpen
  | ErrBulkheadFull
  | ErrShedLoad
  | ErrRateLimitExceeded
  | Canceled
  | DeadlineExceeded
  | UserError nat
  | RetryAfterErr nat retry_delay bool
  | PanicError panic_value
  | FatalErr go_error
  | WrapErr nat go_error
  | JoinErr "go_error list"

text \<open>The direct children of a node: what \<^verbatim>\<open>Unwrap\<close> returns.\<close>

fun Unwrap :: "go_error \<Rightarrow> go_error list" where
  "Unwrap (FatalErr e) = [e]"
| "Unwrap (WrapErr n e) = [e]"
| "Unwrap (JoinErr es) = es"
| "Unwrap e = []"

text \<open>All nodes of the tree, in the order the two walks visit them.\<close>

fun nodes :: "go_error \<Rightarrow> go_error list" where
  "nodes (FatalErr e) = FatalErr e # nodes e"
| "nodes (WrapErr n e) = WrapErr n e # nodes e"
| "nodes (JoinErr es) = JoinErr es # concat (map nodes es)"
| "nodes e = [e]"

fun errors_Is :: "go_error \<Rightarrow> go_error \<Rightarrow> bool" where
  "errors_Is (FatalErr e) target = (FatalErr e = target \<or> errors_Is e target)"
| "errors_Is (WrapErr n e) target = (WrapErr n e = target \<or> errors_Is e target)"
| "errors_Is (JoinErr es) target =
     (JoinErr es = target \<or> list_ex (\<lambda>e. errors_Is e target) es)"
| "errors_Is e target = (e = target)"

text \<open>
  \<^verbatim>\<open>errors.As\<close> with a target type is given by the partial function \<open>cast\<close>
  that recognises the values of that type; the first match wins.
\<close>

fun errors_As :: "(go_error \<Rightarrow> 'a option) \<Rightarrow> go_error \<Rightarrow> 'a option"
  and errors_As_list :: "(go_error \<Rightarrow> 'a option) \<Rightarrow> go_error list \<Rightarrow> 'a option" where
  "errors_As cast (FatalErr e) =
     (case cast (FatalErr e) of Some a \<Rightarrow> Some a | None \<Rightarrow> errors_As cast e)"
| "errors_As cast (WrapErr n e) =
     (case cast (WrapErr n e) of Some a \<Rightarrow> Some a | None \<Rightarrow> errors_As cast e)"
| "errors_As cast (JoinErr es) =
     (case cast (JoinErr es) of Some a \<Rightarrow> Some a | None \<Rightarrow> errors_As_list cast es)"
| "errors_As cast e = cast e"
| "errors_As_list cast [] = None"
| "errors_As_list cast (e # es) =
     (case errors_As cast e of Some a \<Rightarrow> Some a | None \<Rightarrow> errors_As_list cast es)"

text \<open>\<^verbatim>\<open>errors.Join\<close> drops nil values and is nil when nothing is left.\<close>

definition errors_Join :: "go_error option list \<Rightarrow> go_error option" where
  "errors_Join es =
     (let es = map the (filter (\<lambda>e. e \<noteq> None) es) in if es = [] then None else Some (JoinErr es))"

lemma errors_Join_Some [simp]:
  "errors_Join (map Some es) = (if es = [] then None else Some (JoinErr es))"
  by (simp add: errors_Join_def comp_def)

section \<open>The walks look at every node\<close>

lemma nodes_self [simp]: "e \<in> set (nodes e)"
  by (cases e) auto

lemma errors_Is_nodes: "errors_Is e target \<longleftrightarrow> target \<in> set (nodes e)"
  by (induction e target rule: errors_Is.induct) (auto simp: list_ex_iff)

lemma errors_Is_self: "errors_Is e e"
  by (simp add: errors_Is_nodes)

lemma errors_As_None:
  "errors_As cast e = None \<longleftrightarrow> (\<forall>x \<in> set (nodes e). cast x = None)"
  "errors_As_list cast es = None \<longleftrightarrow> (\<forall>e \<in> set es. \<forall>x \<in> set (nodes e). cast x = None)"
  by (induction cast e and cast es rule: errors_As_errors_As_list.induct)
    (auto split: option.splits)

lemma errors_As_Some:
  "errors_As cast e = Some a \<Longrightarrow> \<exists>x \<in> set (nodes e). cast x = Some a"
  "errors_As_list cast es = Some a \<Longrightarrow> \<exists>e \<in> set es. \<exists>x \<in> set (nodes e). cast x = Some a"
  by (induction cast e and cast es rule: errors_As_errors_As_list.induct)
    (auto split: option.splits)

lemma errors_Is_Join [simp]:
  "errors_Is (JoinErr es) t \<longleftrightarrow> JoinErr es = t \<or> (\<exists>e \<in> set es. errors_Is e t)"
  by (simp add: list_ex_iff)

declare errors_Is.simps(3) [simp del]

end
