(* ===== verification/Retry_Policy.thy ===== *)
theory Retry_Policy
  imports Go_Errors
begin

text \<open>
  Which errors are retried (\<^verbatim>\<open>policy.go\<close>): fatal errors, cancellation and missed
  deadlines never; otherwise every error, unless a target or a predicate is configured.
\<close>

definition FatalError :: "go_error option \<Rightarrow> go_error option" where
  "FatalError err = (case err of None \<Rightarrow> None | Some e \<Rightarrow> Some (FatalErr e))"

fun as_fatal :: "go_error \<Rightarrow> go_error option" where
  "as_fatal (FatalErr e) = Some (FatalErr e)"
| "as_fatal _ = None"

definition isFatal :: "go_error \<Rightarrow> bool" where
  "isFatal err \<longleftrightarrow> errors_As as_fatal err \<noteq> None"

text \<open>
  The interface \<^verbatim>\<open>RetryAfterError\<close>, by its two results: the delay and whether
  all retries are cancelled.
\<close>

fun as_retry_after :: "go_error \<Rightarrow> (retry_delay \<times> bool) option" where
  "as_retry_after (RetryAfterErr n delay cancelAll) = Some (delay, cancelAll)"
| "as_retry_after _ = None"

record retry_policy =
  retryIf :: "go_error option"
  retryIfFunc :: "(go_error \<Rightarrow> bool) option"

definition shouldRetry :: "retry_policy \<Rightarrow> go_error option \<Rightarrow> bool" where
  "shouldRetry p err =
     (case err of
        None \<Rightarrow> False
      | Some e \<Rightarrow>
          if isFatal e then False
          else if errors_Is e Canceled \<or> errors_Is e DeadlineExceeded then False
          else if retryIf p = None \<and> retryIfFunc p = None then True
          else if (case retryIf p of None \<Rightarrow> False | Some t \<Rightarrow> errors_Is e t) then True
          else if (case retryIfFunc p of None \<Rightarrow> False | Some f \<Rightarrow> f e) then True
          else False)"

declare FatalError_def [op_defs] isFatal_def [op_defs] shouldRetry_def [op_defs]

definition default_policy :: retry_policy where
  "default_policy = \<lparr>retryIf = None, retryIfFunc = None\<rparr>"

lemma isFatal_nodes: "isFatal e \<longleftrightarrow> (\<exists>x. FatalErr x \<in> set (nodes e))"
proof
  assume "isFatal e"
  then obtain a where "errors_As as_fatal e = Some a" by (auto simp: isFatal_def)
  from errors_As_Some(1) [OF this] obtain x where "x \<in> set (nodes e)" "as_fatal x = Some a" by blast
  moreover from this(2) obtain y where "x = FatalErr y" by (cases x) auto
  ultimately show "\<exists>x. FatalErr x \<in> set (nodes e)" by blast
next
  assume "\<exists>x. FatalErr x \<in> set (nodes e)"
  then show "isFatal e" by (force simp: isFatal_def errors_As_None)
qed

text \<open>The three reasons that stop the loop whatever the filters say.\<close>

definition stops :: "go_error \<Rightarrow> bool" where
  "stops e \<longleftrightarrow> isFatal e \<or> errors_Is e Canceled \<or> errors_Is e DeadlineExceeded"

lemma shouldRetry_stops: "stops e \<Longrightarrow> \<not> shouldRetry p (Some e)"
  by (auto simp: stops_def shouldRetry_def)

lemma shouldRetry_default: "shouldRetry default_policy (Some e) \<longleftrightarrow> \<not> stops e"
  by (auto simp: stops_def shouldRetry_def default_policy_def)

lemma stops_Join: "stops (JoinErr es) \<longleftrightarrow> (\<exists>e \<in> set es. stops e)"
  by (auto simp: stops_def isFatal_nodes errors_Is_nodes)

text \<open>
  The stop reasons are found anywhere in an error tree: an error that contains a fatal
  marker, a cancellation or a missed deadline at any depth, wrapped or joined, is not retried
  under any policy, whatever its target and its predicate accept.
\<close>

theorem shouldRetry_respects_stop_nodes:
  assumes "x \<in> set (nodes e)" "x = Canceled \<or> x = DeadlineExceeded \<or> (\<exists>y. x = FatalErr y)"
  shows "\<not> shouldRetry p (Some e)"
proof (rule shouldRetry_stops)
  show "stops e" using assms by (auto simp: stops_def isFatal_nodes errors_Is_nodes)
qed

theorem shouldRetry_respects_stop_nodes_witness:
  "\<not> shouldRetry \<lparr>retryIf = Some (UserError 1), retryIfFunc = Some (\<lambda>_. True)\<rparr>
     (Some (JoinErr [UserError 1, WrapErr 2 (FatalErr (UserError 3))]))"
  by (rule shouldRetry_respects_stop_nodes [of "FatalErr (UserError 3)"]) simp_all

text \<open>
  With the default policy an aggregated error is retried exactly when every one of the
  errors it aggregates would be: one fatal attempt inside an inner retry stops the outer one.
\<close>

theorem shouldRetry_default_Join:
  "shouldRetry default_policy (errors_Join (map Some es))
     \<longleftrightarrow> es \<noteq> [] \<and> list_all (\<lambda>e. shouldRetry default_policy (Some e)) es"
  by (auto simp: shouldRetry_default stops_Join list_all_iff) (simp add: shouldRetry_def)

end
