(* ===== verification/Health.thy ===== *)
theory Health
  imports Resile_Prelude
begin

text \<open>
  State-change events and the channel they are reported on (\<^verbatim>\<open>statevent.go\<close> and
  its copy in package \<^verbatim>\<open>circuit\<close>). The circuit breaker and the adaptive limiter
  each own one: it does not exist until \<open>Health()\<close> is called, has room for ten events,
  and an event that finds it full is dropped. The channel is the list of the events not yet
  received, in the order they were sent; \<^term>\<open>None\<close> is the channel not yet made.
\<close>

datatype health_state = HealthStateHealthy | HealthStateDegraded | HealthStateUnhealthy

record state_event =
  ev_Component :: string
  ev_State :: health_state
  ev_Timestamp :: time
  ev_Message :: string

type_synonym health_channel = "state_event list option"

definition health_capacity :: nat where
  "health_capacity = 10"

definition open_health :: "health_channel \<Rightarrow> health_channel" where
  "open_health ch = (case ch of None \<Rightarrow> Some [] | Some evs \<Rightarrow> Some evs)"

definition send_event :: "state_event \<Rightarrow> health_channel \<Rightarrow> health_channel" where
  "send_event ev ch =
     (case ch of
        None \<Rightarrow> None
      | Some evs \<Rightarrow> if length evs < health_capacity then Some (evs @ [ev]) else Some evs)"

text \<open>What a consumer's non-blocking receive does.\<close>

fun receive_event :: "health_channel \<Rightarrow> state_event option \<times> health_channel" where
  "receive_event (Some (ev # evs)) = (Some ev, Some evs)"
| "receive_event ch = (None, ch)"

definition health_ok :: "health_channel \<Rightarrow> bool" where
  "health_ok ch \<longleftrightarrow> (case ch of None \<Rightarrow> True | Some evs \<Rightarrow> length evs \<le> health_capacity)"

declare health_ok_def [inv_defs]

lemma health_ok_open [preserved]: "health_ok ch \<Longrightarrow> health_ok (open_health ch)"
  by (auto simp: health_ok_def open_health_def split: option.splits)

lemma health_ok_send [preserved]: "health_ok ch \<Longrightarrow> health_ok (send_event ev ch)"
  by (auto simp: health_ok_def send_event_def split: option.splits)

lemma health_ok_receive [preserved]: "health_ok ch \<Longrightarrow> health_ok (snd (receive_event ch))"
  by (cases ch rule: receive_event.cases) (auto simp: health_ok_def)

text \<open>Opening the channel again neither loses nor duplicates events.\<close>

lemma open_health_idem [simp]: "open_health (open_health ch) = open_health ch"
  by (simp add: open_health_def split: option.splits)

end
