(* ===== verification/Breaker_Window.thy ===== *)
theory Breaker_Window
  imports Health Float64
begin

text \<open>
  The circuit breaker's configuration and state, and its two sliding windows of outcomes
  (\<^verbatim>\<open>circuit/breaker.go\<close>). The counters keep their machine widths. The count-based
  window is a ring of booleans with running totals; the time-based one is ten buckets of
  counters indexed by the time divided by the bucket's duration.

  Everything here runs with the breaker's mutex held. Clock readings are arguments.
\<close>

section \<open>Data\<close>

datatype breaker_state = StateClosed | StateOpen | StateHalfOpen

datatype window_type = WindowCountBased | WindowTimeBased

record breaker_config =
  WindowType :: window_type
  WindowSize :: u32
  WindowDuration :: duration
  FailureRateThreshold :: f64
  MinimumCalls :: u64
  ResetTimeout :: duration
  HalfOpenMaxCalls :: u64

record bucket =
  success :: u64
  failure :: u64

definition empty_bucket :: bucket where
  "empty_bucket = \<lparr>success = 0, failure = 0\<rparr>"

record breaker =
  config :: breaker_config
  state :: breaker_state
  openedAt :: time
  ring :: "bool list"
  ringIdx :: u32
  ringFull :: bool
  total :: u64
  failures :: u64
  buckets :: "bucket list"
  bucketDuration :: duration
  lastUpdateTime :: time
  halfOpenCalls :: u64
  halfOpenFailures :: u64
  halfOpenCompleted :: u64
  healthCh :: health_channel

definition NumBuckets :: nat where
  "NumBuckets = 10"

definition with_defaults :: "breaker_config \<Rightarrow> breaker_config" where
  "with_defaults cfg =
     (let cfg = (if WindowSize cfg = 0 then cfg\<lparr>WindowSize := 100\<rparr> else cfg);
          cfg = (if WindowDuration cfg \<le> 0 then cfg\<lparr>WindowDuration := 60 * Second\<rparr> else cfg);
          cfg = (if FailureRateThreshold cfg \<le> Fin 0 \<or> FailureRateThreshold cfg > Fin 100
                 then cfg\<lparr>FailureRateThreshold := Fin 50\<rparr> else cfg);
          cfg = (if MinimumCalls cfg = 0 then cfg\<lparr>MinimumCalls := 10\<rparr> else cfg);
          cfg = (if ResetTimeout cfg \<le> 0 then cfg\<lparr>ResetTimeout := 60 * Second\<rparr> else cfg);
          cfg = (if HalfOpenMaxCalls cfg = 0 then cfg\<lparr>HalfOpenMaxCalls := 10\<rparr> else cfg)
      in cfg)"

definition New :: "breaker_config \<Rightarrow> breaker" where
  "New cfg =
     (let cfg = with_defaults cfg;
          b = \<lparr>config = cfg, state = StateClosed, openedAt = zero_time,
               ring = [], ringIdx = 0, ringFull = False, total = 0, failures = 0,
               buckets = [], bucketDuration = 0, lastUpdateTime = zero_time,
               halfOpenCalls = 0, halfOpenFailures = 0, halfOpenCompleted = 0,
               healthCh = None\<rparr>
      in if WindowType cfg = WindowCountBased
         then b\<lparr>ring := replicate (unat (WindowSize cfg)) False\<rparr>
         else (let b = b\<lparr>buckets := replicate NumBuckets empty_bucket,
                         bucketDuration := WindowDuration cfg sdiv int NumBuckets\<rparr>
               in if bucketDuration b = 0 then b\<lparr>bucketDuration := Second\<rparr> else b))"

section \<open>The count-based window\<close>

definition recordCountBased :: "bool \<Rightarrow> breaker \<Rightarrow> breaker" where
  "recordCountBased ok b =
     (let b = (if ringFull b
               then (let oldSuccess = ring b ! unat (ringIdx b)
                     in if \<not> oldSuccess then b\<lparr>failures := failures b - 1\<rparr> else b)
               else b\<lparr>total := total b + 1\<rparr>);
          b = b\<lparr>ring := (ring b)[unat (ringIdx b) := ok]\<rparr>;
          b = (if \<not> ok then b\<lparr>failures := failures b + 1\<rparr> else b);
          b = b\<lparr>ringIdx := (ringIdx b + 1) mod of_nat (length (ring b))\<rparr>
      in if ringIdx b = 0 then b\<lparr>ringFull := True\<rparr> else b)"

section \<open>The time-based window\<close>

text \<open>
  \<open>UnixNano\<close> is the instant itself, for instants that fit \<^verbatim>\<open>int64\<close> (the years
  1678 to 2262). The index is Go's \<^verbatim>\<open>int\<close>; where a slice is indexed with it, \<open>nat\<close> makes it
  the position in a list, and \<open>Breaker_Shape\<close> shows that it is never negative.
\<close>

definition getBucketIdx :: "breaker \<Rightarrow> time \<Rightarrow> int" where
  "getBucketIdx b t =
     (let nano = (if t < 0 then 0 else t)
      in (nano sdiv bucketDuration b) smod int NumBuckets)"

text \<open>
  The clearing loop, from bucket \<open>i\<close> to bucket \<open>cur\<close> around the ring. Both are
  results of \<^verbatim>\<open>% NumBuckets\<close>; for other values the loop of the code would not end,
  and the two extra tests, which never hold, keep the function total.
\<close>

function clear_buckets :: "nat \<Rightarrow> nat \<Rightarrow> bucket list \<Rightarrow> bucket list" where
  "clear_buckets i cur bs =
     (let bs = bs[i := empty_bucket]
      in if i = cur \<or> NumBuckets \<le> i \<or> NumBuckets \<le> cur then bs
         else clear_buckets ((i + 1) mod NumBuckets) cur bs)"
  by pat_completeness auto
termination
proof (relation "measure (\<lambda>(i, cur, bs). if i \<le> cur then cur - i else cur + NumBuckets - i)", goal_cases)
  case (2 i cur bs x)
  then have "i \<noteq> cur" "i < 10" "cur < 10" by (auto simp: NumBuckets_def)
  then show ?case by (cases "i = 9") (auto simp: NumBuckets_def)
qed simp

declare clear_buckets.simps [simp del]

definition advanceTimeBasedWindow :: "time \<Rightarrow> breaker \<Rightarrow> breaker" where
  "advanceTimeBasedWindow now b =
     (if IsZero (lastUpdateTime b) then b\<lparr>lastUpdateTime := now\<rparr>
      else (let diff = time_Sub now (lastUpdateTime b)
            in if diff > WindowDuration (config b)
               then b\<lparr>buckets := replicate (length (buckets b)) empty_bucket\<rparr>
               else if diff \<ge> bucketDuration b
               then (let lastIdx = getBucketIdx b (lastUpdateTime b);
                         currIdx = getBucketIdx b now
                     in b\<lparr>buckets := clear_buckets (nat ((lastIdx + 1) smod int NumBuckets)) (nat currIdx) (buckets b)\<rparr>)
               else b))"

definition recordTimeBased :: "bool \<Rightarrow> time \<Rightarrow> breaker \<Rightarrow> breaker" where
  "recordTimeBased ok now b =
     (let b = advanceTimeBasedWindow now b;
          idx = getBucketIdx b now;
          bu = buckets b ! nat idx;
          bu = (if ok then bu\<lparr>success := success bu + 1\<rparr> else bu\<lparr>failure := failure bu + 1\<rparr>);
          b = b\<lparr>buckets := (buckets b)[nat idx := bu]\<rparr>
      in b\<lparr>lastUpdateTime := now\<rparr>)"

section \<open>Both windows\<close>

definition record_outcome :: "bool \<Rightarrow> time \<Rightarrow> breaker \<Rightarrow> breaker" where
  "record_outcome ok now b =
     (if WindowType (config b) = WindowCountBased then recordCountBased ok b
      else recordTimeBased ok now b)"

definition clearWindow :: "breaker \<Rightarrow> breaker" where
  "clearWindow b =
     (if WindowType (config b) = WindowCountBased
      then b\<lparr>ring := replicate (length (ring b)) False, ringIdx := 0, ringFull := False,
             total := 0, failures := 0\<rparr>
      else b\<lparr>buckets := replicate (length (buckets b)) empty_bucket, lastUpdateTime := zero_time\<rparr>)"

text \<open>The statistics; the time-based window is advanced on the way, so the breaker changes.\<close>

definition getStatsLocked :: "time \<Rightarrow> breaker \<Rightarrow> (u64 \<times> u64) \<times> breaker" where
  "getStatsLocked now b =
     (if WindowType (config b) = WindowCountBased then ((total b, failures b), b)
      else (let b = advanceTimeBasedWindow now b;
                succ = sum_list (map success (buckets b));
                fail = sum_list (map failure (buckets b))
            in ((succ + fail, fail), b)))"

lemmas window_defs = record_outcome_def recordCountBased_def recordTimeBased_def
  advanceTimeBasedWindow_def clearWindow_def getStatsLocked_def

declare with_defaults_def [op_defs] New_def [op_defs] window_defs [op_defs]

section \<open>What the window operations leave alone\<close>

lemma recordCountBased_frame [simp]:
  "config (recordCountBased ok b) = config b" "state (recordCountBased ok b) = state b"
  "openedAt (recordCountBased ok b) = openedAt b" "healthCh (recordCountBased ok b) = healthCh b"
  "halfOpenCalls (recordCountBased ok b) = halfOpenCalls b"
  "halfOpenFailures (recordCountBased ok b) = halfOpenFailures b"
  "halfOpenCompleted (recordCountBased ok b) = halfOpenCompleted b"
  "buckets (recordCountBased ok b) = buckets b"
  "bucketDuration (recordCountBased ok b) = bucketDuration b"
  "length (ring (recordCountBased ok b)) = length (ring b)"
  by (simp_all add: recordCountBased_def Let_def)

lemma advance_frame [simp]:
  "config (advanceTimeBasedWindow now b) = config b"
  "state (advanceTimeBasedWindow now b) = state b"
  "openedAt (advanceTimeBasedWindow now b) = openedAt b"
  "healthCh (advanceTimeBasedWindow now b) = healthCh b"
  "halfOpenCalls (advanceTimeBasedWindow now b) = halfOpenCalls b"
  "halfOpenFailures (advanceTimeBasedWindow now b) = halfOpenFailures b"
  "halfOpenCompleted (advanceTimeBasedWindow now b) = halfOpenCompleted b"
  "ring (advanceTimeBasedWindow now b) = ring b"
  "bucketDuration (advanceTimeBasedWindow now b) = bucketDuration b"
  by (simp_all add: advanceTimeBasedWindow_def Let_def)

lemma record_frame [simp]:
  "config (record_outcome ok now b) = config b" "state (record_outcome ok now b) = state b"
  "openedAt (record_outcome ok now b) = openedAt b" "healthCh (record_outcome ok now b) = healthCh b"
  "halfOpenCalls (record_outcome ok now b) = halfOpenCalls b"
  "halfOpenFailures (record_outcome ok now b) = halfOpenFailures b"
  "halfOpenCompleted (record_outcome ok now b) = halfOpenCompleted b"
  "length (ring (record_outcome ok now b)) = length (ring b)"
  "bucketDuration (record_outcome ok now b) = bucketDuration b"
  by (simp_all add: record_outcome_def recordTimeBased_def Let_def)

lemma clearWindow_frame [simp]:
  "config (clearWindow b) = config b" "state (clearWindow b) = state b"
  "openedAt (clearWindow b) = openedAt b" "healthCh (clearWindow b) = healthCh b"
  "halfOpenCalls (clearWindow b) = halfOpenCalls b"
  "halfOpenFailures (clearWindow b) = halfOpenFailures b"
  "halfOpenCompleted (clearWindow b) = halfOpenCompleted b"
  "length (ring (clearWindow b)) = length (ring b)"
  "bucketDuration (clearWindow b) = bucketDuration b"
  by (simp_all add: clearWindow_def)

lemma getStats_frame [simp]:
  "config (snd (getStatsLocked now b)) = config b" "state (snd (getStatsLocked now b)) = state b"
  "openedAt (snd (getStatsLocked now b)) = openedAt b"
  "healthCh (snd (getStatsLocked now b)) = healthCh b"
  "halfOpenCalls (snd (getStatsLocked now b)) = halfOpenCalls b"
  "halfOpenFailures (snd (getStatsLocked now b)) = halfOpenFailures b"
  "halfOpenCompleted (snd (getStatsLocked now b)) = halfOpenCompleted b"
  "ring (snd (getStatsLocked now b)) = ring b"
  "bucketDuration (snd (getStatsLocked now b)) = bucketDuration b"
  by (simp_all add: getStatsLocked_def Let_def)

end
