(* ===== verification/Count_Window.thy ===== *)
theory Count_Window
  imports Breaker_Window
begin

text \<open>
  The count-based window refines its specification: after any sequence of outcomes since it was
  last cleared, its totals are those of the last \<^verbatim>\<open>WindowSize\<close> outcomes. The
  relation \<open>window_rel\<close> couples the ring with the history; it also says that the ring
  index stays inside the ring and that no counter wraps around.
\<close>

section \<open>The interface of a window of outcomes\<close>

text \<open>
  What the breaker needs from a window: the totals of the outcomes it currently holds.
  \<open>view\<close> is the abstraction, the list of outcomes in the window.
\<close>

locale outcome_window =
  fixes put :: "bool \<Rightarrow> 's \<Rightarrow> 's"
    and stats :: "'s \<Rightarrow> nat \<times> nat"
    and clear :: "'s \<Rightarrow> 's"
    and size_of :: "'s \<Rightarrow> nat"
    and rel :: "bool list \<Rightarrow> 's \<Rightarrow> bool"
  assumes rel_clear: "rel h s \<Longrightarrow> rel [] (clear s)"
    and rel_put: "rel h s \<Longrightarrow> rel (h @ [x]) (put x s)"
    and size_put: "size_of (put x s) = size_of s"
    and stats_rel: "rel h s \<Longrightarrow>
      stats s = (min (length h) (size_of s), count_list (last_n (size_of s) h) False)"
begin

lemma rel_foldl: "rel h s \<Longrightarrow> rel (h @ xs) (foldl (\<lambda>s x. put x s) s xs)"
proof (induction xs arbitrary: h s)
  case (Cons x xs)
  from Cons.IH [OF rel_put [OF Cons.prems, of x]] show ?case by simp
qed simp

lemma size_foldl: "size_of (foldl (\<lambda>s x. put x s) s xs) = size_of s"
  by (induction xs arbitrary: s) (simp_all add: size_put)

lemma stats_foldl:
  assumes "rel [] s"
  shows "stats (foldl (\<lambda>s x. put x s) s xs)
    = (min (length xs) (size_of s), count_list (last_n (size_of s) xs) False)"
  using stats_rel [OF rel_foldl [OF assms]] by (simp add: size_foldl)

text \<open>The number of failures never exceeds the total.\<close>

lemma failures_le_total: "rel h s \<Longrightarrow> snd (stats s) \<le> fst (stats s)"
  using count_le_length [of "last_n (size_of s) h" False] by (simp add: stats_rel)

end

section \<open>The ring implements it\<close>

definition window_rel :: "bool list \<Rightarrow> breaker \<Rightarrow> bool" where
  "window_rel h b \<longleftrightarrow>
     0 < length (ring b) \<and> length (ring b) < 2 ^ 32 \<and>
     unat (ringIdx b) = length h mod length (ring b) \<and>
     (ringFull b \<longleftrightarrow> length (ring b) \<le> length h) \<and>
     unat (total b) = min (length h) (length (ring b)) \<and>
     unat (failures b) = count_list (last_n (length (ring b)) h) False \<and>
     (\<forall>p < length h. length h \<le> p + length (ring b) \<longrightarrow> ring b ! (p mod length (ring b)) = h ! p)"

declare window_rel_def [inv_defs]

definition count_stats :: "breaker \<Rightarrow> nat \<times> nat" where
  "count_stats b = (unat (total b), unat (failures b))"

text \<open>The fields after one record, with the word arithmetic read as numbers.\<close>

lemma next_ringIdx:
  assumes "unat (i :: u32) < n" "n < 2 ^ 32"
  shows "unat ((i + 1) mod (of_nat n :: u32)) = Suc (unat i) mod n"
proof -
  have "unat (i + 1) = Suc (unat i)" using assms by (intro unat_add_one) simp
  moreover have "unat (of_nat n :: u32) = n" using assms(2) by (simp add: unat_of_nat)
  ultimately show ?thesis by (simp add: unat_mod_distrib)
qed

lemma mod_eq_imp_le:
  fixes p q n :: nat
  assumes "p mod n = q mod n" "p < q"
  shows "p + n \<le> q"
proof -
  have "n dvd q - p" using assms by (metis mod_eq_dvd_iff_nat less_imp_le)
  then have "n \<le> q - p" using assms(2) by (intro dvd_imp_le) auto
  with assms(2) show ?thesis by linarith
qed

lemma recordCountBased_ringIdx:
  "ringIdx (recordCountBased ok b) = (ringIdx b + 1) mod of_nat (length (ring b))"
  by (simp add: recordCountBased_def Let_def)

lemma failures_after_record:
  assumes "window_rel h b"
  shows "unat (failures (recordCountBased ok b)) = count_list (last_n (length (ring b)) (h @ [ok])) False"
proof -
  let ?n = "length (ring b)" and ?k = "length h"
  have n: "0 < ?n" "?n < 2 ^ 32" and f: "unat (failures b) = count_list (last_n ?n h) False"
    using assms by (simp_all add: window_rel_def)
  have fb: "unat (failures b) < 2 ^ 32"
    using n f count_le_length [of "last_n ?n h" False] by simp
  show ?thesis
  proof (cases "?n \<le> ?k")
    case True
    have "ring b ! (length h mod ?n) = h ! (?k - ?n)"
    proof -
      have "(?k - ?n) mod ?n = ?k mod ?n" using True by (simp add: le_mod_geq)
      moreover have "?k - ?n < ?k" "?k \<le> ?k - ?n + ?n" using True n(1) by linarith+
      ultimately show ?thesis using assms unfolding window_rel_def by metis
    qed
    then have old: "ring b ! unat (ringIdx b) = h ! (?k - ?n)" and full: "ringFull b"
      using assms True by (simp_all add: window_rel_def)
    have pos: "0 < unat (failures b)" if "\<not> h ! (?k - ?n)"
    proof -
      have "?k - ?n < ?k" using True n(1) by linarith
      then have "last_n ?n h = h ! (?k - ?n) # drop (Suc (?k - ?n)) h"
        by (simp add: last_n_def Cons_nth_drop_Suc)
      with that f show ?thesis by simp
    qed
    show ?thesis
      using count_last_n_snoc [OF n(1) True, of ok False] f old full fb pos
      by (cases "h ! (?k - ?n)"; cases ok)
        (simp_all add: recordCountBased_def Let_def unat_add_one unat_sub_one)
  next
    case False
    then have "\<not> ringFull b" using assms by (simp add: window_rel_def)
    with False f fb show ?thesis
      by (simp add: recordCountBased_def Let_def last_n_snoc_short unat_add_one)
  qed
qed

lemma window_rel_put [preserved]:
  assumes "window_rel h b"
  shows "window_rel (h @ [ok]) (recordCountBased ok b)"
proof -
  let ?n = "length (ring b)" and ?k = "length h" and ?b = "recordCountBased ok b"
  have n: "0 < ?n" "?n < 2 ^ 32" and idx: "unat (ringIdx b) = ?k mod ?n"
    and full: "ringFull b \<longleftrightarrow> ?n \<le> ?k" and tot: "unat (total b) = min ?k ?n"
    and cont: "\<And>p. p < ?k \<Longrightarrow> ?k \<le> p + ?n \<Longrightarrow> ring b ! (p mod ?n) = h ! p"
    using assms by (simp_all add: window_rel_def)
  have idx': "unat (ringIdx ?b) = Suc ?k mod ?n"
    using next_ringIdx [of "ringIdx b" ?n] n idx
    by (simp add: recordCountBased_ringIdx mod_Suc_eq)
  have ring': "ring ?b = (ring b)[?k mod ?n := ok]"
    by (simp add: recordCountBased_def Let_def idx)
  have zero: "ringIdx ?b = 0 \<longleftrightarrow> Suc ?k mod ?n = 0"
    using idx' by (metis unat_eq_zero)
  have full_iff: "ringFull ?b \<longleftrightarrow> ringFull b \<or> ringIdx ?b = 0"
    by (simp add: recordCountBased_def Let_def)
  have "?n \<le> Suc ?k" if "Suc ?k mod ?n = 0"
    using that by (intro dvd_imp_le) auto
  then have full': "ringFull ?b \<longleftrightarrow> ?n \<le> Suc ?k"
    unfolding full_iff zero full by (metis le_SucE mod_self le_Suc_eq)
  have total': "unat (total ?b) = min (Suc ?k) ?n"
    using tot full n by (auto simp: recordCountBased_def Let_def unat_add_one)
  have "ring ?b ! (p mod ?n) = (h @ [ok]) ! p" if p: "p < Suc ?k" "Suc ?k \<le> p + ?n" for p
  proof (cases "p = ?k")
    case True
    with n show ?thesis by (simp add: ring')
  next
    case False
    with p have "p < ?k" by simp
    then have "p mod ?n \<noteq> ?k mod ?n" using mod_eq_imp_le [of p ?n ?k] p(2) by auto
    then show ?thesis using cont [of p] \<open>p < ?k\<close> p(2) by (simp add: ring' nth_append)
  qed
  with n idx' full' total' failures_after_record [OF assms] show ?thesis
    by (simp add: window_rel_def)
qed

lemma window_rel_clear:
  "0 < length (ring b) \<Longrightarrow> length (ring b) < 2 ^ 32 \<Longrightarrow> WindowType (config b) = WindowCountBased \<Longrightarrow>
     window_rel [] (clearWindow b)"
  by (simp add: window_rel_def clearWindow_def)

interpretation ring: outcome_window recordCountBased count_stats clearWindow
  "\<lambda>b. length (ring b)" "\<lambda>h b. window_rel h b \<and> WindowType (config b) = WindowCountBased"
proof
  fix h x and b :: breaker
  assume r: "window_rel h b \<and> WindowType (config b) = WindowCountBased"
  then show "window_rel [] (clearWindow b) \<and> WindowType (config (clearWindow b)) = WindowCountBased"
    by (intro conjI window_rel_clear) (simp_all add: window_rel_def)
  show "window_rel (h @ [x]) (recordCountBased x b)
      \<and> WindowType (config (recordCountBased x b)) = WindowCountBased"
    using r by (simp add: window_rel_put)
  show "count_stats b = (min (length h) (length (ring b)), count_list (last_n (length (ring b)) h) False)"
    using r by (simp add: count_stats_def window_rel_def)
qed simp

lemma with_defaults_WindowSize: "WindowSize (with_defaults cfg) = (if WindowSize cfg = 0 then 100 else WindowSize cfg)"
  by (simp add: with_defaults_def Let_def)

lemma with_defaults_WindowType [simp]: "WindowType (with_defaults cfg) = WindowType cfg"
  by (simp add: with_defaults_def Let_def)

lemma New_count:
  assumes "WindowType cfg = WindowCountBased"
  shows "window_rel [] (New cfg)" "config (New cfg) = with_defaults cfg"
    "length (ring (New cfg)) = unat (WindowSize (with_defaults cfg))"
proof -
  have pos: "0 < unat (WindowSize (with_defaults cfg))"
    by (auto simp: with_defaults_WindowSize unat_gt_0)
  have bound: "unat (WindowSize (with_defaults cfg)) < 2 ^ 32"
    using unsigned_less [of "WindowSize (with_defaults cfg)"] by simp
  show "window_rel [] (New cfg)" "config (New cfg) = with_defaults cfg"
    "length (ring (New cfg)) = unat (WindowSize (with_defaults cfg))"
    using assms pos bound by (simp_all add: New_def Let_def window_rel_def)
qed

text \<open>
  C27. The count-based window is a sliding window: after any sequence of outcomes recorded in a
  new breaker, its total is the number of outcomes, at most the window size, and its failure
  count is the number of failures among the last outcomes, as many as the window size. The
  32-bit ring index and the 64-bit counters, with their wrapping arithmetic, never wrap.
\<close>

theorem count_window_refines_sliding_window:
  assumes "WindowType cfg = WindowCountBased"
  shows "count_stats (foldl (\<lambda>b ok. recordCountBased ok b) (New cfg) outcomes)
     = (min (length outcomes) (unat (WindowSize (with_defaults cfg))),
        count_list (last_n (unat (WindowSize (with_defaults cfg))) outcomes) False)"
  using ring.stats_foldl [of "New cfg" outcomes] New_count [OF assms] assms by simp

definition sample_config :: breaker_config where
  "sample_config = \<lparr>WindowType = WindowCountBased, WindowSize = 3, WindowDuration = Minute,
     FailureRateThreshold = Fin 50, MinimumCalls = 2, ResetTimeout = Second, HalfOpenMaxCalls = 2\<rparr>"

lemma sample_config_simps [simp]:
  "WindowType sample_config = WindowCountBased" "HalfOpenMaxCalls sample_config = 2"
  "ResetTimeout sample_config = Second" "FailureRateThreshold sample_config = Fin 50"
  "MinimumCalls sample_config = 2" "WindowSize sample_config = 3"
  "with_defaults sample_config = sample_config"
  by (simp_all add: sample_config_def with_defaults_def Let_def duration_units)

lemma New_sample_simps [simp]:
  "config (New sample_config) = sample_config" "state (New sample_config) = StateClosed"
  "length (ring (New sample_config)) = 3" "healthCh (New sample_config) = None"
  "halfOpenCalls (New sample_config) = 0" "halfOpenFailures (New sample_config) = 0"
  "halfOpenCompleted (New sample_config) = 0"
  by (simp_all add: New_def Let_def)

theorem count_window_refines_sliding_window_witness:
  "count_stats (foldl (\<lambda>b ok. recordCountBased ok b) (New sample_config) [False, False, True, False])
     = (3, 2)"
  by (subst count_window_refines_sliding_window)
    (simp_all add: last_n_def)

end
