(* ===== verification/Circuit_Breaker.thy ===== *)
theory Circuit_Breaker
  imports Count_Window Go_Errors
begin

text \<open>
  The state machine of the circuit breaker (\<^verbatim>\<open>circuit/breaker.go\<close>). \<open>Execute\<close>
  holds the mutex twice, before and after the protected action; the two critical sections
  are the atomic operations \<open>admit\<close> and \<open>complete\<close>. Other goroutines may run any
  operations between the two, so \<open>complete\<close> takes the state the call was admitted in,
  as the code's local variable does.

  The clock is read at several places of one critical section; each has its own field in
  \<open>cb_clock\<close>, so that the readings may differ.
\<close>

section \<open>Transitions\<close>

record cb_clock =
  at_record :: time
  at_stats :: time
  at_open :: time
  at_event :: time

definition emitStateEvent :: "health_state \<Rightarrow> string \<Rightarrow> time \<Rightarrow> breaker \<Rightarrow> breaker" where
  "emitStateEvent st message now b =
     b\<lparr>healthCh := send_event \<lparr>ev_Component = ''circuit-breaker'', ev_State = st,
                               ev_Timestamp = now, ev_Message = message\<rparr> (healthCh b)\<rparr>"

definition transitionToOpen :: "cb_clock \<Rightarrow> breaker \<Rightarrow> breaker" where
  "transitionToOpen c b =
     (let b = b\<lparr>state := StateOpen\<rparr>;
          b = b\<lparr>openedAt := at_open c\<rparr>;
          b = clearWindow b
      in emitStateEvent HealthStateUnhealthy ''circuit opened'' (at_event c) b)"

definition transitionToHalfOpen :: "time \<Rightarrow> breaker \<Rightarrow> breaker" where
  "transitionToHalfOpen now b =
     (let b = b\<lparr>state := StateHalfOpen\<rparr>;
          b = b\<lparr>halfOpenCalls := 0, halfOpenFailures := 0, halfOpenCompleted := 0\<rparr>
      in emitStateEvent HealthStateDegraded ''circuit half-open'' now b)"

definition transitionToClosed :: "time \<Rightarrow> breaker \<Rightarrow> breaker" where
  "transitionToClosed now b =
     (let b = b\<lparr>state := StateClosed\<rparr>;
          b = clearWindow b
      in emitStateEvent HealthStateHealthy ''circuit closed'' now b)"

section \<open>The failure rate\<close>

definition failure_rate :: "u64 \<Rightarrow> u64 \<Rightarrow> f64" where
  "failure_rate fails tot = f64_of_int (uint fails) / f64_of_int (uint tot) * Fin 100"

definition checkFailureRate :: "cb_clock \<Rightarrow> breaker \<Rightarrow> breaker" where
  "checkFailureRate c b =
     (if state b \<noteq> StateClosed then b
      else (let ((tot, fails), b) = getStatsLocked (at_stats c) b
            in if tot < MinimumCalls (config b) then b
               else if failure_rate fails tot \<ge> FailureRateThreshold (config b)
               then transitionToOpen c b
               else b))"

section \<open>Completion of a call\<close>

definition onFailure :: "cb_clock \<Rightarrow> breaker_state \<Rightarrow> breaker \<Rightarrow> breaker" where
  "onFailure c st b =
     (if st = StateHalfOpen
      then (let b = b\<lparr>halfOpenFailures := halfOpenFailures b + 1\<rparr>;
                b = b\<lparr>halfOpenCompleted := halfOpenCompleted b + 1\<rparr>
            in transitionToOpen c b)
      else checkFailureRate c (record_outcome False (at_record c) b))"

definition onSuccess :: "cb_clock \<Rightarrow> breaker_state \<Rightarrow> breaker \<Rightarrow> breaker" where
  "onSuccess c st b =
     (if st = StateHalfOpen
      then (let b = b\<lparr>halfOpenCompleted := halfOpenCompleted b + 1\<rparr>
            in if halfOpenCompleted b \<ge> HalfOpenMaxCalls (config b)
               then (let rate = failure_rate (halfOpenFailures b) (halfOpenCompleted b)
                     in if rate < FailureRateThreshold (config b)
                        then transitionToClosed (at_event c) b
                        else transitionToOpen c b)
               else b)
      else checkFailureRate c (record_outcome True (at_record c) b))"

definition complete :: "cb_clock \<Rightarrow> breaker_state \<Rightarrow> go_error option \<Rightarrow> breaker \<Rightarrow> breaker" where
  "complete c st err b = (if err \<noteq> None then onFailure c st b else onSuccess c st b)"

section \<open>Admission of a call\<close>

datatype admission = Rejected | Admitted breaker_state

definition reset_due :: "time \<Rightarrow> breaker \<Rightarrow> bool" where
  "reset_due now b \<longleftrightarrow> state b = StateOpen \<and> time_Sub now (openedAt b) > ResetTimeout (config b)"

definition admit :: "time \<Rightarrow> time \<Rightarrow> breaker \<Rightarrow> admission \<times> breaker" where
  "admit now ev b =
     (let b = (if reset_due now b then transitionToHalfOpen ev b else b)
      in if state b = StateOpen then (Rejected, b)
         else if state b = StateHalfOpen
         then (if halfOpenCalls b \<ge> HalfOpenMaxCalls (config b) then (Rejected, b)
               else (Admitted StateHalfOpen, b\<lparr>halfOpenCalls := halfOpenCalls b + 1\<rparr>))
         else (Admitted (state b), b))"

section \<open>The other operations\<close>

text \<open>
  \<open>State\<close> looks under the read lock first and, when the reset is due, again under the
  write lock, with a new clock reading.
\<close>

definition State_recheck :: "time \<Rightarrow> time \<Rightarrow> breaker \<Rightarrow> breaker_state \<times> breaker" where
  "State_recheck now ev b =
     (let b = (if reset_due now b then transitionToHalfOpen ev b else b) in (state b, b))"

definition State :: "time \<Rightarrow> time \<Rightarrow> time \<Rightarrow> breaker \<Rightarrow> breaker_state \<times> breaker" where
  "State now now' ev b = (if reset_due now b then State_recheck now' ev b else (state b, b))"

definition Reset :: "time \<Rightarrow> breaker \<Rightarrow> breaker" where
  "Reset ev b = transitionToClosed ev b"

definition Breaker_Health :: "breaker \<Rightarrow> breaker" where
  "Breaker_Health b = b\<lparr>healthCh := open_health (healthCh b)\<rparr>"

lemmas transition_defs = transitionToOpen_def transitionToHalfOpen_def transitionToClosed_def
  emitStateEvent_def

declare transition_defs [op_defs] checkFailureRate_def [op_defs] onFailure_def [op_defs]
  onSuccess_def [op_defs] complete_def [op_defs] admit_def [op_defs] State_def [op_defs]
  Reset_def [op_defs] Breaker_Health_def [op_defs]

section \<open>Frames\<close>

lemma open_frame [simp]:
  "config (transitionToOpen c b) = config b" "state (transitionToOpen c b) = StateOpen"
  "openedAt (transitionToOpen c b) = at_open c"
  "halfOpenCalls (transitionToOpen c b) = halfOpenCalls b"
  "halfOpenFailures (transitionToOpen c b) = halfOpenFailures b"
  "halfOpenCompleted (transitionToOpen c b) = halfOpenCompleted b"
  by (simp_all add: transition_defs Let_def)

lemma half_open_frame [simp]:
  "config (transitionToHalfOpen t b) = config b" "state (transitionToHalfOpen t b) = StateHalfOpen"
  "openedAt (transitionToHalfOpen t b) = openedAt b"
  "halfOpenCalls (transitionToHalfOpen t b) = 0"
  "halfOpenFailures (transitionToHalfOpen t b) = 0"
  "halfOpenCompleted (transitionToHalfOpen t b) = 0"
  by (simp_all add: transition_defs Let_def)

lemma closed_frame [simp]:
  "config (transitionToClosed t b) = config b" "state (transitionToClosed t b) = StateClosed"
  "openedAt (transitionToClosed t b) = openedAt b"
  "halfOpenCalls (transitionToClosed t b) = halfOpenCalls b"
  "halfOpenFailures (transitionToClosed t b) = halfOpenFailures b"
  "halfOpenCompleted (transitionToClosed t b) = halfOpenCompleted b"
  by (simp_all add: transition_defs Let_def)

lemma check_frame [simp]:
  "config (checkFailureRate c b) = config b"
  "halfOpenCalls (checkFailureRate c b) = halfOpenCalls b"
  by (simp_all add: checkFailureRate_def Let_def split_beta)

lemma complete_frame [simp]:
  "config (complete c st err b) = config b"
  "halfOpenCalls (complete c st err b) = halfOpenCalls b"
  by (simp_all add: complete_def onFailure_def onSuccess_def Let_def)

lemma admit_config [simp]: "config (snd (admit now ev b)) = config b"
  by (simp add: admit_def Let_def)

lemma check_not_closed: "state b \<noteq> StateClosed \<Longrightarrow> checkFailureRate c b = b"
  by (simp add: checkFailureRate_def)

section \<open>The rate is a percentage\<close>

lemma failure_rate_zero: "failure_rate 0 t \<noteq> NaN \<Longrightarrow> failure_rate 0 t = Fin 0"
  by (cases "f64_of_int (uint t)") (auto simp: failure_rate_def f64_of_int_def)

lemma representable_100: "representable 100" "representable 1" "representable 0"
  using representable_of_int [of 100] representable_of_int [of 1] representable_of_int [of 0] by simp_all

text \<open>Go's conversion of a 64-bit counter stays finite.\<close>

lemma representable_2_64: "representable (2 ^ 64)"
  by (rule representable_dyadic [of _ 1 64]) simp_all

lemma counter_to_float:
  fixes w :: u64
  obtains z where "f64_of_int (uint w) = Fin z" "0 \<le> z" "0 < w \<longrightarrow> 1 \<le> z"
proof -
  have w: "0 \<le> uint w" "uint w < 2 ^ 64" using unsigned_less [of w] by simp_all
  then have "(of_int (uint w) :: rat) \<le> of_int (2 ^ 64)" "(0::rat) \<le> of_int (uint w)"
    by (simp_all only: of_int_le_iff of_int_0_le_iff)
  then obtain z where z: "rnd (of_int (uint w)) = Fin z" "0 \<le> z"
    using rnd_bounds [OF representable_100(3) representable_2_64, of "of_int (uint w)"] by auto
  have "1 \<le> z" if "0 < w"
  proof -
    have "1 \<le> uint w" using that by (simp add: word_less_def)
    then have "rnd 1 \<le> rnd (of_int (uint w))" by (intro rnd_mono) (simp only: of_int_1_le_iff)
    then show ?thesis using z rnd_exact [OF representable_100(2)] by simp
  qed
  with z that show ?thesis by (simp add: f64_of_int_def)
qed

text \<open>
  The failure rate the breaker compares with its threshold is a percentage for all counts:
  with at least one call and no more failures than calls it lies between 0 and 100, it is not
  a NaN, and it is exactly 100 when every call failed. Rounding of 64-bit counts included, so a
  window of failures trips the breaker under every threshold.
\<close>

theorem failure_rate_is_percentage:
  assumes "0 < tot" "fails \<le> tot"
  shows "Fin 0 \<le> failure_rate fails tot \<and> failure_rate fails tot \<le> Fin 100
       \<and> failure_rate tot tot = Fin 100"
proof -
  obtain y where y: "f64_of_int (uint tot) = Fin y" "1 \<le> y"
    using assms(1) by (metis counter_to_float)
  obtain x where x: "f64_of_int (uint fails) = Fin x" "0 \<le> x"
    by (metis counter_to_float)
  have "x \<le> y"
    using f64_of_int_mono [of "uint fails" "uint tot"] assms(2) x y by (simp add: word_le_def)
  then obtain q where q: "rnd (x / y) = Fin q" "0 \<le> q" "q \<le> 1"
    using rnd_bounds [OF representable_100(3,2), of "x / y"] x y by auto
  then obtain r where "rnd (q * 100) = Fin r" "0 \<le> r" "r \<le> 100"
    using rnd_bounds [OF representable_100(3,1), of "q * 100"] by auto
  with q x y show ?thesis
    using rnd_exact [OF representable_100(1)] rnd_exact [OF representable_100(2)]
    by (simp add: failure_rate_def)
qed

theorem failure_rate_is_percentage_witness:
  "Fin 0 \<le> failure_rate 2 3 \<and> failure_rate 2 3 \<le> Fin 100 \<and> failure_rate 3 3 = Fin 100"
  by (rule failure_rate_is_percentage) simp_all

end
