(* ===== verification/Breaker_Runs.thy ===== *)
theory Breaker_Runs
  imports Circuit_Breaker "HOL-Library.Multiset"
begin

text \<open>
  The circuit breaker over time: sequences of its atomic operations, and the interleavings of
  any number of goroutines that use one breaker. A call that was admitted is in flight until
  it completes or its action panics; in the second case \<open>Execute\<close> unwinds without
  entering its second critical section.
\<close>

section \<open>One outcome in the closed state\<close>

lemma word_of_unat: "unat (w :: 'a::len word) = n \<Longrightarrow> w = of_nat n"
  by auto

lemma window_rel_same:
  "window_rel h b \<Longrightarrow> ring b' = ring b \<Longrightarrow> ringIdx b' = ringIdx b \<Longrightarrow> ringFull b' = ringFull b \<Longrightarrow>
     total b' = total b \<Longrightarrow> failures b' = failures b \<Longrightarrow> window_rel h b'"
  by (simp add: window_rel_def)

lemma emit_window [simp]:
  "ring (emitStateEvent s m t b) = ring b" "ringIdx (emitStateEvent s m t b) = ringIdx b"
  "ringFull (emitStateEvent s m t b) = ringFull b" "total (emitStateEvent s m t b) = total b"
  "failures (emitStateEvent s m t b) = failures b" "config (emitStateEvent s m t b) = config b"
  "state (emitStateEvent s m t b) = state b" "buckets (emitStateEvent s m t b) = buckets b"
  "bucketDuration (emitStateEvent s m t b) = bucketDuration b"
  "halfOpenCalls (emitStateEvent s m t b) = halfOpenCalls b"
  by (simp_all add: emitStateEvent_def)

text \<open>Both clearing transitions leave an empty window.\<close>

lemma window_rel_transition [preserved]:
  assumes "window_rel h b" "WindowType (config b) = WindowCountBased"
  shows "window_rel [] (transitionToOpen c b)" "window_rel [] (transitionToClosed t b)"
proof -
  have "0 < length (ring b)" "length (ring b) < 2 ^ 32" using assms(1) by (simp_all add: window_rel_def)
  then show "window_rel [] (transitionToOpen c b)" "window_rel [] (transitionToClosed t b)"
    using assms(2)
    by (simp_all add: transitionToOpen_def transitionToClosed_def window_rel_def clearWindow_def
        emitStateEvent_def Let_def)
qed

lemma check_count:
  assumes r: "window_rel h b" and t: "WindowType (config b) = WindowCountBased"
    and s: "state b = StateClosed"
    and k: "k = min (length h) (length (ring b))"
    and f: "f = count_list (last_n (length (ring b)) h) False"
  shows "checkFailureRate c b =
    (if unat (MinimumCalls (config b)) \<le> k
        \<and> failure_rate (of_nat f) (of_nat k) \<ge> FailureRateThreshold (config b)
     then transitionToOpen c b else b)"
proof -
  have w: "unat (total b) = k" "unat (failures b) = f" using r k f by (simp_all add: window_rel_def)
  have e: "total b = of_nat k" "failures b = of_nat f"
    using w by (auto intro: word_of_unat)
  have "total b < MinimumCalls (config b) \<longleftrightarrow> k < unat (MinimumCalls (config b))"
    using w by (simp add: word_less_nat_alt)
  then show ?thesis
    using s t e by (auto simp: checkFailureRate_def getStatsLocked_def not_less)
qed

text \<open>One set of clock readings for the concrete instances below.\<close>

definition sample_clock :: cb_clock where
  "sample_clock = \<lparr>at_record = 1, at_stats = 2, at_open = 3, at_event = 4\<rparr>"

text \<open>
  C31. A closed breaker with a count-based window trips exactly when it should. Let \<open>h\<close> be
  the outcomes recorded since the window was last cleared and let a call that was admitted in
  the closed state complete: among the last outcomes, as many as the window size, the new one
  included, the breaker opens if and only if there are at least \<open>MinimumCalls\<close> of them and
  the percentage of failures reaches the threshold. It then starts from an empty window;
  otherwise it stays closed and remembers the new outcome.
\<close>

theorem closed_breaker_trips_exactly_at_threshold:
  assumes "window_rel h b" "WindowType (config b) = WindowCountBased" "state b = StateClosed"
    "n = length (ring b)" "w = last_n n (h @ [err = None])"
    "trips \<longleftrightarrow> unat (MinimumCalls (config b)) \<le> length w \<and>
       failure_rate (of_nat (count_list w False)) (of_nat (length w)) \<ge> FailureRateThreshold (config b)"
  shows "state (complete c StateClosed err b) = (if trips then StateOpen else StateClosed)
       \<and> window_rel (if trips then [] else h @ [err = None]) (complete c StateClosed err b)"
proof -
  let ?b = "recordCountBased (err = None) b"
  have r: "window_rel (h @ [err = None]) ?b" using assms(1) by (rule window_rel_put)
  have "complete c StateClosed err b = checkFailureRate c ?b"
    using assms(2) by (auto simp: complete_def onFailure_def onSuccess_def record_outcome_def)
  also have "\<dots> = (if trips then transitionToOpen c ?b else ?b)"
    using check_count [OF r, of "length w" "count_list w False" c] assms by (simp add: min.commute)
  finally show ?thesis
    using r assms(2,3) window_rel_transition(1) [OF r, of c] by simp
qed

theorem closed_breaker_trips_exactly_at_threshold_witness:
  "state (complete sample_clock StateClosed
      (Some (UserError 0)) (recordCountBased False (New sample_config))) = StateOpen"
proof -
  have r: "window_rel [False] (recordCountBased False (New sample_config))"
    using window_rel_put [OF New_count(1) [of sample_config], of False] by simp
  have rate: "failure_rate 2 2 = Fin 100" using failure_rate_is_percentage [of 2 1] by simp
  show ?thesis
    using closed_breaker_trips_exactly_at_threshold [OF r _ _ refl refl refl,
        of sample_clock "Some (UserError 0)"]
    by (simp add: last_n_def rate)
qed

section \<open>A new breaker whose first calls fail\<close>

definition with_failures :: "nat \<Rightarrow> breaker \<Rightarrow> breaker" where
  "with_failures j b = b\<lparr>ringIdx := of_nat j, total := of_nat j, failures := of_nat j\<rparr>"

lemma with_failures_fields [simp]:
  "ringIdx (with_failures j b) = of_nat j" "total (with_failures j b) = of_nat j" "failures (with_failures j b) = of_nat j"
  "config (with_failures j b) = config b" "state (with_failures j b) = state b" "ring (with_failures j b) = ring b"
  "ringFull (with_failures j b) = ringFull b" "healthCh (with_failures j b) = healthCh b"
  by (simp_all add: with_failures_def)

lemma with_failures_step:
  assumes "WindowType (config b) = WindowCountBased" "state b = StateClosed" "ring b = replicate n False" "\<not> ringFull b"
    "Suc j < n" "n < 2 ^ 32"
  shows "recordCountBased False (with_failures j b) = with_failures (Suc j) b"
    "Suc j < unat (MinimumCalls (config b)) \<Longrightarrow>
       complete clk StateClosed (Some e) (with_failures j b) = with_failures (Suc j) b"
proof -
  have u: "unat (of_nat j :: u32) = j" "unat (of_nat (Suc j) :: u32) = Suc j" "unat (of_nat (Suc j) :: u64) = Suc j"
    using assms(5,6) by (simp_all add: unat_of_nat del: of_nat_Suc)
  then have ne: "(of_nat (Suc j) :: u32) \<noteq> 0" by (metis nat.distinct(1) unat_0)
  have idx: "((of_nat j :: u32) + 1) mod of_nat n = of_nat (Suc j)"
    using next_ringIdx [of "of_nat j" n] u assms(5,6) word_of_unat [of _ "Suc j"] by simp
  have upd: "(replicate n False)[j := False] = replicate n False"
    using assms(5) by (simp add: list_eq_iff_nth_eq nth_list_update)
  show rec: "recordCountBased False (with_failures j b) = with_failures (Suc j) b"
    using assms(3,4) u(1) ne by (simp add: recordCountBased_def Let_def idx upd) (simp add: with_failures_def add.commute)
  show "complete clk StateClosed (Some e) (with_failures j b) = with_failures (Suc j) b"
    if "Suc j < unat (MinimumCalls (config b))"
    using assms(1,2) that u(3)
    by (simp add: complete_def onFailure_def record_outcome_def rec checkFailureRate_def getStatsLocked_def word_less_nat_alt
        del: of_nat_Suc)
qed

text \<open>The failure that completes the minimum of calls opens the breaker.\<close>

lemma with_failures_trip:
  assumes "WindowType (config b) = WindowCountBased" "state b = StateClosed" "ring b = replicate n False" "\<not> ringFull b"
    "Suc j < n" "n < 2 ^ 32" "Suc j = unat (MinimumCalls (config b))" "FailureRateThreshold (config b) \<le> Fin 100"
  shows "complete clk StateClosed (Some e) (with_failures j b) = transitionToOpen clk (with_failures (Suc j) b)"
proof -
  have m: "(of_nat (Suc j) :: u64) = MinimumCalls (config b)" using assms(7) word_of_unat by metis
  then have "failure_rate (of_nat (Suc j)) (of_nat (Suc j)) = Fin 100"
    using failure_rate_is_percentage [of "MinimumCalls (config b)" "MinimumCalls (config b)"] assms(7)
    by (simp add: word_less_nat_alt del: of_nat_Suc)
  then show ?thesis
    using assms(1,2,8) m
    by (simp add: complete_def onFailure_def record_outcome_def with_failures_step(1) [OF assms(1-6)] checkFailureRate_def
        getStatsLocked_def del: of_nat_Suc)
qed

section \<open>Sequences of operations\<close>

datatype breaker_op =
    OpAdmit time time
  | OpComplete cb_clock breaker_state "go_error option"
  | OpState time time time
  | OpReset time
  | OpHealth
  | OpReceive

fun apply_op :: "breaker_op \<Rightarrow> breaker \<Rightarrow> breaker" where
  "apply_op (OpAdmit now ev) b = snd (admit now ev b)"
| "apply_op (OpComplete c st err) b = complete c st err b"
| "apply_op (OpState now now' ev) b = snd (State now now' ev b)"
| "apply_op (OpReset ev) b = Reset ev b"
| "apply_op OpHealth b = Breaker_Health b"
| "apply_op OpReceive b = b\<lparr>healthCh := snd (receive_event (healthCh b))\<rparr>"

text \<open>The answers to the admission requests of a sequence, and the breaker after it.\<close>

fun run_ops :: "breaker_op list \<Rightarrow> breaker \<Rightarrow> admission list \<times> breaker" where
  "run_ops [] b = ([], b)"
| "run_ops (op # ops) b =
     (let (answers, b') = run_ops ops (apply_op op b)
      in (case op of OpAdmit now ev \<Rightarrow> (fst (admit now ev b) # answers, b') | _ \<Rightarrow> (answers, b')))"

lemma apply_op_config [simp]: "config (apply_op op b) = config b"
  by (cases op) (simp_all add: State_def State_recheck_def Let_def Reset_def Breaker_Health_def)

text \<open>An invariant of single operations under which every request is rejected.\<close>

lemma run_ops_rejecting:
  assumes step: "\<And>op b. P b \<Longrightarrow> Q op \<Longrightarrow> P (apply_op op b)"
    and rej: "\<And>now ev b. P b \<Longrightarrow> Q (OpAdmit now ev) \<Longrightarrow> fst (admit now ev b) = Rejected"
    and "P b" "list_all Q ops"
  shows "P (snd (run_ops ops b)) \<and> list_all (\<lambda>a. a = Rejected) (fst (run_ops ops b))"
  using assms(3,4)
proof (induction ops arbitrary: b)
  case (Cons op ops)
  have "P (apply_op op b)" using Cons.prems by (simp add: step)
  then show ?case
    using Cons.IH [of "apply_op op b"] Cons.prems rej
    by (cases op) (auto simp: split_beta Let_def)
qed simp

subsection \<open>An open breaker fails fast\<close>

text \<open>
  The operations that end the open state: a request or a state query that finds more than the reset
  timeout passed, a manual reset, and the success of a probe of the last half-open state that
  completes the number of probes with a failure rate below the threshold.
\<close>

fun ends_open :: "breaker \<Rightarrow> breaker_op \<Rightarrow> bool" where
  "ends_open b (OpAdmit now ev) = (ResetTimeout (config b) < time_Sub now (openedAt b))"
| "ends_open b (OpState now now' ev) =
     (ResetTimeout (config b) < time_Sub now (openedAt b) \<and> ResetTimeout (config b) < time_Sub now' (openedAt b))"
| "ends_open b (OpReset ev) = True"
| "ends_open b (OpComplete c st err) =
     (st = StateHalfOpen \<and> err = None \<and> HalfOpenMaxCalls (config b) \<le> halfOpenCompleted b + 1
        \<and> failure_rate (halfOpenFailures b) (halfOpenCompleted b + 1) < FailureRateThreshold (config b))"
| "ends_open b _ = False"

lemma complete_not_closed:
  "st \<noteq> StateHalfOpen \<Longrightarrow> state b \<noteq> StateClosed \<Longrightarrow>
     complete c st err b = record_outcome (err = None) (at_record c) b"
  by (auto simp: complete_def onFailure_def onSuccess_def check_not_closed)

lemma ends_open_iff:
  "state b = StateOpen \<Longrightarrow> ends_open b op \<longleftrightarrow> state (apply_op op b) \<noteq> StateOpen"
  by (cases op) (auto simp: admit_def State_def State_recheck_def Reset_def Breaker_Health_def reset_due_def
      complete_def onFailure_def onSuccess_def check_not_closed Let_def)

text \<open>
  After a sequence of operations the breaker is still open and has rejected every request; only
  a probe that completed, and opened it once more, has moved the instant it was opened at.
\<close>

definition stayed_open :: "breaker \<Rightarrow> breaker_op list \<Rightarrow> bool" where
  "stayed_open b ops \<longleftrightarrow>
     state (snd (run_ops ops b)) = StateOpen \<and> list_all (\<lambda>a. a = Rejected) (fst (run_ops ops b))
     \<and> (openedAt (snd (run_ops ops b)) = openedAt b
        \<or> (\<exists>c err. OpComplete c StateHalfOpen err \<in> set ops \<and> openedAt (snd (run_ops ops b)) = at_open c))"

lemma run_ops_Cons: "snd (run_ops (op # ops) b) = snd (run_ops ops (apply_op op b))"
  by (cases op) (simp_all add: split_beta Let_def)

lemma openedAt_op:
  assumes "state b = StateOpen" "\<not> ends_open b op"
  shows "openedAt (apply_op op b) = openedAt b \<or> (\<exists>c err. op = OpComplete c StateHalfOpen err \<and> openedAt (apply_op op b) = at_open c)"
  using assms
  by (cases op) (auto simp: admit_def State_def State_recheck_def Breaker_Health_def reset_due_def
      complete_def onFailure_def onSuccess_def check_not_closed Let_def)

lemma stayed_open_Cons:
  assumes "state b = StateOpen" "\<not> ends_open b op" "stayed_open (apply_op op b) ops"
  shows "stayed_open b (op # ops)"
proof -
  have "list_all (\<lambda>a. a = Rejected) (fst (run_ops (op # ops) b)) \<longleftrightarrow> list_all (\<lambda>a. a = Rejected) (fst (run_ops ops (apply_op op b)))"
    using assms(1,2) by (cases op) (simp_all add: split_beta Let_def admit_def reset_due_def)
  then show ?thesis
    using assms(3) openedAt_op [OF assms(1,2)] unfolding stayed_open_def run_ops_Cons by auto
qed

text \<open>
  C33. An open breaker fails fast. Whatever operations arrive, it stays open and rejects every
  request up to the first operation of one of three kinds: a request or state query more than the
  reset timeout after it was opened, a manual reset, or the success of a late probe that completes
  \<open>HalfOpenMaxCalls\<close> probes with a failure rate below the threshold. The instant the timeout counts
  from moves only when a late probe opens the breaker again. Exactly these operations end the open
  state.
\<close>

theorem open_breaker_fails_fast:
  assumes "state b = StateOpen"
  shows "(stayed_open b ops \<or> (\<exists>pre op post. ops = pre @ op # post \<and> stayed_open b pre \<and> ends_open (snd (run_ops pre b)) op))
    \<and> (\<forall>op. ends_open b op \<longleftrightarrow> state (apply_op op b) \<noteq> StateOpen)"
proof
  show "stayed_open b ops \<or> (\<exists>pre op post. ops = pre @ op # post \<and> stayed_open b pre \<and> ends_open (snd (run_ops pre b)) op)"
    using assms
  proof (induction ops arbitrary: b)
    case Nil
    then show ?case by (simp add: stayed_open_def)
  next
    case (Cons op ops)
    show ?case
    proof (cases "ends_open b op")
      case True
      then have "op # ops = [] @ op # ops \<and> stayed_open b [] \<and> ends_open (snd (run_ops [] b)) op"
        using Cons.prems by (simp add: stayed_open_def)
      then show ?thesis by blast
    next
      case False
      note more = stayed_open_Cons [OF Cons.prems False]
      have "state (apply_op op b) = StateOpen" using ends_open_iff [OF Cons.prems] False by simp
      from Cons.IH [OF this] show ?thesis
      proof
        assume "\<exists>pre op' post. ops = pre @ op' # post \<and> stayed_open (apply_op op b) pre
            \<and> ends_open (snd (run_ops pre (apply_op op b))) op'"
        then obtain pre op' post where "ops = pre @ op' # post" "stayed_open (apply_op op b) pre"
          "ends_open (snd (run_ops pre (apply_op op b))) op'" by blast
        then have "op # ops = (op # pre) @ op' # post \<and> stayed_open b (op # pre) \<and> ends_open (snd (run_ops (op # pre) b)) op'"
          using more unfolding run_ops_Cons by simp
        then show ?thesis by blast
      qed (use more in blast)
    qed
  qed
qed (use ends_open_iff [OF assms] in blast)

text \<open>A breaker that opened at instant 100 and has a reset timeout of one second.\<close>

definition opened_sample :: breaker where
  "opened_sample = (New sample_config)\<lparr>state := StateOpen, openedAt := 100\<rparr>"

lemma opened_sample_simps [simp]:
  "state opened_sample = StateOpen" "openedAt opened_sample = 100"
  "config opened_sample = sample_config" "healthCh opened_sample = None"
  "halfOpenCalls opened_sample = 0" "halfOpenFailures opened_sample = 0"
  "halfOpenCompleted opened_sample = 0"
  by (simp_all add: opened_sample_def)

theorem open_breaker_fails_fast_witness:
  "list_all (\<lambda>a. a = Rejected) (fst (run_ops [OpAdmit 200 201, OpAdmit (Second + 100) 0] opened_sample))
   \<and> state (apply_op (OpAdmit (Second + 101) 0) opened_sample) \<noteq> StateOpen"
  using open_breaker_fails_fast [of opened_sample "[OpAdmit 200 201, OpAdmit (Second + 100) 0]"]
  by (auto simp: Cons_eq_append_conv Second_def time_Sub_def clamp_int64_def min_int64_def max_int64_def stayed_open_def
      admit_def reset_due_def Let_def)

subsection \<open>A half-open breaker whose probes never complete is stuck\<close>

fun no_probe_completion :: "breaker_op \<Rightarrow> bool" where
  "no_probe_completion (OpComplete c st err) = (st \<noteq> StateHalfOpen)"
| "no_probe_completion (OpReset ev) = False"
| "no_probe_completion _ = True"

text \<open>
  C36. Once all probes of the half-open state are handed out, requests are rejected until a probe
  completes, and nothing else ends the state: if no probe ever completes, because each of their
  actions panicked, the breaker rejects every request for ever, at any later time. Only a
  manual reset helps; no timeout does.
\<close>

theorem half_open_without_completion_is_stuck:
  assumes "state b = StateHalfOpen" "HalfOpenMaxCalls (config b) \<le> halfOpenCalls b"
    "list_all no_probe_completion ops"
  shows "state (snd (run_ops ops b)) = StateHalfOpen
       \<and> list_all (\<lambda>a. a = Rejected) (fst (run_ops ops b))"
proof -
  let ?P = "\<lambda>x :: breaker. state x = StateHalfOpen \<and> HalfOpenMaxCalls (config x) \<le> halfOpenCalls x"
  have "?P (snd (run_ops ops b)) \<and> list_all (\<lambda>a. a = Rejected) (fst (run_ops ops b))"
  proof (rule run_ops_rejecting [where P = ?P and Q = no_probe_completion])
    fix op x
    assume "?P x" "no_probe_completion op"
    then show "?P (apply_op op x)"
      by (cases op)
        (auto simp: admit_def State_def reset_due_def Breaker_Health_def complete_not_closed)
  next
    fix now ev x
    assume "?P x"
    then show "fst (admit now ev x) = Rejected" by (simp add: admit_def reset_due_def)
  qed (use assms in auto)
  then show ?thesis by simp
qed

theorem half_open_without_completion_is_stuck_witness:
  "list_all (\<lambda>a. a = Rejected)
     (fst (run_ops [OpAdmit (100 * Hour) 0, OpState Hour Hour Hour, OpAdmit (200 * Hour) 0]
        (opened_sample\<lparr>state := StateHalfOpen, halfOpenCalls := 2\<rparr>)))"
  using half_open_without_completion_is_stuck
    [of "opened_sample\<lparr>state := StateHalfOpen, halfOpenCalls := 2\<rparr>"
      "[OpAdmit (100 * Hour) 0, OpState Hour Hour Hour, OpAdmit (200 * Hour) 0]"]
  by simp

subsection \<open>How the half-open state ends\<close>

text \<open>One successful probe, while probes are still missing and when it is the last one.\<close>

lemma probe_success_pending:
  assumes "halfOpenCompleted b = of_nat k" "Suc k < unat (HalfOpenMaxCalls (config b))"
  shows "complete c StateHalfOpen None b = b\<lparr>halfOpenCompleted := of_nat (Suc k)\<rparr>"
proof -
  have "Suc k < 2 ^ 64" using assms(2) unat_less_pow [of "HalfOpenMaxCalls (config b)"] by simp
  then have "\<not> HalfOpenMaxCalls (config b) \<le> (of_nat (Suc k) :: u64)"
    using assms(2) by (simp add: word_le_nat_alt unat_of_nat del: of_nat_Suc)
  then show ?thesis using assms(1) by (simp add: complete_def onSuccess_def Let_def add.commute)
qed

lemma probe_success_last:
  assumes "halfOpenCompleted b = of_nat k" "Suc k = unat (HalfOpenMaxCalls (config b))"
    "failure_rate (halfOpenFailures b) (HalfOpenMaxCalls (config b)) < FailureRateThreshold (config b)"
  shows "state (complete c StateHalfOpen None b) = StateClosed"
proof -
  have "halfOpenCompleted b + 1 = HalfOpenMaxCalls (config b)"
    using assms(1,2) by (metis add.commute of_nat_Suc word_of_unat)
  then show ?thesis using assms(3) by (simp add: complete_def onSuccess_def Let_def)
qed

lemma probe_successes_pending:
  "halfOpenCompleted b = of_nat k \<Longrightarrow> k + n < unat (HalfOpenMaxCalls (config b)) \<Longrightarrow>
     snd (run_ops (replicate n (OpComplete c StateHalfOpen None)) b)
       = b\<lparr>halfOpenCompleted := of_nat (k + n)\<rparr>"
proof (induction n arbitrary: b k)
  case (Suc n)
  have "complete c StateHalfOpen None b = b\<lparr>halfOpenCompleted := of_nat (Suc k)\<rparr>"
    using Suc.prems by (intro probe_success_pending) auto
  with Suc.IH [of "b\<lparr>halfOpenCompleted := of_nat (Suc k)\<rparr>" "Suc k"] Suc.prems show ?case
    by (simp add: split_beta Let_def)
qed simp

lemma run_ops_snoc: "snd (run_ops (ops @ [op]) b) = apply_op op (snd (run_ops ops b))"
proof (induction ops arbitrary: b)
  case Nil
  then show ?case by (cases op) simp_all
next
  case (Cons x ops)
  then show ?case by (cases x) (simp_all add: split_beta Let_def)
qed

text \<open>All successes but the last leave the state alone; the last one closes the breaker.\<close>

lemma probe_successes_close:
  assumes "halfOpenCompleted b = of_nat k" "k + Suc n = unat (HalfOpenMaxCalls (config b))"
    "failure_rate (halfOpenFailures b) (HalfOpenMaxCalls (config b)) < FailureRateThreshold (config b)"
  shows "state (snd (run_ops (replicate (Suc n) (OpComplete c StateHalfOpen None)) b)) = StateClosed"
proof -
  let ?b = "b\<lparr>halfOpenCompleted := of_nat (k + n)\<rparr>"
  have r: "replicate (Suc n) (OpComplete c StateHalfOpen None)
      = replicate n (OpComplete c StateHalfOpen None) @ [OpComplete c StateHalfOpen None]"
    by (simp add: replicate_append_same)
  have "snd (run_ops (replicate (Suc n) (OpComplete c StateHalfOpen None)) b)
      = complete c StateHalfOpen None ?b"
    unfolding r run_ops_snoc using assms(1,2) by (subst probe_successes_pending [of b k n]) simp_all
  moreover have "state (complete c StateHalfOpen None ?b) = StateClosed"
    using assms by (intro probe_success_last [of _ "k + n"]) simp_all
  ultimately show ?thesis by simp
qed

text \<open>
  The half-open state closes after exactly \<open>HalfOpenMaxCalls\<close> successful probes:
  from a fresh half-open state with a positive threshold, fewer successes leave it half-open and
  that many close it.
\<close>

theorem half_open_closes_after_all_probes:
  assumes "state b = StateHalfOpen" "halfOpenCompleted b = 0" "halfOpenFailures b = 0"
    "Fin 0 < FailureRateThreshold (config b)" "0 < HalfOpenMaxCalls (config b)"
    "n \<le> unat (HalfOpenMaxCalls (config b))"
  shows "state (snd (run_ops (replicate n (OpComplete c StateHalfOpen None)) b))
       = (if n < unat (HalfOpenMaxCalls (config b)) then StateHalfOpen else StateClosed)"
proof (cases "n < unat (HalfOpenMaxCalls (config b))")
  case True
  then show ?thesis using assms probe_successes_pending [of b 0 n c] by simp
next
  case False
  then obtain k where k: "n = Suc k" "0 + Suc k = unat (HalfOpenMaxCalls (config b))"
    using assms(5,6) by (cases n) (auto simp: unat_gt_0)
  have "failure_rate 0 (HalfOpenMaxCalls (config b)) < FailureRateThreshold (config b)"
    using failure_rate_is_percentage [of "HalfOpenMaxCalls (config b)" 0] assms(4,5)
    by (metis failure_rate_zero less_eq_f64.simps(1,2) word_zero_le)
  then show ?thesis
    using k probe_successes_close [of b 0 k c] assms by simp
qed

theorem half_open_closes_after_all_probes_witness:
  "state (snd (run_ops (replicate 2 (OpComplete sample_clock StateHalfOpen None))
     (opened_sample\<lparr>state := StateHalfOpen\<rparr>))) = StateClosed"
  using half_open_closes_after_all_probes [of "opened_sample\<lparr>state := StateHalfOpen\<rparr>" 2 sample_clock] by simp

text \<open>
  C35. A failed probe does not settle the matter. Let \<open>HalfOpenMaxCalls\<close> probes, at least
  two, be in flight and let the first one that completes fail: the breaker is open at once. But
  the successes of the other probes, which complete while it is open, still count, and the last
  of them closes the breaker without the reset timeout having passed, whenever one failure in
  that many calls is a lower rate than the threshold.
\<close>

theorem failed_probe_can_be_outvoted:
  assumes "state b = StateHalfOpen" "halfOpenCompleted b = 0" "halfOpenFailures b = 0"
    "unat (HalfOpenMaxCalls (config b)) = Suc (Suc n)"
    "failure_rate 1 (HalfOpenMaxCalls (config b)) < FailureRateThreshold (config b)"
  shows "state (complete c StateHalfOpen (Some e) b) = StateOpen
       \<and> state (snd (run_ops (OpComplete c StateHalfOpen (Some e)
                 # replicate (Suc n) (OpComplete c' StateHalfOpen None)) b)) = StateClosed"
proof -
  let ?b = "complete c StateHalfOpen (Some e) b"
  have "state ?b = StateOpen" "halfOpenCompleted ?b = of_nat 1" "halfOpenFailures ?b = 1"
    using assms(1-3) by (simp_all add: complete_def onFailure_def Let_def)
  moreover from this(2,3) have
    "state (snd (run_ops (replicate (Suc n) (OpComplete c' StateHalfOpen None)) ?b)) = StateClosed"
    using assms(4,5) by (intro probe_successes_close [of ?b 1 n]) simp_all
  ultimately show ?thesis by (simp add: split_beta Let_def)
qed

definition four_probes_config :: breaker_config where
  "four_probes_config = sample_config\<lparr>HalfOpenMaxCalls := 4\<rparr>"

theorem failed_probe_can_be_outvoted_witness:
  "state (snd (run_ops (OpComplete sample_clock StateHalfOpen (Some (UserError 1))
       # replicate 3 (OpComplete sample_clock StateHalfOpen None))
     (opened_sample\<lparr>state := StateHalfOpen, config := four_probes_config\<rparr>))) = StateClosed"
proof -
  have "unat (4 :: u64) = Suc (Suc 2)" by simp
  moreover have "failure_rate 1 4 < Fin 50" by code_simp
  ultimately show ?thesis
    using failed_probe_can_be_outvoted
      [of "opened_sample\<lparr>state := StateHalfOpen, config := four_probes_config\<rparr>" 2 sample_clock "UserError 1" sample_clock]
    by (simp add: four_probes_config_def numeral_3_eq_3 numeral_2_eq_2)
qed

section \<open>Interleavings of concurrent calls\<close>

text \<open>
  The breaker together with the calls in flight. A call is recorded with the state it was
  admitted in and with the number of half-open periods begun so far (\<open>period\<close>, a ghost
  counter), which tells the probes of the current period from late ones.
\<close>

record breaker_sys =
  brk :: breaker
  flight :: "(breaker_state \<times> nat) multiset"
  period :: nat

definition next_period :: "time \<Rightarrow> breaker_sys \<Rightarrow> nat" where
  "next_period now s = (if reset_due now (brk s) then Suc (period s) else period s)"

inductive breaker_step :: "breaker_sys \<Rightarrow> breaker_sys \<Rightarrow> bool" where
  call_admitted:
    "admit now ev (brk s) = (Admitted st, b) \<Longrightarrow>
     breaker_step s \<lparr>brk = b, flight = add_mset (st, next_period now s) (flight s),
                     period = next_period now s\<rparr>"
| call_rejected:
    "admit now ev (brk s) = (Rejected, b) \<Longrightarrow>
     breaker_step s (s\<lparr>brk := b, period := next_period now s\<rparr>)"
| call_completes:
    "(st, p) \<in># flight s \<Longrightarrow>
     breaker_step s (s\<lparr>brk := complete c st err (brk s), flight := flight s - {#(st, p)#}\<rparr>)"
| call_panics:
    "(st, p) \<in># flight s \<Longrightarrow> breaker_step s (s\<lparr>flight := flight s - {#(st, p)#}\<rparr>)"
| state_query:
    "breaker_step s (s\<lparr>brk := snd (State_recheck now ev (brk s)), period := next_period now s\<rparr>)"
| manual_reset: "breaker_step s (s\<lparr>brk := Reset ev (brk s)\<rparr>)"
| health_opened: "breaker_step s (s\<lparr>brk := Breaker_Health (brk s)\<rparr>)"
| event_received: "breaker_step s (s\<lparr>brk := apply_op OpReceive (brk s)\<rparr>)"

inductive breaker_reachable :: "breaker_config \<Rightarrow> breaker_sys \<Rightarrow> bool" for cfg where
  start: "breaker_reachable cfg \<lparr>brk = New cfg, flight = {#}, period = 0\<rparr>"
| step: "breaker_reachable cfg s \<Longrightarrow> breaker_step s s' \<Longrightarrow> breaker_reachable cfg s'"

definition probes_in_flight :: "breaker_sys \<Rightarrow> nat" where
  "probes_in_flight s = count (flight s) (StateHalfOpen, period s)"

definition probe_inv :: "breaker_config \<Rightarrow> breaker_sys \<Rightarrow> bool" where
  "probe_inv cfg s \<longleftrightarrow>
     config (brk s) = with_defaults cfg \<and>
     halfOpenCalls (brk s) \<le> HalfOpenMaxCalls (config (brk s)) \<and>
     probes_in_flight s \<le> unat (halfOpenCalls (brk s)) \<and>
     (\<forall>(st, p) \<in># flight s. p \<le> period s)"

declare probe_inv_def [inv_defs]

lemma admit_configD: "admit now ev b = (r, b') \<Longrightarrow> config b' = config b"
  by (metis admit_config snd_conv)

lemma admit_halfOpenCalls:
  assumes "halfOpenCalls b \<le> HalfOpenMaxCalls (config b)" "admit now ev b = (r, b')"
  shows "halfOpenCalls b' \<le> HalfOpenMaxCalls (config b)"
    "r = Admitted StateHalfOpen \<Longrightarrow>
       unat (halfOpenCalls b') = (if reset_due now b then 1 else Suc (unat (halfOpenCalls b)))"
    "r \<noteq> Admitted StateHalfOpen \<Longrightarrow> halfOpenCalls b' = (if reset_due now b then 0 else halfOpenCalls b)"
proof -
  let ?x = "if reset_due now b then 0 else halfOpenCalls b"
  have inc: "unat (?x + 1) = Suc (unat ?x)" "?x + 1 \<le> HalfOpenMaxCalls (config b)"
    if "?x < HalfOpenMaxCalls (config b)"
  proof -
    have lt: "unat ?x < unat (HalfOpenMaxCalls (config b))" using that by (simp only: word_less_nat_alt)
    then show u: "unat (?x + 1) = Suc (unat ?x)"
      using unat_less_pow [of "HalfOpenMaxCalls (config b)"] by (intro unat_add_one) simp
    show "?x + 1 \<le> HalfOpenMaxCalls (config b)"
      using lt u by (simp only: word_le_nat_alt)
  qed
  have one: "HalfOpenMaxCalls (config b) \<noteq> 0 \<Longrightarrow> 1 \<le> HalfOpenMaxCalls (config b)"
    by (simp add: word_le_nat_alt unat_gt_0 Suc_le_eq)
  show "halfOpenCalls b' \<le> HalfOpenMaxCalls (config b)"
    using assms inc(2) one by (auto simp: admit_def Let_def not_le split: if_splits)
  show "r = Admitted StateHalfOpen \<Longrightarrow>
       unat (halfOpenCalls b') = (if reset_due now b then 1 else Suc (unat (halfOpenCalls b)))"
    using assms inc(1) by (auto simp: admit_def Let_def not_le split: if_splits)
  show "r \<noteq> Admitted StateHalfOpen \<Longrightarrow> halfOpenCalls b' = (if reset_due now b then 0 else halfOpenCalls b)"
    using assms by (auto simp: admit_def Let_def split: if_splits)
qed

lemma count_next_period:
  assumes "\<forall>(st, p) \<in># flight s. p \<le> period s"
  shows "count (flight s) (StateHalfOpen, next_period now s)
    = (if reset_due now (brk s) then 0 else probes_in_flight s)"
  using assms by (auto simp: next_period_def probes_in_flight_def not_in_iff [symmetric])

lemma probe_inv_step [preserved]:
  assumes "breaker_step s s'" "probe_inv cfg s"
  shows "probe_inv cfg s'"
  using assms
proof (induction rule: breaker_step.induct)
  case (call_admitted now ev s st b)
  then have a: "halfOpenCalls (brk s) \<le> HalfOpenMaxCalls (config (brk s))"
    and cfg: "config b = config (brk s)"
    by (auto simp: probe_inv_def dest: admit_configD)
  have fl: "\<forall>(st, p) \<in># flight s. p \<le> period s" using call_admitted by (simp add: probe_inv_def)
  then have fl': "\<forall>(st, p) \<in># add_mset (st, next_period now s) (flight s). p \<le> next_period now s"
    by (auto simp: next_period_def)
  show ?case
    using call_admitted.prems admit_halfOpenCalls [OF a call_admitted.hyps] count_next_period [OF fl, of now] cfg fl'
    by (cases "st = StateHalfOpen") (auto simp: probe_inv_def probes_in_flight_def)
next
  case (call_rejected now ev s b)
  then have a: "halfOpenCalls (brk s) \<le> HalfOpenMaxCalls (config (brk s))"
    and cfg: "config b = config (brk s)"
    by (auto simp: probe_inv_def dest: admit_configD)
  have fl: "\<forall>(st, p) \<in># flight s. p \<le> period s" using call_rejected by (simp add: probe_inv_def)
  then have fl': "\<forall>(st, p) \<in># flight s. p \<le> next_period now s"
    by (auto simp: next_period_def)
  show ?case
    using call_rejected.prems admit_halfOpenCalls [OF a call_rejected.hyps] count_next_period [OF fl, of now] cfg fl'
    by (auto simp: probe_inv_def probes_in_flight_def)
next
  case (state_query s now ev)
  have fl: "\<forall>(st, p) \<in># flight s. p \<le> period s" using state_query by (simp add: probe_inv_def)
  then have fl': "\<forall>(st, p) \<in># flight s. p \<le> next_period now s"
    by (auto simp: next_period_def)
  show ?case
    using state_query count_next_period [OF fl, of now] fl'
    by (auto simp: probe_inv_def probes_in_flight_def State_recheck_def Let_def)
next
  case (call_completes st p s c err)
  then show ?case
    by (auto simp: probe_inv_def probes_in_flight_def dest: in_diffD)
next
  case (call_panics st p s)
  then show ?case
    by (auto simp: probe_inv_def probes_in_flight_def dest: in_diffD)
qed (auto simp: probe_inv_def probes_in_flight_def Reset_def Breaker_Health_def)

lemma reachable_probe_inv: "breaker_reachable cfg s \<Longrightarrow> probe_inv cfg s"
proof (induction rule: breaker_reachable.induct)
  case start
  have "config (New cfg) = with_defaults cfg" "halfOpenCalls (New cfg) = 0"
    by (simp_all add: New_def Let_def)
  then show ?case by (simp add: probe_inv_def probes_in_flight_def)
next
  case (step s s')
  then show ?case by (blast intro: probe_inv_step)
qed

text \<open>
  C30. However the operations of any number of goroutines interleave, with late completions,
  panics, resets and state queries, at most \<open>HalfOpenMaxCalls\<close> probes of one half-open
  period are in flight at any time.
\<close>

theorem half_open_probe_limit:
  assumes "breaker_reachable cfg s"
  shows "probes_in_flight s \<le> unat (HalfOpenMaxCalls (with_defaults cfg))"
  using reachable_probe_inv [OF assms] by (auto simp: probe_inv_def word_le_nat_alt)

theorem half_open_probe_limit_witness:
  "probes_in_flight \<lparr>brk = New sample_config, flight = {#(StateClosed, 0)#}, period = 0\<rparr>
     \<le> unat (HalfOpenMaxCalls (with_defaults sample_config))"
proof (rule half_open_probe_limit [OF breaker_reachable.step [OF breaker_reachable.start]])
  have "admit 0 0 (New sample_config) = (Admitted StateClosed, New sample_config)"
    by (simp add: admit_def reset_due_def)
  then show "breaker_step \<lparr>brk = New sample_config, flight = {#}, period = 0\<rparr>
      \<lparr>brk = New sample_config, flight = {#(StateClosed, 0)#}, period = 0\<rparr>"
    using call_admitted [of 0 0 "\<lparr>brk = New sample_config, flight = {#}, period = 0\<rparr>"]
    by (simp add: next_period_def reset_due_def)
qed

end
