(* ===== verification/Time_Window.thy ===== *)
theory Time_Window
  imports Count_Window
begin

text \<open>
  The time-based window of the circuit breaker over sequences of outcomes: the invariant of its
  ten buckets, what it holds after a silence, and what it holds under steady traffic.
\<close>

section \<open>The buckets\<close>

definition buckets_ok :: "breaker \<Rightarrow> bool" where
  "buckets_ok b \<longleftrightarrow> length (buckets b) = NumBuckets \<and> 0 < bucketDuration b"

declare buckets_ok_def [inv_defs]

lemma length_clear_buckets [simp]: "length (clear_buckets i cur bs) = length bs"
proof (induction i cur bs rule: clear_buckets.induct)
  case (1 i cur bs)
  then show ?case by (subst clear_buckets.simps) (simp add: Let_def)
qed

lemma getBucketIdx_range:
  assumes "0 < bucketDuration b"
  shows "0 \<le> getBucketIdx b t \<and> getBucketIdx b t < int NumBuckets"
proof -
  let ?n = "if t < 0 then 0 else t"
  have "?n sdiv bucketDuration b = ?n div bucketDuration b"
    using assms by (auto simp: signed_divide_int_def sgn_if)
  then have "0 \<le> ?n sdiv bucketDuration b" using assms by (simp add: pos_imp_zdiv_nonneg_iff)
  then show ?thesis by (simp add: getBucketIdx_def NumBuckets_def smod_mod_positive)
qed

lemma buckets_ok_advance [preserved]:
  "buckets_ok b \<Longrightarrow> buckets_ok (advanceTimeBasedWindow now b)"
  by (simp add: buckets_ok_def advanceTimeBasedWindow_def Let_def)

lemma buckets_ok_record [preserved]:
  "buckets_ok b \<Longrightarrow> buckets_ok (recordTimeBased ok now b)"
  using buckets_ok_advance [of b now]
  by (simp add: buckets_ok_def recordTimeBased_def Let_def)

lemma buckets_ok_record_outcome [preserved]:
  "buckets_ok b \<Longrightarrow> WindowType (config b) = WindowTimeBased \<Longrightarrow> buckets_ok (record_outcome ok now b)"
  by (simp add: record_outcome_def buckets_ok_record)

lemma buckets_ok_stats [preserved]:
  "buckets_ok b \<Longrightarrow> buckets_ok (snd (getStatsLocked now b))"
  by (simp add: getStatsLocked_def Let_def buckets_ok_advance)

lemma with_defaults_WindowDuration:
  "WindowDuration (with_defaults cfg) = (if WindowDuration cfg \<le> 0 then 60 * Second else WindowDuration cfg)"
  by (simp add: with_defaults_def Let_def)

lemma New_time:
  assumes "WindowType cfg = WindowTimeBased"
  shows "buckets (New cfg) = replicate NumBuckets empty_bucket"
    "bucketDuration (New cfg) = (if WindowDuration (with_defaults cfg) < 10 then Second
                                 else WindowDuration (with_defaults cfg) div 10)"
    "lastUpdateTime (New cfg) = zero_time" "config (New cfg) = with_defaults cfg"
    "buckets_ok (New cfg)"
proof -
  have pos: "0 < WindowDuration (with_defaults cfg)"
    by (simp add: with_defaults_WindowDuration Second_def)
  have sd: "x sdiv 10 = x div 10" if "0 < x" for x :: int
    using that by (simp add: signed_divide_int_def)
  have z: "x div 10 = 0 \<longleftrightarrow> x < 10" if "0 < x" for x :: int
    using that by linarith
  show "buckets (New cfg) = replicate NumBuckets empty_bucket"
    "lastUpdateTime (New cfg) = zero_time" "config (New cfg) = with_defaults cfg"
    using assms by (simp_all add: New_def Let_def)
  show bd: "bucketDuration (New cfg) = (if WindowDuration (with_defaults cfg) < 10 then Second
                                 else WindowDuration (with_defaults cfg) div 10)"
    using assms pos z [OF pos] by (simp add: New_def Let_def NumBuckets_def sd)
  have "length (buckets (New cfg)) = NumBuckets" using assms by (simp add: New_def Let_def)
  then show "buckets_ok (New cfg)"
    unfolding buckets_ok_def bd by (auto simp: Second_def)
qed

section \<open>Totals\<close>

definition total_success :: "breaker \<Rightarrow> u64" where
  "total_success b = sum_list (map success (buckets b))"

definition total_failure :: "breaker \<Rightarrow> u64" where
  "total_failure b = sum_list (map failure (buckets b))"

lemma sum_list_map_update:
  fixes f :: "'a \<Rightarrow> 'b::ab_group_add"
  assumes "i < length xs"
  shows "sum_list (map f (xs[i := x])) = sum_list (map f xs) - f (xs ! i) + f x"
  using assms
proof (induction xs arbitrary: i)
  case (Cons y ys)
  then show ?case by (cases i) simp_all
qed simp

lemma time_stats:
  "WindowType (config b) = WindowTimeBased \<Longrightarrow>
     fst (getStatsLocked now b)
       = (total_success (advanceTimeBasedWindow now b) + total_failure (advanceTimeBasedWindow now b),
          total_failure (advanceTimeBasedWindow now b))"
  by (simp add: getStatsLocked_def Let_def total_success_def total_failure_def)

lemma totals_record:
  assumes "buckets_ok b"
  shows "total_success (recordTimeBased ok now b)
       = total_success (advanceTimeBasedWindow now b) + (if ok then 1 else 0)"
    "total_failure (recordTimeBased ok now b)
       = total_failure (advanceTimeBasedWindow now b) + (if ok then 0 else 1)"
proof -
  have "nat (getBucketIdx (advanceTimeBasedWindow now b) t) < length (buckets (advanceTimeBasedWindow now b))" for t
    using getBucketIdx_range [of "advanceTimeBasedWindow now b" t] buckets_ok_advance [OF assms, of now]
    by (simp add: buckets_ok_def nat_less_iff)
  then show "total_success (recordTimeBased ok now b)
       = total_success (advanceTimeBasedWindow now b) + (if ok then 1 else 0)"
    "total_failure (recordTimeBased ok now b)
       = total_failure (advanceTimeBasedWindow now b) + (if ok then 0 else 1)"
    by (simp_all add: recordTimeBased_def Let_def total_success_def total_failure_def
        sum_list_map_update)
qed

lemma lastUpdateTime_record [simp]: "lastUpdateTime (recordTimeBased ok now b) = now"
  by (simp add: recordTimeBased_def Let_def)

lemma recordTimeBased_frame [simp]:
  "config (recordTimeBased ok now b) = config b"
  "bucketDuration (recordTimeBased ok now b) = bucketDuration b"
  by (simp_all add: recordTimeBased_def Let_def)

section \<open>After a silence\<close>

lemma sum_list_replicate_0: "sum_list (replicate n (0::u64)) = 0"
  by (induction n) simp_all

lemma totals_expired:
  assumes "\<not> IsZero (lastUpdateTime b)" "WindowDuration (config b) < time_Sub now (lastUpdateTime b)"
  shows "total_success (advanceTimeBasedWindow now b) = 0" "total_failure (advanceTimeBasedWindow now b) = 0"
  using assms
  by (simp_all add: advanceTimeBasedWindow_def Let_def total_success_def total_failure_def
      empty_bucket_def sum_list_replicate_0)

text \<open>
  A silence longer than the window forgets everything: when more than
  \<open>WindowDuration\<close> has passed since the last outcome, the statistics are those of an empty
  window, and a new outcome is counted alone.
\<close>

theorem time_window_forgets_after_silence:
  assumes "WindowType (config b) = WindowTimeBased" "buckets_ok b" "\<not> IsZero (lastUpdateTime b)"
    "WindowDuration (config b) < time_Sub now (lastUpdateTime b)"
  shows "fst (getStatsLocked now b) = (0, 0)
       \<and> total_success (recordTimeBased ok now b) = (if ok then 1 else 0)
       \<and> total_failure (recordTimeBased ok now b) = (if ok then 0 else 1)"
  using totals_expired [OF assms(3,4)] totals_record [OF assms(2), of ok now] time_stats [OF assms(1), of now]
  by simp

definition time_config :: breaker_config where
  "time_config = \<lparr>WindowType = WindowTimeBased, WindowSize = 0, WindowDuration = 100,
     FailureRateThreshold = Fin 50, MinimumCalls = 2, ResetTimeout = Second, HalfOpenMaxCalls = 2\<rparr>"

theorem time_window_forgets_after_silence_witness:
  "fst (getStatsLocked 201 (recordTimeBased False 100 (New time_config))) = (0, 0)"
proof -
  have "config (New time_config) = with_defaults time_config"
    by (rule New_time) (simp add: time_config_def)
  then have c: "WindowType (config (New time_config)) = WindowTimeBased"
    "WindowDuration (config (New time_config)) = 100"
    by (simp_all add: with_defaults_WindowDuration) (simp_all add: time_config_def)
  have "buckets_ok (New time_config)" by (rule New_time) (simp add: time_config_def)
  then show ?thesis
    using time_window_forgets_after_silence [of "recordTimeBased False 100 (New time_config)" 201] c
    by (simp add: buckets_ok_record IsZero_def zero_time_def time_Sub_exact max_int64_def)
qed

section \<open>Under steady traffic\<close>

text \<open>The instants of consecutive outcomes, each less than \<open>d\<close> after the one before.\<close>

fun steady :: "duration \<Rightarrow> time list \<Rightarrow> bool" where
  "steady d (t # u # ts) = (t \<le> u \<and> u - t < d \<and> steady d (u # ts))"
| "steady d ts = True"

lemma advance_small_gap:
  assumes "\<not> IsZero (lastUpdateTime b)" "lastUpdateTime b \<le> now" "now - lastUpdateTime b < bucketDuration b"
    "bucketDuration b \<le> WindowDuration (config b)"
  shows "advanceTimeBasedWindow now b = b"
proof -
  have "time_Sub now (lastUpdateTime b) < bucketDuration b"
    using assms(2,3) by (simp add: time_Sub_def clamp_int64_def min_int64_def max_int64_def)
  with assms show ?thesis by (simp add: advanceTimeBasedWindow_def Let_def)
qed

definition record_all :: "breaker \<Rightarrow> (bool \<times> time) list \<Rightarrow> breaker" where
  "record_all b outs = foldl (\<lambda>b (ok, t). recordTimeBased ok t b) b outs"

lemma totals_steady:
  assumes "buckets_ok b" "0 \<le> lastUpdateTime b" "bucketDuration b \<le> WindowDuration (config b)"
    "steady (bucketDuration b) (lastUpdateTime b # map snd outs)"
  shows "total_success (record_all b outs) = total_success b + of_nat (count_list (map fst outs) True)
       \<and> total_failure (record_all b outs) = total_failure b + of_nat (count_list (map fst outs) False)
       \<and> lastUpdateTime (record_all b outs) = last (lastUpdateTime b # map snd outs)
       \<and> config (record_all b outs) = config b \<and> bucketDuration (record_all b outs) = bucketDuration b"
  using assms
proof (induction outs arbitrary: b)
  case (Cons o1 outs)
  obtain ok t where o1: "o1 = (ok, t)" by fastforce
  let ?b = "recordTimeBased ok t b"
  have nz: "\<not> IsZero (lastUpdateTime b)" using Cons.prems(2) by (auto simp: IsZero_def zero_time_def)
  have "advanceTimeBasedWindow t b = b"
    using Cons.prems nz by (intro advance_small_gap) (auto simp: o1)
  then have t: "total_success ?b = total_success b + (if ok then 1 else 0)"
    "total_failure ?b = total_failure b + (if ok then 0 else 1)"
    using totals_record [OF Cons.prems(1), of ok t] by simp_all
  have "0 \<le> t" "steady (bucketDuration ?b) (t # map snd outs)" using Cons.prems by (auto simp: o1)
  with Cons.IH [of ?b] Cons.prems buckets_ok_record [OF Cons.prems(1), of ok t] t show ?case
    by (simp add: o1 record_all_def add.assoc)
qed (simp add: record_all_def)

text \<open>
  C34. Under steady traffic the time-based window never slides. While consecutive outcomes are
  less than one bucket apart (a tenth of \<open>WindowDuration\<close>), no bucket is ever cleared: however
  long that lasts, the statistics count every outcome since the first one, not those of the last
  \<open>WindowDuration\<close>.
\<close>

theorem time_window_never_slides_under_steady_traffic:
  assumes "WindowType cfg = WindowTimeBased" "10 \<le> WindowDuration cfg" "0 \<le> t0"
    "steady (WindowDuration cfg div 10) (t0 # map snd outs @ [now])"
  shows "fst (getStatsLocked now (record_all (New cfg) ((ok0, t0) # outs)))
     = (of_nat (Suc (length outs)), of_nat (count_list (ok0 # map fst outs) False))"
proof -
  let ?d = "WindowDuration cfg div 10" and ?b = "recordTimeBased ok0 t0 (New cfg)"
  let ?e = "record_all ?b outs"
  have wd: "WindowDuration (with_defaults cfg) = WindowDuration cfg"
    using assms(2) by (simp add: with_defaults_WindowDuration)
  note N = New_time [OF assms(1)]
  have bd: "bucketDuration ?b = ?d" "config ?b = with_defaults cfg" "buckets_ok ?b"
    using N assms(2) by (simp_all add: wd buckets_ok_record)
  have le: "?d \<le> WindowDuration cfg" using assms(2) by linarith
  have "total_success (New cfg) = 0" "total_failure (New cfg) = 0"
    "advanceTimeBasedWindow t0 (New cfg) = (New cfg)\<lparr>lastUpdateTime := t0\<rparr>"
    using N by (simp_all add: total_success_def total_failure_def empty_bucket_def
        sum_list_replicate_0 advanceTimeBasedWindow_def IsZero_def)
  then have tot: "total_success ?b = (if ok0 then 1 else 0)" "total_failure ?b = (if ok0 then 0 else 1)"
    using totals_record [OF N(5), of ok0 t0] by (simp_all add: total_success_def total_failure_def)
  have split: "steady d (xs @ [x]) \<longleftrightarrow> steady d xs \<and> (xs = [] \<or> last xs \<le> x \<and> x - last xs < d)" for d xs x
    by (induction d xs rule: steady.induct) auto
  have st: "steady ?d (t0 # map snd outs)" "last (t0 # map snd outs) \<le> now"
    "now - last (t0 # map snd outs) < ?d"
    using assms(4) split [of ?d "t0 # map snd outs" now] by simp_all
  have S: "total_success ?e = total_success ?b + of_nat (count_list (map fst outs) True)"
    "total_failure ?e = total_failure ?b + of_nat (count_list (map fst outs) False)"
    "lastUpdateTime ?e = last (t0 # map snd outs)" "config ?e = with_defaults cfg" "bucketDuration ?e = ?d"
    using totals_steady [of ?b outs] bd st(1) assms(3) le by (simp_all add: wd)
  have mono: "steady ?d (t # us) \<Longrightarrow> t \<le> last (t # us)" for t us
    by (induction us arbitrary: t) (auto intro: order_trans)
  have "\<not> IsZero (lastUpdateTime ?e)"
    using mono [OF st(1)] assms(3) S(3) by (simp add: IsZero_def zero_time_def)
  then have "advanceTimeBasedWindow now ?e = ?e"
    using S st le wd by (intro advance_small_gap) auto
  moreover have "of_nat (count_list bs True) + of_nat (count_list bs False) = (of_nat (length bs) :: u64)" for bs
    by (induction bs) (auto simp: algebra_simps)
  ultimately show ?thesis
    using time_stats [of ?e now] S tot assms(1)
    by (simp add: record_all_def add.assoc [symmetric])
qed

text \<open>A window of 100 nanoseconds, and 41 failures spread evenly over 200 nanoseconds.\<close>

theorem time_window_never_slides_under_steady_traffic_witness:
  "fst (getStatsLocked 1205 (record_all (New time_config)
      ((False, 1000) # map (\<lambda>i. (False, 1000 + 5 * int i)) [1..<41]))) = (41, 41)"
proof -
  let ?outs = "map (\<lambda>i. (False, 1000 + 5 * int i)) [1..<41]"
  have "steady 10 (1000 # map snd ?outs @ [1205])" by (simp add: upt_rec)
  moreover have "count_list (False # map fst ?outs) False = 41" by (simp add: upt_rec)
  ultimately show ?thesis
    using time_window_never_slides_under_steady_traffic [of time_config 1000 ?outs 1205 False]
    by (simp add: time_config_def)
qed

end
