(* ===== verification/Breaker_Shape.thy ===== *)
theory Breaker_Shape
  imports Breaker_Runs Time_Window
begin

text \<open>
  The well-formedness of a circuit breaker with either window, and that every operation of
  \<^verbatim>\<open>circuit/breaker.go\<close> keeps it: what makes every slice index of the code in range,
  every divisor nonzero and every counter consistent.
\<close>

definition window_ok :: "breaker \<Rightarrow> bool" where
  "window_ok b \<longleftrightarrow>
     (case WindowType (config b) of
        WindowCountBased \<Rightarrow> (\<exists>h. window_rel h b) \<and> length (ring b) = unat (WindowSize (config b))
      | WindowTimeBased \<Rightarrow> buckets_ok b)"

lemma window_ok_same:
  "window_ok b \<Longrightarrow> config b' = config b \<Longrightarrow> ring b' = ring b \<Longrightarrow> ringIdx b' = ringIdx b \<Longrightarrow> ringFull b' = ringFull b \<Longrightarrow>
     total b' = total b \<Longrightarrow> failures b' = failures b \<Longrightarrow> buckets b' = buckets b \<Longrightarrow> bucketDuration b' = bucketDuration b \<Longrightarrow>
     window_ok b'"
  using window_rel_same [of _ b b'] by (cases "WindowType (config b)") (auto simp: window_ok_def buckets_ok_def)

lemma window_ok_New: "window_ok (New cfg)"
proof (cases "WindowType cfg")
  case WindowCountBased
  with New_count [OF this] show ?thesis by (auto simp: window_ok_def)
next
  case WindowTimeBased
  with New_time [OF this] show ?thesis by (simp add: window_ok_def)
qed

lemma window_ok_clear [preserved]:
  assumes "window_ok b"
  shows "window_ok (clearWindow b)"
proof (cases "WindowType (config b)")
  case WindowCountBased
  moreover obtain h where "window_rel h b" using assms WindowCountBased by (auto simp: window_ok_def)
  then have "0 < length (ring b)" "length (ring b) < 2 ^ 32" by (simp_all add: window_rel_def)
  with window_rel_clear WindowCountBased have "window_rel [] (clearWindow b)" by blast
  moreover have "length (ring (clearWindow b)) = length (ring b)" by (simp add: clearWindow_def)
  ultimately show ?thesis using assms by (auto simp: window_ok_def)
next
  case WindowTimeBased
  then show ?thesis using assms by (simp add: window_ok_def buckets_ok_def clearWindow_def)
qed

lemma window_ok_record [preserved]: "window_ok b \<Longrightarrow> window_ok (record_outcome ok now b)"
  by (auto simp: window_ok_def record_outcome_def split: window_type.splits intro: window_rel_put buckets_ok_record)

lemma window_ok_transitions [preserved]:
  assumes "window_ok b"
  shows "window_ok (transitionToOpen c b)" "window_ok (transitionToHalfOpen t b)" "window_ok (transitionToClosed t b)"
proof -
  have "window_ok (b\<lparr>state := s, openedAt := t'\<rparr>)" "window_ok (b\<lparr>state := s\<rparr>)" for s t'
    by (rule window_ok_same [OF assms]; simp)+
  note cl = this [THEN window_ok_clear]
  show "window_ok (transitionToOpen c b)"
    by (rule window_ok_same [OF cl(1) [of "at_open c" StateOpen]]) (simp_all add: transitionToOpen_def Let_def)
  show "window_ok (transitionToClosed t b)"
    by (rule window_ok_same [OF cl(2) [of StateClosed]]) (simp_all add: transitionToClosed_def Let_def)
  show "window_ok (transitionToHalfOpen t b)"
    by (rule window_ok_same [OF assms]) (simp_all add: transitionToHalfOpen_def Let_def)
qed

lemma window_ok_check [preserved]: 
  assumes "window_ok b"
  shows "window_ok (checkFailureRate c b)"
proof -
  have "window_ok (snd (getStatsLocked t b))" for t
    using assms by (auto simp: window_ok_def getStatsLocked_def Let_def buckets_ok_advance split: window_type.splits)
  then show ?thesis
    using assms by (auto simp: checkFailureRate_def Let_def split_beta intro: preserved)
qed

lemma window_ok_complete [preserved]:
  assumes "window_ok b"
  shows "window_ok (complete c st err b)"
proof -
  have "window_ok (b\<lparr>halfOpenFailures := f, halfOpenCompleted := n\<rparr>)" "window_ok (b\<lparr>halfOpenCompleted := n\<rparr>)" for f n
    by (rule window_ok_same [OF assms]; simp)+
  then show ?thesis
    using assms by (auto simp: complete_def onFailure_def onSuccess_def Let_def intro: preserved)
qed

lemma window_ok_admit [preserved]:
  assumes "window_ok b"
  shows "window_ok (snd (admit now ev b))"
proof -
  have "window_ok b' \<Longrightarrow> window_ok (b'\<lparr>halfOpenCalls := n\<rparr>)" for b' n
    by (erule window_ok_same; simp)
  then show ?thesis using assms by (auto simp: admit_def Let_def intro: preserved)
qed

lemma window_ok_op [preserved]: "window_ok b \<Longrightarrow> window_ok (apply_op op b)"
proof (cases op)
  case OpHealth
  then show "window_ok b \<Longrightarrow> ?thesis" by (auto simp: Breaker_Health_def elim: window_ok_same)
next
  case OpReceive
  then show "window_ok b \<Longrightarrow> ?thesis" by (auto elim: window_ok_same)
qed (auto simp: State_def State_recheck_def Reset_def Let_def intro: preserved)

lemma window_ok_ops: "window_ok b \<Longrightarrow> window_ok (snd (run_ops ops b))"
proof (induction ops arbitrary: b)
  case (Cons op ops)
  show ?case unfolding run_ops_Cons by (rule Cons.IH [OF window_ok_op [OF Cons.prems]])
qed simp

section \<open>The counters\<close>

text \<open>What the buckets hold together.\<close>

definition bucket_weight :: "bucket \<Rightarrow> nat" where
  "bucket_weight bu = unat (success bu) + unat (failure bu)"

definition recorded :: "breaker \<Rightarrow> nat" where
  "recorded b = sum_list (map bucket_weight (buckets b))"

lemma empty_weight [simp]: "bucket_weight empty_bucket = 0"
  by (simp add: bucket_weight_def empty_bucket_def)

lemma sum_weight_update: "bucket_weight x \<le> n + bucket_weight (xs ! i) \<Longrightarrow>
    sum_list (map bucket_weight (xs[i := x])) \<le> n + sum_list (map bucket_weight xs)"
proof (induction xs arbitrary: i)
  case (Cons y ys)
  then show ?case by (cases i) fastforce+
qed simp

lemma clear_buckets_weight: "sum_list (map bucket_weight (clear_buckets i cur bs)) \<le> sum_list (map bucket_weight bs)"
proof (induction i cur bs rule: clear_buckets.induct)
  case (1 i cur bs)
  have "sum_list (map bucket_weight (bs[i := empty_bucket])) \<le> sum_list (map bucket_weight bs)"
    using sum_weight_update [of empty_bucket 0] by simp
  with 1 show ?case by (subst clear_buckets.simps) (auto simp: Let_def intro: order_trans)
qed

lemma recorded_replicate [simp]: "sum_list (map bucket_weight (replicate n empty_bucket)) = 0"
  by (simp add: map_replicate sum_list_replicate)

lemma recorded_advance: "recorded (advanceTimeBasedWindow now b) \<le> recorded b"
  using clear_buckets_weight by (simp add: recorded_def advanceTimeBasedWindow_def Let_def sum_list_replicate)

lemma recorded_record: "recorded (record_outcome ok now b) \<le> Suc (recorded b)"
proof (cases "WindowType (config b)")
  case WindowTimeBased
  let ?b = "advanceTimeBasedWindow now b"
  have "unat (x + 1) \<le> Suc (unat x)" for x :: u64
    by (metis Suc_eq_plus1 unat_plus_if_size unat_1 le_add1 diff_le_self order_refl nat_le_linear)
  then have "recorded (recordTimeBased ok now b) \<le> Suc (recorded ?b)"
    using sum_weight_update [where n = 1 and xs = "buckets ?b"]
    by (simp add: recorded_def recordTimeBased_def Let_def bucket_weight_def)
  then show ?thesis using recorded_advance [of now b] WindowTimeBased by (simp add: record_outcome_def)
qed (simp add: record_outcome_def recorded_def)

text \<open>The counters after \<open>n\<close> operations.\<close>

definition counters_ok :: "nat \<Rightarrow> breaker \<Rightarrow> bool" where
  "counters_ok n b \<longleftrightarrow> halfOpenCalls b \<le> HalfOpenMaxCalls (config b) \<and> unat (halfOpenCompleted b) \<le> n
     \<and> (unat (halfOpenFailures b) \<le> unat (halfOpenCompleted b) \<or> 2 ^ 64 \<le> n) \<and> recorded b \<le> n"

lemma recorded_frame [simp]:
  "recorded (emitStateEvent s m t b) = recorded b" "recorded (transitionToHalfOpen t b) = recorded b"
  "recorded (b\<lparr>halfOpenCalls := k\<rparr>) = recorded b" "recorded (b\<lparr>halfOpenCompleted := k\<rparr>) = recorded b"
  "recorded (b\<lparr>healthCh := ch\<rparr>) = recorded b"
  by (simp_all add: recorded_def transitionToHalfOpen_def Let_def)

lemma recorded_clear: "recorded (clearWindow b) \<le> recorded b"
  by (simp add: recorded_def clearWindow_def sum_list_replicate)

lemma recorded_transitions: "recorded (transitionToOpen c b) \<le> recorded b" "recorded (transitionToClosed t b) \<le> recorded b"
  using recorded_clear [of "b\<lparr>state := StateOpen, openedAt := at_open c\<rparr>"] recorded_clear [of "b\<lparr>state := StateClosed\<rparr>"]
  by (simp_all add: transitionToOpen_def transitionToClosed_def Let_def) (simp_all add: recorded_def)

lemma counters_less: "counters_ok n b \<Longrightarrow> config b' = config b \<Longrightarrow> halfOpenCalls b' = halfOpenCalls b \<Longrightarrow>
    halfOpenCompleted b' = halfOpenCompleted b \<Longrightarrow> halfOpenFailures b' = halfOpenFailures b \<Longrightarrow> recorded b' \<le> n \<Longrightarrow>
    counters_ok n b'"
  by (simp add: counters_ok_def)

lemma counters_Suc: "counters_ok n b \<Longrightarrow> counters_ok (Suc n) b"
  by (auto simp: counters_ok_def)

lemma counters_open: "counters_ok n b \<Longrightarrow> counters_ok n (transitionToOpen c b)"
  using recorded_transitions(1) [of c b] by (rule_tac counters_less [of n b]) (simp_all add: counters_ok_def)

lemma counters_closed: "counters_ok n b \<Longrightarrow> counters_ok n (transitionToClosed t b)"
  using recorded_transitions(2) [of t b] by (rule_tac counters_less [of n b]) (simp_all add: counters_ok_def)

lemma counters_stats: "counters_ok n b \<Longrightarrow> counters_ok n (snd (getStatsLocked t b))"
  using recorded_advance [of t b]
  by (rule_tac counters_less [of n b]) (simp_all add: counters_ok_def getStatsLocked_def Let_def)

lemma counters_check: "counters_ok n b \<Longrightarrow> counters_ok n (checkFailureRate c b)"
  using counters_stats [of n b "at_stats c"] counters_open [of n "snd (getStatsLocked (at_stats c) b)" c]
  by (simp add: checkFailureRate_def Let_def split_beta)

lemma counters_record: "counters_ok n b \<Longrightarrow> counters_ok (Suc n) (record_outcome ok t b)"
  using recorded_record [of ok t b] by (auto simp: counters_ok_def)

lemma counters_half_open: "counters_ok n b \<Longrightarrow> counters_ok n (transitionToHalfOpen t b)"
  by (simp add: counters_ok_def)

lemma counters_probe:
  assumes "counters_ok n b" "f = halfOpenFailures b \<or> f = halfOpenFailures b + 1"
  shows "counters_ok (Suc n) (b\<lparr>halfOpenFailures := f, halfOpenCompleted := halfOpenCompleted b + 1\<rparr>)"
proof -
  have le: "unat (x + 1) \<le> Suc (unat x)" for x :: u64
    by (metis Suc_eq_plus1 unat_plus_if_size unat_1 le_add1 diff_le_self order_refl nat_le_linear)
  have "unat (halfOpenCompleted b + 1) = Suc (unat (halfOpenCompleted b))" if "Suc n < 2 ^ 64"
    using assms(1) that by (intro unat_add_one) (simp add: counters_ok_def)
  moreover have "unat f \<le> Suc (unat (halfOpenFailures b))" using assms(2) le by auto
  ultimately show ?thesis
    using assms(1) le [of "halfOpenCompleted b"] by (fastforce simp: counters_ok_def recorded_def)
qed

lemma counters_complete: "counters_ok n b \<Longrightarrow> counters_ok (Suc n) (complete c st err b)"
  using counters_probe [of n b "halfOpenFailures b + 1"] counters_probe [of n b "halfOpenFailures b"]
    counters_record [of n b]
  by (auto simp: complete_def onFailure_def onSuccess_def Let_def intro: counters_check counters_open counters_closed)

lemma counters_admit: "counters_ok n b \<Longrightarrow> counters_ok n (snd (admit now ev b))"
  using admit_halfOpenCalls(1) [of b now ev "fst (admit now ev b)" "snd (admit now ev b)"]
  by (auto simp: counters_ok_def admit_def Let_def)

lemma counters_op:
  assumes "counters_ok n b"
  shows "counters_ok (Suc n) (apply_op op b)"
proof -
  have channel: "counters_ok n (b\<lparr>healthCh := ch\<rparr>)" for ch
    by (rule counters_less [OF assms]) (use assms in \<open>simp_all add: counters_ok_def\<close>)
  show ?thesis
  proof (cases op)
    case (OpAdmit now ev)
    then show ?thesis using counters_Suc [OF counters_admit [OF assms]] by simp
  next
    case (OpComplete c st err)
    then show ?thesis using assms by (simp add: counters_complete)
  next
    case (OpState now now' ev)
    then show ?thesis
      using counters_Suc [OF assms] counters_Suc [OF counters_half_open [OF assms]]
      by (simp add: State_def State_recheck_def Let_def)
  next
    case (OpReset ev)
    then show ?thesis using counters_Suc [OF counters_closed [OF assms]] by (simp add: Reset_def)
  qed (simp_all add: Breaker_Health_def counters_Suc [OF channel])
qed

lemma counters_ops: "counters_ok n b \<Longrightarrow> counters_ok (n + length ops) (snd (run_ops ops b))"
proof (induction ops arbitrary: n b)
  case (Cons op ops)
  show ?case unfolding run_ops_Cons using Cons.IH [OF counters_op [OF Cons.prems], of op] by simp
qed simp

lemma counters_New: "counters_ok 0 (New cfg)"
  by (simp add: counters_ok_def recorded_def New_def Let_def map_replicate sum_list_replicate)

lemma well_formed_run:
  assumes "b = snd (run_ops ops (New cfg))"
  shows "case WindowType cfg of
      WindowCountBased \<Rightarrow>
        length (ring b) = unat (WindowSize (with_defaults cfg)) \<and> unat (ringIdx b) < length (ring b)
        \<and> unat (failures b) \<le> unat (total b) \<and> unat (total b) \<le> length (ring b)
    | WindowTimeBased \<Rightarrow>
        length (buckets b) = NumBuckets \<and> 0 < bucketDuration b
        \<and> (\<forall>t. 0 \<le> getBucketIdx b t \<and> getBucketIdx b t < int (length (buckets b)))"
    "counters_ok (length ops) b" "config b = with_defaults cfg"
proof -
  have ok: "window_ok b" unfolding assms by (rule window_ok_ops [OF window_ok_New])
  have "config (snd (run_ops ops b0)) = config b0" for b0
    by (induction ops arbitrary: b0) (simp_all add: run_ops_Cons del: run_ops.simps(2) apply_op.simps)
  then show cfg: "config b = with_defaults cfg" using assms by (simp add: New_def Let_def)
  show "counters_ok (length ops) b" using counters_ops [OF counters_New [of cfg], of ops] assms by simp
  show "case WindowType cfg of
      WindowCountBased \<Rightarrow>
        length (ring b) = unat (WindowSize (with_defaults cfg)) \<and> unat (ringIdx b) < length (ring b)
        \<and> unat (failures b) \<le> unat (total b) \<and> unat (total b) \<le> length (ring b)
    | WindowTimeBased \<Rightarrow>
        length (buckets b) = NumBuckets \<and> 0 < bucketDuration b
        \<and> (\<forall>t. 0 \<le> getBucketIdx b t \<and> getBucketIdx b t < int (length (buckets b)))"
  proof (cases "WindowType cfg")
    case WindowCountBased
    then obtain h where h: "window_rel h b" "length (ring b) = unat (WindowSize (with_defaults cfg))"
      using ok cfg by (auto simp: window_ok_def)
    have "count_list (last_n (length (ring b)) h) False \<le> length (last_n (length (ring b)) h)"
      by (rule count_le_length)
    then show ?thesis using h WindowCountBased by (simp add: window_rel_def last_n_def min_def split: if_splits)
  next
    case WindowTimeBased
    then show ?thesis using ok cfg getBucketIdx_range [of b] by (simp add: window_ok_def buckets_ok_def)
  qed
qed

text \<open>
  C32. The breaker is well formed after any sequence of operations, in any interleaving of
  goroutines, at any times of the clock. With the count-based window the ring keeps the configured
  size, its index is in range, and the counters satisfy failures \<open>\<le>\<close> total \<open>\<le>\<close> window size. With
  the time-based window there are ten buckets, the duration of a bucket, the divisor of every index
  computation, is positive, and the index of every instant, one before 1970 included, is neither
  negative nor too large; the buckets together hold no more than one outcome for each operation, so
  that neither they nor their sums wrap around. With both, no more probes are handed out than allowed,
  and of the completed probes, at most one for each operation, no more failed than completed (for fewer
  than $2^{64}$ operations). So no
  index and no division of an operation panics.
\<close>

theorem breaker_stays_well_formed:
  "let b = snd (run_ops ops (New cfg))
   in (case WindowType cfg of
        WindowCountBased \<Rightarrow>
          length (ring b) = unat (WindowSize (with_defaults cfg)) \<and> unat (ringIdx b) < length (ring b)
          \<and> unat (failures b) \<le> unat (total b) \<and> unat (total b) \<le> length (ring b)
      | WindowTimeBased \<Rightarrow>
          length (buckets b) = NumBuckets \<and> 0 < bucketDuration b
          \<and> (\<forall>t. 0 \<le> getBucketIdx b t \<and> getBucketIdx b t < int (length (buckets b)))
          \<and> sum_list (map (\<lambda>bu. unat (success bu) + unat (failure bu)) (buckets b)) \<le> length ops)
    \<and> halfOpenCalls b \<le> HalfOpenMaxCalls (with_defaults cfg)
    \<and> unat (halfOpenCompleted b) \<le> length ops
    \<and> (unat (halfOpenFailures b) \<le> unat (halfOpenCompleted b) \<or> 2 ^ 64 \<le> length ops)"
proof -
  note w = well_formed_run [OF refl, of ops cfg]
  have m: "bucket_weight = (\<lambda>bu. unat (success bu) + unat (failure bu))" by (simp add: fun_eq_iff bucket_weight_def)
  show ?thesis
    using w unfolding counters_ok_def recorded_def m by (cases "WindowType cfg") (auto simp: Let_def)
qed

end
