(* ===== verification/Window_History.thy ===== *)
theory Window_History
  imports Time_Window "HOL-Library.Sublist"
begin

text \<open>
  The time-based window of the circuit breaker against its history. The ten buckets are an
  implementation of a list of outcomes with their instants: every operation of the window has a
  counterpart on that list (\<open>forget\<close>, \<open>history_step\<close>), and the buckets count exactly what the list
  holds (\<open>counts\<close>). From there follow what the statistics always contain, and when they are the
  sliding window they are meant to be.
\<close>

section \<open>The clearing loop\<close>

text \<open>The buckets from \<open>i\<close> round the ring to \<open>cur\<close>.\<close>

definition arc :: "nat \<Rightarrow> nat \<Rightarrow> nat \<Rightarrow> bool" where
  "arc i cur j \<longleftrightarrow> (if i \<le> cur then i \<le> j \<and> j \<le> cur else i \<le> j \<or> j \<le> cur)"

lemma nth_clear_buckets:
  assumes "i < NumBuckets" "cur < NumBuckets" "length bs = NumBuckets" "j < NumBuckets"
  shows "clear_buckets i cur bs ! j = (if arc i cur j then empty_bucket else bs ! j)"
  using assms
proof (induction i cur bs rule: clear_buckets.induct)
  case (1 i cur bs)
  show ?case
  proof (cases "i = cur")
    case True
    then show ?thesis using 1 by (subst clear_buckets.simps) (auto simp: arc_def nth_list_update)
  next
    case False
    let ?bs = "bs[i := empty_bucket]" and ?i = "(i + 1) mod NumBuckets"
    have i: "?i = (if i = 9 then 0 else i + 1)" using 1(2) by (auto simp: NumBuckets_def)
    have "clear_buckets i cur bs ! j = clear_buckets ?i cur ?bs ! j"
      using False 1 by (subst clear_buckets.simps) (simp add: Let_def)
    also have "\<dots> = (if arc ?i cur j then empty_bucket else ?bs ! j)"
      using False 1(2-5) by (intro 1(1)) (simp_all add: NumBuckets_def)
    also have "\<dots> = (if arc i cur j then empty_bucket else bs ! j)"
      using False 1(2-5) unfolding i by (auto simp: arc_def nth_list_update NumBuckets_def split: if_splits)
    finally show ?thesis .
  qed
qed

text \<open>
  A bucket number is the instant divided by the duration of a bucket. When the window moves from
  number \<open>k0\<close> to \<open>k1\<close>, the place of number \<open>k\<close> in the ring is passed if the first number
  after \<open>k0\<close> with that place is at most \<open>k1\<close>.
\<close>

definition passed :: "int \<Rightarrow> int \<Rightarrow> int \<Rightarrow> bool" where
  "passed k0 k1 k \<longleftrightarrow> (k - k0 - 1) mod 10 < k1 - k0"

lemma mod_10_diff:
  fixes a c :: int
  shows "(a - c) mod 10 = (if c mod 10 \<le> a mod 10 then a mod 10 - c mod 10 else a mod 10 + 10 - c mod 10)"
proof -
  have "(a - c) mod 10 = (a mod 10 - c mod 10) mod 10" by (simp add: mod_diff_eq)
  moreover have "(x - y) mod 10 = (if y \<le> x then x - y else x + 10 - y)" if "0 \<le> x" "x < 10" "0 \<le> y" "y < 10" for x y :: int
  proof (cases "y \<le> x")
    case False
    then have "(x - y) mod 10 = (x - y + 10) mod 10" by (simp only: mod_add_self2)
    also have "\<dots> = x - y + 10" using that False by (intro mod_pos_pos_trivial) simp_all
    finally show ?thesis using False by simp
  qed (use that in simp)
  ultimately show ?thesis by simp
qed

lemma arc_distance:
  fixes a c j :: int
  assumes "0 \<le> a" "a < 10" "0 \<le> c" "c < 10" "0 \<le> j" "j < 10"
  shows "arc (nat a) (nat c) (nat j) \<longleftrightarrow>
    (if a \<le> j then j - a else j + 10 - a) \<le> (if a \<le> c then c - a else c + 10 - a)"
proof -
  have "nat a \<le> nat c \<longleftrightarrow> a \<le> c" "nat a \<le> nat j \<longleftrightarrow> a \<le> j" "nat j \<le> nat c \<longleftrightarrow> j \<le> c"
    using assms by linarith+
  then show ?thesis using assms unfolding arc_def by simp
qed

lemma arc_passed:
  assumes "k0 < k1" "k1 \<le> k0 + 10"
  shows "arc (nat ((k0 + 1) mod 10)) (nat (k1 mod 10)) (nat (k mod 10)) \<longleftrightarrow> passed k0 k1 k"
proof -
  have "(k1 - (k0 + 1)) mod 10 = k1 - (k0 + 1)" using assms by (intro mod_pos_pos_trivial) simp_all
  then have "passed k0 k1 k \<longleftrightarrow> (k - (k0 + 1)) mod 10 \<le> (k1 - (k0 + 1)) mod 10"
    by (simp add: passed_def diff_diff_eq) linarith
  then show ?thesis by (simp add: mod_10_diff arc_distance)
qed

text \<open>Only numbers at least ten before the new one are passed, and of the last ten exactly those.\<close>

lemma passed_old:
  assumes "passed k0 k1 k" "k \<le> k0"
  shows "k + 10 \<le> k1"
proof -
  have "(k - k0 - 1) div 10 \<le> - 1" using assms(2) by linarith
  moreover have "(k - k0 - 1) mod 10 = k - k0 - 1 - 10 * ((k - k0 - 1) div 10)"
    by (simp add: minus_mult_div_eq_mod)
  ultimately show ?thesis using assms(1) by (simp add: passed_def)
qed

lemma passed_iff:
  assumes "k \<le> k0" "k0 < k + 10"
  shows "passed k0 k1 k \<longleftrightarrow> k + 10 \<le> k1"
proof -
  have "(k - k0 - 1) mod 10 = (k - k0 - 1 + 10) mod 10" by (simp only: mod_add_self2)
  also have "\<dots> = k - k0 - 1 + 10" using assms by (intro mod_pos_pos_trivial) simp_all
  finally show ?thesis by (auto simp: passed_def)
qed

section \<open>The buckets as counts of a list of outcomes\<close>

type_synonym outcome = "bool \<times> time"

text \<open>The place in the ring of an instant, for buckets of duration \<open>d\<close>.\<close>

definition place :: "duration \<Rightarrow> time \<Rightarrow> nat" where
  "place d t = nat (t div d mod 10)"

lemma place_less [simp]: "place d t < NumBuckets"
  by (simp add: place_def NumBuckets_def nat_less_iff)

lemma int_place [simp]: "int (place d t) = t div d mod 10"
  by (simp add: place_def)

lemma getBucketIdx_place:
  assumes "0 \<le> t" "0 < bucketDuration b"
  shows "getBucketIdx b t = int (place (bucketDuration b) t)"
proof -
  have "t sdiv bucketDuration b = t div bucketDuration b" "0 \<le> t div bucketDuration b"
    using assms by (auto simp: signed_divide_int_def sgn_if pos_imp_zdiv_nonneg_iff)
  then show ?thesis
    using assms by (simp add: getBucketIdx_def NumBuckets_def smod_mod_positive)
qed

text \<open>What the bucket at place \<open>j\<close> holds of the outcomes \<open>H\<close>.\<close>

definition tally :: "duration \<Rightarrow> outcome list \<Rightarrow> nat \<Rightarrow> bucket" where
  "tally d H j =
     \<lparr>success = of_nat (length (filter (\<lambda>(ok, t). ok \<and> place d t = j) H)),
      failure = of_nat (length (filter (\<lambda>(ok, t). \<not> ok \<and> place d t = j) H))\<rparr>"

definition tallies :: "duration \<Rightarrow> outcome list \<Rightarrow> bucket list" where
  "tallies d H = map (tally d H) [0..<NumBuckets]"

lemma length_tallies [simp]: "length (tallies d H) = NumBuckets"
  by (simp add: tallies_def)

lemma nth_tallies [simp]: "j < NumBuckets \<Longrightarrow> tallies d H ! j = tally d H j"
  by (simp add: tallies_def)

lemma tallies_Nil: "tallies d [] = replicate NumBuckets empty_bucket"
  by (rule nth_equalityI) (simp_all add: tally_def empty_bucket_def)

definition bump :: "bool \<Rightarrow> bucket \<Rightarrow> bucket" where
  "bump ok bu = (if ok then bu\<lparr>success := success bu + 1\<rparr> else bu\<lparr>failure := failure bu + 1\<rparr>)"

lemma tallies_snoc:
  "tallies d (H @ [(ok, t)]) = (tallies d H)[place d t := bump ok (tally d H (place d t))]"
  by (rule nth_equalityI) (auto simp: nth_list_update tally_def bump_def)

lemma tallies_totals:
  "sum_list (map success (tallies d H)) = of_nat (count_list (map fst H) True)"
  "sum_list (map failure (tallies d H)) = of_nat (count_list (map fst H) False)"
proof (induction H rule: rev_induct)
  case Nil
  show "sum_list (map success (tallies d [])) = of_nat (count_list (map fst []) True)"
    "sum_list (map failure (tallies d [])) = of_nat (count_list (map fst []) False)"
    by (simp_all add: tallies_Nil empty_bucket_def sum_list_replicate_0)
next
  case (snoc o1 H)
  then show "sum_list (map success (tallies d (H @ [o1]))) = of_nat (count_list (map fst (H @ [o1])) True)"
    "sum_list (map failure (tallies d (H @ [o1]))) = of_nat (count_list (map fst (H @ [o1])) False)"
    by (cases o1; simp add: tallies_snoc sum_list_map_update bump_def)+
qed

section \<open>The operations on the history\<close>

text \<open>What advancing the window from the last update at \<open>l\<close> to \<open>now\<close> does to the outcomes it holds.\<close>

definition forget :: "duration \<Rightarrow> time \<Rightarrow> time \<Rightarrow> outcome list \<Rightarrow> outcome list" where
  "forget d l now H =
     (if 10 * d < now - l then []
      else if d \<le> now - l then filter (\<lambda>(ok, t). \<not> passed (l div d) (now div d) (t div d)) H
      else H)"

lemma passed_mod: "passed k0 k1 (k mod 10) = passed k0 k1 k"
proof -
  have "(k mod 10 - (k0 + 1)) mod 10 = (k - (k0 + 1)) mod 10" by (rule mod_diff_left_eq)
  then show ?thesis by (simp add: passed_def diff_diff_eq)
qed

lemma tally_passed:
  assumes "j < NumBuckets"
  shows "tally d (filter (\<lambda>(ok, t). \<not> passed k0 k1 (t div d)) H) j
       = (if passed k0 k1 (int j) then empty_bucket else tally d H j)"
proof -
  have "passed k0 k1 (t div d) = passed k0 k1 (int j)" if "place d t = j" for t
    using passed_mod [of k0 k1 "t div d"] that by (simp flip: int_place)
  then have "filter (\<lambda>(ok, t). P ok \<and> place d t = j) (filter (\<lambda>(ok, t). \<not> passed k0 k1 (t div d)) H)
      = (if passed k0 k1 (int j) then [] else filter (\<lambda>(ok, t). P ok \<and> place d t = j) H)" for P
    by (induction H) auto
  from this [of "\<lambda>ok. ok"] this [of Not] show ?thesis
    by (simp add: tally_def empty_bucket_def del: filter_filter)
qed

lemma advance_tallies:
  assumes "buckets b = tallies d H" "bucketDuration b = d" "WindowDuration (config b) = 10 * d" "0 < d"
    "10 * d < max_int64" "lastUpdateTime b = l" "0 \<le> l" "l \<le> now"
  shows "buckets (advanceTimeBasedWindow now b) = tallies d (forget d l now H)"
proof -
  have nz: "\<not> IsZero l" using assms(7) by (simp add: IsZero_def zero_time_def)
  have gap: "e < time_Sub now l \<longleftrightarrow> e < now - l" "e \<le> time_Sub now l \<longleftrightarrow> e \<le> now - l" if "0 \<le> e" "e \<le> 10 * d" for e
    using that assms(5,8) time_Sub_nonneg [OF assms(8)]
    by (auto simp: time_Sub_def clamp_int64_def min_int64_def max_int64_def)
  show ?thesis
  proof (cases "10 * d < now - l")
    case True
    then show ?thesis
      using assms nz gap(1) [of "10 * d"] by (simp add: advanceTimeBasedWindow_def Let_def forget_def tallies_Nil)
  next
    case le: False
    show ?thesis
    proof (cases "d \<le> now - l")
      case False
      then show ?thesis
        using assms nz le gap(1) [of "10 * d"] gap(2) [of d] by (simp add: advanceTimeBasedWindow_def Let_def forget_def)
    next
      case True
      have up: "l div d < now div d" "now div d \<le> l div d + 10"
      proof -
        have "(l + d) div d \<le> now div d" "now div d \<le> (l + 10 * d) div d"
          using True le assms(4) by (intro zdiv_mono1; simp)+
        then show "l div d < now div d" "now div d \<le> l div d + 10" using assms(4) by simp_all
      qed
      have "(int (place d l) + 1) smod 10 = (l div d + 1) mod 10"
        by (subst smod_mod_positive) (simp_all add: mod_add_left_eq)
      then have start: "nat ((int (place d l) + 1) smod int NumBuckets) = nat ((l div d + 1) mod 10)"
        by (simp only: NumBuckets_def of_nat_numeral)
      have "buckets (advanceTimeBasedWindow now b) = clear_buckets (nat ((l div d + 1) mod 10)) (place d now) (tallies d H)"
        using assms nz True le gap(1) [of "10 * d"] gap(2) [of d] start
        by (simp add: advanceTimeBasedWindow_def Let_def getBucketIdx_place del: int_place)
      also have "\<dots> = tallies d (forget d l now H)"
      proof (rule nth_equalityI)
        fix j
        assume "j < length (clear_buckets (nat ((l div d + 1) mod 10)) (place d now) (tallies d H))"
        then have j: "j < NumBuckets" by simp
        then have "nat (int j mod 10) = j" by (simp add: NumBuckets_def)
        then have a: "arc (nat ((l div d + 1) mod 10)) (place d now) j = passed (l div d) (now div d) (int j)"
          using arc_passed [OF up, of "int j"] by (simp add: place_def)
        have "nat ((l div d + 1) mod 10) < NumBuckets" by (simp add: NumBuckets_def nat_less_iff)
        then show "clear_buckets (nat ((l div d + 1) mod 10)) (place d now) (tallies d H) ! j = tallies d (forget d l now H) ! j"
          using a le True j by (simp add: nth_clear_buckets forget_def tally_passed)
      qed simp
      finally show ?thesis .
    qed
  qed
qed

text \<open>
  The operations of the window in the order the breaker performs them: an outcome is recorded, or
  the statistics are read, which advances the window too.
\<close>

datatype window_op = Outcome bool time | Reading time

fun op_time :: "window_op \<Rightarrow> time" where
  "op_time (Outcome ok t) = t"
| "op_time (Reading t) = t"

fun run_op :: "breaker \<Rightarrow> window_op \<Rightarrow> breaker" where
  "run_op b (Outcome ok t) = recordTimeBased ok t b"
| "run_op b (Reading t) = snd (getStatsLocked t b)"

definition run_ops :: "breaker \<Rightarrow> window_op list \<Rightarrow> breaker" where
  "run_ops = foldl run_op"

text \<open>Their counterparts on the history: the outcomes held, and the last update if there was one.\<close>

type_synonym history = "outcome list \<times> time option"

fun history_step :: "duration \<Rightarrow> history \<Rightarrow> window_op \<Rightarrow> history" where
  "history_step d (H, None) (Outcome ok t) = (H @ [(ok, t)], Some t)"
| "history_step d (H, None) (Reading t) = (H, Some t)"
| "history_step d (H, Some l) (Outcome ok t) = (forget d l t H @ [(ok, t)], Some t)"
| "history_step d (H, Some l) (Reading t) = (forget d l t H, Some l)"

definition counts :: "duration \<Rightarrow> breaker \<Rightarrow> history \<Rightarrow> bool" where
  "counts d b h \<longleftrightarrow> WindowType (config b) = WindowTimeBased \<and> bucketDuration b = d
     \<and> WindowDuration (config b) = 10 * d \<and> buckets b = tallies d (fst h)
     \<and> lastUpdateTime b = (case snd h of None \<Rightarrow> zero_time | Some l \<Rightarrow> l)"

lemma advance_counts:
  assumes "counts d b h" "0 < d" "10 * d < max_int64" "0 \<le> t" "\<And>l. snd h = Some l \<Longrightarrow> 0 \<le> l \<and> l \<le> t"
  shows "counts d (advanceTimeBasedWindow t b) (history_step d h (Reading t))"
proof (cases h)
  case (Pair H last)
  show ?thesis
  proof (cases last)
    case None
    then show ?thesis
      using assms(1) Pair by (simp add: counts_def advanceTimeBasedWindow_def IsZero_def)
  next
    case (Some l)
    then have l: "0 \<le> l" "l \<le> t" using assms(5) Pair by simp_all
    then have "lastUpdateTime (advanceTimeBasedWindow t b) = lastUpdateTime b"
      using assms(1) Pair Some by (simp add: counts_def advanceTimeBasedWindow_def IsZero_def zero_time_def Let_def)
    then show ?thesis
      using advance_tallies [of b d H l t] assms(1-3) l Pair Some by (simp add: counts_def)
  qed
qed

lemma run_op_counts:
  assumes "counts d b h" "0 < d" "10 * d < max_int64" "0 \<le> op_time oper"
    "\<And>l. snd h = Some l \<Longrightarrow> 0 \<le> l \<and> l \<le> op_time oper"
  shows "counts d (run_op b oper) (history_step d h oper)"
proof (cases oper)
  case (Reading t)
  then show ?thesis
    using advance_counts [OF assms(1-3), of t] assms(1,4,5) by (simp add: getStatsLocked_def Let_def counts_def [of d b])
next
  case (Outcome ok t)
  let ?b = "advanceTimeBasedWindow t b"
  have a: "counts d ?b (history_step d h (Reading t))" using Outcome assms by (intro advance_counts) simp_all
  then have "buckets (recordTimeBased ok t b) = tallies d (fst (history_step d h (Reading t)) @ [(ok, t)])"
    using assms(2,4) Outcome
    by (simp add: recordTimeBased_def Let_def counts_def getBucketIdx_place tallies_snoc bump_def del: int_place)
  moreover have "fst (history_step d h (Outcome ok t)) = fst (history_step d h (Reading t)) @ [(ok, t)]"
    "snd (history_step d h (Outcome ok t)) = Some t"
    by (cases h; cases "snd h"; simp)+
  ultimately show ?thesis using a Outcome by (simp add: counts_def)
qed

lemma run_ops_counts:
  "counts d b h \<Longrightarrow> 0 < d \<Longrightarrow> 10 * d < max_int64 \<Longrightarrow> sorted (map op_time ops) \<Longrightarrow> \<forall>oper \<in> set ops. 0 \<le> op_time oper \<Longrightarrow>
     (\<And>l oper. snd h = Some l \<Longrightarrow> oper \<in> set ops \<Longrightarrow> 0 \<le> l \<and> l \<le> op_time oper) \<Longrightarrow>
     counts d (run_ops b ops) (foldl (history_step d) h ops)"
proof (induction ops arbitrary: b h)
  case (Cons oper ops)
  have last: "snd (history_step d h oper) = Some l \<Longrightarrow> l = op_time oper \<or> snd h = Some l" for l
    by (cases h; cases "snd h"; cases oper) auto
  have "counts d (run_ops (run_op b oper) ops) (foldl (history_step d) (history_step d h oper) ops)"
  proof (rule Cons.IH)
    show "counts d (run_op b oper) (history_step d h oper)"
      using Cons.prems(1-3,5) Cons.prems(6) [of _ oper] by (intro run_op_counts) simp_all
    show "0 \<le> l \<and> l \<le> op_time o1" if "snd (history_step d h oper) = Some l" "o1 \<in> set ops" for l o1
      using last [OF that(1)] that(2) Cons.prems(4-6) by auto
  qed (use Cons.prems in auto)
  then show ?case by (simp add: run_ops_def)
qed (simp add: run_ops_def)

lemma counts_stats:
  assumes "counts d b h" "0 < d" "10 * d < max_int64" "0 \<le> t" "\<And>l. snd h = Some l \<Longrightarrow> 0 \<le> l \<and> l \<le> t"
  shows "fst (getStatsLocked t b) =
    (of_nat (length (fst (history_step d h (Reading t)))),
     of_nat (count_list (map fst (fst (history_step d h (Reading t)))) False))"
proof -
  have "(of_nat (count_list bs True) + of_nat (count_list bs False) :: u64) = of_nat (length bs)" for bs
    by (induction bs) (auto simp: algebra_simps)
  from this [of "map fst (fst (history_step d h (Reading t)))"] show ?thesis
    using advance_counts [OF assms] by (simp add: getStatsLocked_def Let_def counts_def tallies_totals)
qed

section \<open>What the statistics contain\<close>

fun outcomes :: "window_op list \<Rightarrow> outcome list" where
  "outcomes [] = []"
| "outcomes (Outcome ok t # ops) = (ok, t) # outcomes ops"
| "outcomes (Reading t # ops) = outcomes ops"

text \<open>The window as it is meant: the outcomes of the last ten bucket numbers, the current one included.\<close>

definition in_window :: "duration \<Rightarrow> time \<Rightarrow> outcome \<Rightarrow> bool" where
  "in_window d now o1 \<longleftrightarrow> now div d - 10 < snd o1 div d"

text \<open>
  Regular traffic: every operation is in the bucket of the last update, or at least the duration of
  a bucket after it.
\<close>

fun regular :: "duration \<Rightarrow> time option \<Rightarrow> window_op list \<Rightarrow> bool" where
  "regular d upd [] = True"
| "regular d None (oper # ops) = regular d (Some (op_time oper)) ops"
| "regular d (Some l) (oper # ops) =
     ((op_time oper div d = l div d \<or> d \<le> op_time oper - l)
      \<and> regular d (Some (case oper of Outcome ok t \<Rightarrow> t | Reading t \<Rightarrow> l)) ops)"

lemma in_window_mono: "0 < d \<Longrightarrow> t \<le> u \<Longrightarrow> in_window d u o1 \<Longrightarrow> in_window d t o1"
  using zdiv_mono1 [of t u d] by (simp add: in_window_def)

lemma div_add_10: "0 < (d::int) \<Longrightarrow> 10 * d \<le> t - l \<Longrightarrow> l div d + 10 \<le> t div d"
  using zdiv_mono1 [of "l + 10 * d" t d] by simp

lemma subseq_in: "subseq xs ys \<Longrightarrow> x \<in> set xs \<Longrightarrow> x \<in> set ys"
  by (auto elim: list_emb_set)

lemma subseq_forget: "subseq (forget d l t H) H"
  by (simp add: forget_def)

text \<open>Advancing drops only outcomes that have left the window, and under regular traffic all of them.\<close>

lemma forget_keeps_window:
  assumes "0 < d" "\<forall>o1 \<in> set H. snd o1 \<le> l"
  shows "filter (in_window d t) (forget d l t H) = filter (in_window d t) H"
proof -
  have old: "snd o1 div d \<le> l div d" if "o1 \<in> set H" for o1
    using assms that zdiv_mono1 [of "snd o1" l d] by simp
  consider "10 * d < t - l" | "\<not> 10 * d < t - l" "d \<le> t - l" | "\<not> d \<le> t - l" using assms(1) by linarith
  then show ?thesis
  proof cases
    case 1
    then have "l div d + 10 \<le> t div d" by (intro div_add_10 assms(1)) simp
    then have "filter (in_window d t) H = []" using old by (force simp: in_window_def filter_empty_conv)
    then show ?thesis using 1 by (simp add: forget_def)
  next
    case 2
    have "\<not> passed (l div d) (t div d) (snd o1 div d)" if "o1 \<in> set H" "in_window d t o1" for o1
      using passed_old [of "l div d" "t div d" "snd o1 div d"] old [OF that(1)] that(2) by (auto simp: in_window_def)
    then show ?thesis using 2 by (auto simp: forget_def intro: filter_cong)
  qed (use assms(1) in \<open>simp add: forget_def\<close>)
qed

lemma forget_regular:
  assumes "0 < d" "l \<le> t" "\<forall>o1 \<in> set H. snd o1 \<le> l \<and> in_window d l o1" "t div d = l div d \<or> d \<le> t - l"
  shows "\<forall>o1 \<in> set (forget d l t H). in_window d t o1"
proof
  fix o1
  assume o1: "o1 \<in> set (forget d l t H)"
  have H: "o1 \<in> set H" using subseq_forget o1 by (rule subseq_in)
  have k: "snd o1 div d \<le> l div d" "l div d < snd o1 div d + 10"
    using H assms(1,3) zdiv_mono1 [of "snd o1" l d] by (auto simp: in_window_def)
  show "in_window d t o1"
  proof (cases "d \<le> t - l")
    case True
    then have "\<not> passed (l div d) (t div d) (snd o1 div d)"
      using o1 assms(1) by (auto simp: forget_def split: if_splits)
    then show ?thesis using passed_iff [OF k] by (simp add: in_window_def)
  next
    case False
    then show ?thesis using assms(4) k by (simp add: in_window_def)
  qed
qed

text \<open>The history against all outcomes \<open>outs\<close> up to the instant \<open>u\<close>.\<close>

definition faithful :: "duration \<Rightarrow> time \<Rightarrow> outcome list \<Rightarrow> history \<Rightarrow> bool" where
  "faithful d u outs h \<longleftrightarrow> 0 \<le> u \<and> subseq (fst h) outs \<and> filter (in_window d u) (fst h) = filter (in_window d u) outs
     \<and> (\<forall>l. snd h = Some l \<longrightarrow> 0 \<le> l \<and> l \<le> u \<and> (\<forall>o1 \<in> set outs. snd o1 \<le> l)) \<and> (snd h = None \<longrightarrow> outs = [])"

definition sliding :: "duration \<Rightarrow> time \<Rightarrow> history \<Rightarrow> bool" where
  "sliding d u h \<longleftrightarrow> (\<forall>o1 \<in> set (fst h). in_window d u o1)"

lemma faithful_later:
  assumes "faithful d u outs h" "u \<le> t" "0 < d"
  shows "faithful d t outs h"
proof -
  have "filter (in_window d t) xs = filter (in_window d t) (filter (in_window d u) xs)" for xs
    using in_window_mono [OF assms(3,2)] by (auto intro: filter_cong)
  from this [of "fst h"] this [of outs] have "filter (in_window d t) (fst h) = filter (in_window d t) outs"
    using assms(1) by (simp add: faithful_def del: filter_filter)
  then show ?thesis using assms by (auto simp: faithful_def)
qed

lemma faithful_step:
  assumes "faithful d u outs h" "u \<le> op_time oper" "0 < d"
  shows "faithful d (op_time oper) (outs @ outcomes [oper]) (history_step d h oper)"
proof -
  let ?t = "op_time oper"
  have f: "faithful d ?t outs h" using assms by (rule faithful_later)
  show ?thesis
  proof (cases "snd h")
    case None
    then show ?thesis using f by (cases h; cases oper) (auto simp: faithful_def in_window_def)
  next
    case (Some l)
    have "subseq (fst h) outs" using f by (simp add: faithful_def)
    then have s: "subseq (forget d l ?t (fst h)) outs" using subseq_forget subseq_order.trans by blast
    have l: "0 \<le> l" "l \<le> ?t" "\<forall>o1 \<in> set outs. snd o1 \<le> l" using f Some by (simp_all add: faithful_def)
    then have "\<forall>o1 \<in> set (fst h). snd o1 \<le> l" using \<open>subseq (fst h) outs\<close> by (blast dest: subseq_in)
    then have w: "filter (in_window d ?t) (forget d l ?t (fst h)) = filter (in_window d ?t) outs"
      using forget_keeps_window [OF assms(3)] f by (simp add: faithful_def)
    show ?thesis
      using s w l Some assms(3) by (cases h; cases oper) (auto simp: faithful_def list_emb_append_mono intro: order_trans)
  qed
qed

lemma sliding_step:
  assumes "faithful d u outs h" "sliding d u h" "u \<le> op_time oper" "0 < d" "regular d (snd h) (oper # ops)"
  shows "sliding d (op_time oper) (history_step d h oper)" "regular d (snd (history_step d h oper)) ops"
proof -
  let ?t = "op_time oper"
  show "regular d (snd (history_step d h oper)) ops" using assms(5) by (cases h; cases "snd h"; cases oper) auto
  show "sliding d ?t (history_step d h oper)"
  proof (cases "snd h")
    case None
    then have "fst h = []" using assms(1) by (auto simp: faithful_def)
    then show ?thesis using None assms(4) by (cases h; cases oper) (auto simp: sliding_def in_window_def)
  next
    case (Some l)
    have l: "l \<le> u" "\<forall>o1 \<in> set (fst h). snd o1 \<le> l"
      using assms(1) Some by (auto simp: faithful_def dest: subseq_in)
    have "\<forall>o1 \<in> set (forget d l ?t (fst h)). in_window d ?t o1"
      using assms l Some in_window_mono [OF assms(4) l(1)] by (intro forget_regular) (auto simp: sliding_def)
    then show ?thesis using Some assms(4) by (cases h; cases oper) (auto simp: sliding_def in_window_def)
  qed
qed

lemma outcomes_Cons: "outcomes (oper # ops) = outcomes [oper] @ outcomes ops"
  by (cases oper) simp_all

lemma history_faithful:
  "faithful d u outs h \<Longrightarrow> 0 < d \<Longrightarrow> sorted (u # map op_time ops) \<Longrightarrow>
     faithful d (last (u # map op_time ops)) (outs @ outcomes ops) (foldl (history_step d) h ops)
   \<and> (sliding d u h \<longrightarrow> regular d (snd h) ops \<longrightarrow> sliding d (last (u # map op_time ops)) (foldl (history_step d) h ops))"
proof (induction ops arbitrary: u outs h)
  case (Cons oper ops)
  have u: "u \<le> op_time oper" using Cons.prems(3) by simp
  note step = faithful_step [OF Cons.prems(1) u Cons.prems(2)]
  show ?case
    using Cons.IH [OF step Cons.prems(2)] Cons.prems(3) sliding_step [OF Cons.prems(1) _ u Cons.prems(2)]
    by (simp add: outcomes_Cons [of oper ops])
qed simp

lemma sorted_last: "sorted (xs @ [now]) \<Longrightarrow> sorted (u # xs) \<Longrightarrow> u \<le> now \<Longrightarrow> last (u # xs) \<le> (now :: int)"
  by (auto simp: sorted_append)

text \<open>
  C29. What the statistics of the time-based window count. For outcomes and readings at any instants
  in order, the statistics read at \<open>now\<close> are those of a selection of the recorded outcomes that
  contains every outcome of the last ten buckets, the current one included: none of the recent
  outcomes is ever lost. If moreover every operation falls into the bucket of the last update or at
  least the duration of a bucket after it, the selection is exactly the last ten buckets, so the window
  is the sliding window it is meant to be. (\<^verbatim>\<open>WindowDuration\<close> is a multiple of ten, so that
  ten buckets are the window.)
\<close>

theorem time_window_counts_recent_outcomes:
  assumes "WindowType cfg = WindowTimeBased" "WindowDuration cfg = 10 * d" "0 < d" "10 * d < max_int64"
    "sorted (map op_time (ops @ [Reading now]))" "\<forall>oper \<in> set ops. 0 \<le> op_time oper" "0 \<le> now"
  shows "\<exists>K. fst (getStatsLocked now (run_ops (New cfg) ops)) = (of_nat (length K), of_nat (count_list (map fst K) False))
    \<and> subseq K (outcomes ops) \<and> filter (in_window d now) K = filter (in_window d now) (outcomes ops)
    \<and> (regular d None (ops @ [Reading now]) \<longrightarrow> K = filter (in_window d now) (outcomes ops))"
proof -
  let ?all = "ops @ [Reading now]" and ?start = "([], None) :: history"
  let ?h = "foldl (history_step d) ?start ops" and ?h' = "foldl (history_step d) ?start (ops @ [Reading now])"
  have "10 * d div 10 = d" by simp
  then have c0: "counts d (New cfg) ?start"
    using New_time [OF assms(1)] assms(1-3) by (simp add: counts_def with_defaults_WindowDuration tallies_Nil)
  have c: "counts d (run_ops (New cfg) ops) ?h"
    using assms c0 by (intro run_ops_counts) (auto simp: sorted_append)
  have f0: "faithful d 0 [] ?start" "sliding d 0 ?start" by (simp_all add: faithful_def sliding_def)
  have s: "sorted (0 # map op_time ops)" using assms(5,6) by (auto simp: sorted_append)
  have f: "faithful d (last (0 # map op_time ops)) (outcomes ops) ?h"
    using history_faithful [OF f0(1) assms(3) s] by simp
  have "last (0 # map op_time ops) \<le> now"
    using assms(5-7) s by (intro sorted_last) simp_all
  then have l: "0 \<le> l \<and> l \<le> now" if "snd ?h = Some l" for l
    using f that by (auto simp: faithful_def)
  have "sorted (0 # map op_time ?all)" using assms(5-7) by (auto simp: sorted_append)
  from history_faithful [OF f0(1) assms(3) this] f0(2)
  have f': "faithful d now (outcomes ?all) ?h'" "regular d None ?all \<longrightarrow> sliding d now ?h'" by simp_all
  have o: "outcomes ?all = outcomes ops"
  proof (induction ops)
    case (Cons oper ops)
    then show ?case using outcomes_Cons [of oper "ops @ [Reading now]"] outcomes_Cons [of oper ops] by simp
  qed simp
  have "sliding d now ?h' \<longrightarrow> fst ?h' = filter (in_window d now) (fst ?h')"
    by (simp add: sliding_def filter_id_conv)
  then show ?thesis
    using counts_stats [OF c assms(3,4,7) l] f' o by (intro exI [of _ "fst ?h'"]) (auto simp: faithful_def)
qed

definition sample_traffic :: "window_op list" where
  "sample_traffic = [Outcome False 1000, Outcome True 1003, Reading 1003, Outcome False 1020, Reading 1045]"

text \<open>A window of 100 nanoseconds: of these three outcomes only the last is in it at 1105.\<close>

theorem time_window_counts_recent_outcomes_witness:
  "fst (getStatsLocked 1105 (run_ops (New time_config) sample_traffic)) = (1, 1)"
proof -
  have "regular 10 None (sample_traffic @ [Reading 1105])" by (simp add: sample_traffic_def)
  moreover have "filter (in_window 10 1105) (outcomes sample_traffic) = [(False, 1020)]"
    by (simp add: sample_traffic_def in_window_def)
  moreover have "sorted (map op_time (sample_traffic @ [Reading 1105]))" "\<forall>oper \<in> set sample_traffic. 0 \<le> op_time oper"
    by (simp_all add: sample_traffic_def)
  ultimately show ?thesis
    using time_window_counts_recent_outcomes [of time_config 10 sample_traffic 1105]
    by (auto simp: time_config_def max_int64_def)
qed

end
