(* ===== verification/Admission_Gate.thy ===== *)
theory Admission_Gate
  imports Go_Errors
begin

text \<open>
  The interface of an admission gate: a component that lets a bounded number of calls in at a
  time, refuses the others with an error, and takes each slot back when its call is over. The
  two bulkheads (\<^verbatim>\<open>bulkhead.go\<close>) and the adaptive limiter
  (\<^verbatim>\<open>adaptive_concurrency.go\<close>) provide it.

  A client is any sequence of arrivals and departures; a departure stands for the end of a call
  that is inside, by a return or by a panic. \<open>gate_run\<close> keeps the gate and, as the
  client's own account, the number of calls inside.
\<close>

datatype 'i gate_event = Arrive 'i | Depart

fun gate_run ::
  "('i \<Rightarrow> 's \<Rightarrow> go_error option \<times> 's) \<Rightarrow> ('s \<Rightarrow> 's) \<Rightarrow> 'i gate_event list \<Rightarrow> 's \<Rightarrow> nat \<Rightarrow> 's \<times> nat" where
  "gate_run enter leave [] s n = (s, n)"
| "gate_run enter leave (Arrive i # es) s n =
     (case enter i s of
        (None, s') \<Rightarrow> gate_run enter leave es s' (Suc n)
      | (Some e, s') \<Rightarrow> gate_run enter leave es s' n)"
| "gate_run enter leave (Depart # es) s n =
     (if n = 0 then gate_run enter leave es s n else gate_run enter leave es (leave s) (n - 1))"

locale admission_gate =
  fixes enter :: "'i \<Rightarrow> 's \<Rightarrow> go_error option \<times> 's"
    and leave :: "'s \<Rightarrow> 's"
    and held :: "'s \<Rightarrow> nat"
    and room :: "'s \<Rightarrow> nat"
    and ok :: "'s \<Rightarrow> bool"
  assumes enter_admits: "ok s \<Longrightarrow> enter i s = (None, s') \<Longrightarrow>
      held s < room s \<and> held s' = Suc (held s) \<and> room s' = room s \<and> ok s'"
    and enter_refuses: "ok s \<Longrightarrow> enter i s = (Some e, s') \<Longrightarrow> s' = s"
    and leave_frees: "ok s \<Longrightarrow> 0 < held s \<Longrightarrow>
      held (leave s) = held s - 1 \<and> room (leave s) = room s \<and> ok (leave s)"
begin

text \<open>The gate's own count is the number of calls inside: no slot is lost or freed twice.\<close>

lemma run_accounts:
  assumes "ok s" "held s = n"
  shows "ok (fst (gate_run enter leave es s n)) \<and>
    held (fst (gate_run enter leave es s n)) = snd (gate_run enter leave es s n) \<and>
    room (fst (gate_run enter leave es s n)) = room s"
  using assms
proof (induction es arbitrary: s n)
  case (Cons x es)
  show ?case
  proof (cases x)
    case (Arrive i)
    obtain r s' where e: "enter i s = (r, s')" by fastforce
    show ?thesis
    proof (cases r)
      case None
      then show ?thesis
        using Cons.IH [of s' "Suc n"] enter_admits [OF Cons.prems(1)] Cons.prems e Arrive by fastforce
    next
      case (Some a)
      then show ?thesis
        using Cons.IH [of s n] enter_refuses [OF Cons.prems(1)] Cons.prems e Arrive by fastforce
    qed
  next
    case Depart
    then show ?thesis
      using Cons.IH [of "leave s" "n - 1"] Cons.IH [of s n] leave_frees [OF Cons.prems(1)] Cons.prems
      by (cases "n = 0") simp_all
  qed
qed simp

text \<open>There are never more calls inside than there is room.\<close>

lemma run_bounded:
  assumes "ok s" "held s = n" "n \<le> room s"
  shows "snd (gate_run enter leave es s n) \<le> room s"
  using assms
proof (induction es arbitrary: s n)
  case (Cons x es)
  show ?case
  proof (cases x)
    case (Arrive i)
    obtain r s' where e: "enter i s = (r, s')" by fastforce
    then show ?thesis
      using Cons.IH [of s' "Suc n"] Cons.IH [of s n] enter_admits [OF Cons.prems(1)]
        enter_refuses [OF Cons.prems(1)] Cons.prems Arrive
      by (cases r) fastforce+
  next
    case Depart
    then show ?thesis
      using Cons.IH [of "leave s" "n - 1"] Cons.IH [of s n] leave_frees [OF Cons.prems(1)] Cons.prems
      by (cases "n = 0") simp_all
  qed
qed simp

text \<open>A full gate refuses.\<close>

lemma full_refuses: "ok s \<Longrightarrow> room s \<le> held s \<Longrightarrow> fst (enter i s) \<noteq> None"
  using enter_admits [of s i "snd (enter i s)"] by (cases "enter i s") auto

end

end
