(* ===== verification/Go_Context.thy ===== *)
theory Go_Context
  imports Go_Errors
begin

text \<open>
  What the program uses of package \<^verbatim>\<open>context\<close>, and the priorities it stores in
  contexts (\<^verbatim>\<open>priority.go\<close>). A context is the earliest deadline of itself and
  its ancestors, the instant at which it will be cancelled if it ever is, and the values attached to
  it: the program's own two, and the span a tracer puts there. Whether a context is done is a
  question to ask at an instant; when it is, \<^verbatim>\<open>Err\<close> tells which of the two reasons
  came first.
\<close>

type_synonym Priority = int

definition PriorityLow :: Priority where "PriorityLow = 0"
definition PriorityStandard :: Priority where "PriorityStandard = 1"
definition PriorityCritical :: Priority where "PriorityCritical = 2"

record ctx =
  ctx_deadline :: "time option"
  ctx_cancel :: "time option"
  ctx_priority :: "Priority option"
  ctx_bypass :: bool
  ctx_span :: "nat option"

definition Background :: ctx where
  "Background = \<lparr>ctx_deadline = None, ctx_cancel = None, ctx_priority = None, ctx_bypass = False, ctx_span = None\<rparr>"

definition WithPriority :: "ctx \<Rightarrow> Priority \<Rightarrow> ctx" where
  "WithPriority c p = c\<lparr>ctx_priority := Some p\<rparr>"

definition GetPriority :: "ctx \<Rightarrow> Priority" where
  "GetPriority c = (case ctx_priority c of Some p \<Rightarrow> p | None \<Rightarrow> PriorityStandard)"

definition WithTestingBypass :: "ctx \<Rightarrow> ctx" where
  "WithTestingBypass c = c\<lparr>ctx_bypass := True\<rparr>"

text \<open>\<^verbatim>\<open>context.WithTimeout\<close> at instant \<open>now\<close>: the earlier deadline wins.\<close>

definition WithTimeout_ctx :: "time \<Rightarrow> duration \<Rightarrow> ctx \<Rightarrow> ctx" where
  "WithTimeout_ctx now d c =
     c\<lparr>ctx_deadline := Some (case ctx_deadline c of
         Some d0 \<Rightarrow> if d0 < now + d then d0 else now + d | None \<Rightarrow> now + d)\<rparr>"

text \<open>\<^verbatim>\<open>ctx.Err()\<close> at an instant; the context is done when there is one.\<close>

definition ctx_Err :: "time \<Rightarrow> ctx \<Rightarrow> go_error option" where
  "ctx_Err now c =
     (let expired = (case ctx_deadline c of Some d \<Rightarrow> d \<le> now | None \<Rightarrow> False);
          cancelled = (case ctx_cancel c of Some k \<Rightarrow> k \<le> now | None \<Rightarrow> False)
      in if expired \<and> cancelled
         then Some (if the (ctx_cancel c) < the (ctx_deadline c) then Canceled else DeadlineExceeded)
         else if expired then Some DeadlineExceeded
         else if cancelled then Some Canceled
         else None)"

text \<open>The first instant at which the context is done, if there is one.\<close>

definition done_at :: "ctx \<Rightarrow> time option" where
  "done_at c = (case (ctx_deadline c, ctx_cancel c) of
      (Some d, Some k) \<Rightarrow> Some (min d k) | (Some d, None) \<Rightarrow> Some d | (None, k) \<Rightarrow> k)"

lemma ctx_Err_done: "ctx_Err now c \<noteq> None \<longleftrightarrow> (\<exists>t. done_at c = Some t \<and> t \<le> now)"
  by (auto simp: ctx_Err_def done_at_def Let_def min_def split: option.splits if_splits)

lemma ctx_Err_values: "ctx_Err now c = Some e \<Longrightarrow> e = Canceled \<or> e = DeadlineExceeded"
  by (auto simp: ctx_Err_def Let_def split: if_splits)

text \<open>Once done, a context stays done, for the same reason.\<close>

lemma ctx_Err_stable: "ctx_Err now c = Some e \<Longrightarrow> now \<le> later \<Longrightarrow> \<exists>e'. ctx_Err later c = Some e'"
  using ctx_Err_done [of now c] ctx_Err_done [of later c] by force

lemma Background_not_done [simp]: "ctx_Err now Background = None"
  by (simp add: ctx_Err_def Background_def)

lemma GetPriority_With [simp]: "GetPriority (WithPriority c p) = p"
  by (simp add: GetPriority_def WithPriority_def)

lemma WithTimeout_deadline:
  "ctx_deadline (WithTimeout_ctx now d c) = Some t \<Longrightarrow>
     t \<le> now + d \<and> (\<forall>t0. ctx_deadline c = Some t0 \<longrightarrow> t \<le> t0)"
  by (auto simp: WithTimeout_ctx_def split: option.splits)

end
