(* ===== verification/Bulkhead.thy ===== *)
theory Bulkhead
  imports Admission_Gate Go_Context Float64
begin

text \<open>
  The two bulkheads (\<^verbatim>\<open>bulkhead.go\<close>). The semaphore is a buffered channel of
  empty structs: its length is the number of calls inside. \<open>Execute\<close> enters by a
  \<^verbatim>\<open>select\<close> with a default and leaves by a deferred receive, so also when the
  action panics.

  Inputs of an entry are the error of the call's context, if it is done, and a coin: when both
  the send and \<^verbatim>\<open>ctx.Done()\<close> are ready, \<^verbatim>\<open>select\<close> picks one at random.
  The priority bulkhead looks at the length first, in a step of its own; \<open>pb_step\<close>
  interleaves such calls.
\<close>

section \<open>The semaphore\<close>

record semaphore =
  sem_len :: nat
  sem_cap :: nat

definition slot_select :: "go_error option \<times> bool \<Rightarrow> semaphore \<Rightarrow> go_error option \<times> semaphore" where
  "slot_select i s =
     (case i of (done, coin) \<Rightarrow>
        if sem_len s < sem_cap s \<and> (done = None \<or> coin)
        then (None, s\<lparr>sem_len := sem_len s + 1\<rparr>)
        else (case done of Some e \<Rightarrow> (Some e, s) | None \<Rightarrow> (Some ErrBulkheadFull, s)))"

definition slot_release :: "semaphore \<Rightarrow> semaphore" where
  "slot_release s = s\<lparr>sem_len := sem_len s - 1\<rparr>"

lemma slot_select_cases:
  "slot_select i s = (None, s') \<Longrightarrow> sem_len s < sem_cap s \<and> s' = s\<lparr>sem_len := Suc (sem_len s)\<rparr>"
  "slot_select i s = (Some e, s') \<Longrightarrow> s' = s"
  by (auto simp: slot_select_def split: if_splits prod.splits option.splits)

lemma slot_release_simps [simp]:
  "sem_len (slot_release s) = sem_len s - 1" "sem_cap (slot_release s) = sem_cap s"
  by (simp_all add: slot_release_def)

section \<open>The bulkhead\<close>

record bulkhead =
  bh_semaphore :: semaphore

definition NewBulkhead :: "nat \<Rightarrow> bulkhead" where
  "NewBulkhead capacity = \<lparr>bh_semaphore = \<lparr>sem_len = 0, sem_cap = capacity\<rparr>\<rparr>"

definition Bulkhead_enter :: "go_error option \<times> bool \<Rightarrow> bulkhead \<Rightarrow> go_error option \<times> bulkhead" where
  "Bulkhead_enter i b =
     (let (r, s) = slot_select i (bh_semaphore b) in (r, b\<lparr>bh_semaphore := s\<rparr>))"

definition Bulkhead_leave :: "bulkhead \<Rightarrow> bulkhead" where
  "Bulkhead_leave b = b\<lparr>bh_semaphore := slot_release (bh_semaphore b)\<rparr>"

declare slot_select_def [op_defs] NewBulkhead_def [op_defs] Bulkhead_enter_def [op_defs]
  Bulkhead_leave_def [op_defs]

interpretation bulkhead_gate: admission_gate Bulkhead_enter Bulkhead_leave
  "\<lambda>b. sem_len (bh_semaphore b)" "\<lambda>b. sem_cap (bh_semaphore b)" "\<lambda>_. True"
  by unfold_locales
    (auto simp: Bulkhead_enter_def Bulkhead_leave_def dest: slot_select_cases split: prod.splits)

text \<open>
  A bulkhead never has more calls inside than its capacity, and its semaphore counts exactly
  the calls inside, for every sequence of arrivals, cancelled or not, and of calls that end by a
  return or a panic: no slot leaks and none is freed twice.
\<close>

theorem bulkhead_bounds_concurrency:
  "snd (gate_run Bulkhead_enter Bulkhead_leave es (NewBulkhead capacity) 0) \<le> capacity
   \<and> sem_len (bh_semaphore (fst (gate_run Bulkhead_enter Bulkhead_leave es (NewBulkhead capacity) 0)))
     = snd (gate_run Bulkhead_enter Bulkhead_leave es (NewBulkhead capacity) 0)"
  using bulkhead_gate.run_bounded [of "NewBulkhead capacity" 0 es]
    bulkhead_gate.run_accounts [of "NewBulkhead capacity" 0 es]
  by (simp add: NewBulkhead_def)

section \<open>The priority bulkhead\<close>

record priority_bulkhead =
  pb_capacity :: nat
  pb_thresholds :: "Priority \<rightharpoonup> f64"
  pb_semaphore :: semaphore

definition NewPriorityBulkhead :: "nat \<Rightarrow> (Priority \<rightharpoonup> f64) \<Rightarrow> priority_bulkhead" where
  "NewPriorityBulkhead capacity thresholds =
     \<lparr>pb_capacity = capacity, pb_thresholds = thresholds,
      pb_semaphore = \<lparr>sem_len = 0, sem_cap = capacity\<rparr>\<rparr>"

definition utilization :: "priority_bulkhead \<Rightarrow> f64" where
  "utilization b = f64_of_int (int (sem_len (pb_semaphore b))) / f64_of_int (int (pb_capacity b))"

text \<open>The utilization check, and the whole entry when nothing happens between its two steps.\<close>

definition pb_check :: "Priority \<Rightarrow> priority_bulkhead \<Rightarrow> go_error option" where
  "pb_check priority b =
     (let threshold = (case pb_thresholds b priority of Some t \<Rightarrow> t | None \<Rightarrow> Fin 1)
      in if utilization b \<ge> Fin 1 then Some ErrBulkheadFull
         else if utilization b \<ge> threshold then Some ErrShedLoad
         else None)"

definition pb_select :: "go_error option \<times> bool \<Rightarrow> priority_bulkhead \<Rightarrow> go_error option \<times> priority_bulkhead" where
  "pb_select i b =
     (let (r, s) = slot_select i (pb_semaphore b) in (r, b\<lparr>pb_semaphore := s\<rparr>))"

definition PriorityBulkhead_enter ::
  "Priority \<times> go_error option \<times> bool \<Rightarrow> priority_bulkhead \<Rightarrow> go_error option \<times> priority_bulkhead" where
  "PriorityBulkhead_enter i b =
     (case pb_check (fst i) b of Some e \<Rightarrow> (Some e, b) | None \<Rightarrow> pb_select (snd i) b)"

definition PriorityBulkhead_leave :: "priority_bulkhead \<Rightarrow> priority_bulkhead" where
  "PriorityBulkhead_leave b = b\<lparr>pb_semaphore := slot_release (pb_semaphore b)\<rparr>"

declare NewPriorityBulkhead_def [op_defs] utilization_def [op_defs] pb_check_def [op_defs]
  pb_select_def [op_defs] PriorityBulkhead_enter_def [op_defs] PriorityBulkhead_leave_def [op_defs]

lemma pb_select_cases:
  "pb_select i b = (None, b') \<Longrightarrow> sem_len (pb_semaphore b) < sem_cap (pb_semaphore b)
     \<and> b' = b\<lparr>pb_semaphore := (pb_semaphore b)\<lparr>sem_len := Suc (sem_len (pb_semaphore b))\<rparr>\<rparr>"
  "pb_select i b = (Some e, b') \<Longrightarrow> b' = b"
  by (auto simp: pb_select_def dest: slot_select_cases split: prod.splits)

interpretation priority_gate: admission_gate PriorityBulkhead_enter PriorityBulkhead_leave
  "\<lambda>b. sem_len (pb_semaphore b)" "\<lambda>b. sem_cap (pb_semaphore b)" "\<lambda>_. True"
  by unfold_locales
    (auto simp: PriorityBulkhead_enter_def PriorityBulkhead_leave_def dest: pb_select_cases
      split: option.splits)

subsection \<open>Thresholds that are fractions of the capacity are exact\<close>

text \<open>Rounding keeps numbers of the unit interval apart that are $2^{-50}$ apart.\<close>

lemma rnd_strict_unit:
  assumes "0 \<le> x" "x + 1 / 2 ^ 50 \<le> y" "y \<le> 1"
  shows "rnd x < rnd y"
proof -
  define m where "m = \<lceil>x * 2 ^ 52\<rceil>"
  have m: "x * 2 ^ 52 \<le> of_int m" "of_int m < x * 2 ^ 52 + 1" unfolding m_def by linarith+
  have "of_int m + 1 \<le> y * 2 ^ 52" using m assms(2) by (simp add: field_simps)
  then have y: "of_int (m + 1) / 2 ^ 52 \<le> y" by (simp add: field_simps)
  have x: "x \<le> of_int m / 2 ^ 52" using m by (simp add: field_simps)
  have "(0::rat) \<le> of_int m" using m(1) assms(1) by (meson order_trans mult_nonneg_nonneg zero_le_power zero_le_numeral)
  then have m0: "0 \<le> m" by simp
  have "(of_int (m + 1) :: rat) \<le> 2 ^ 52" using y assms(3) by (simp add: field_simps)
  then have m1: "m + 1 \<le> 2 ^ 52" by (metis of_int_le_iff of_int_numeral of_int_power)
  have rep: "representable (of_int i / 2 ^ 52)" if "0 \<le> i" "i \<le> 2 ^ 52" for i
  proof (rule representable_dyadic [of _ i "- 52"])
    show "of_int i / 2 ^ 52 = of_int i * (2::rat) powi - 52" by (simp add: power_int_minus)
    have "(of_int i :: rat) \<le> 2 ^ 52" using that by (metis of_int_le_iff of_int_numeral of_int_power)
    then have "\<bar>of_int i / 2 ^ 52 :: rat\<bar> \<le> 2 powi 0" using that by simp
    also have "(2::rat) powi 0 < 2 powi 1024" by (simp only: powi_2_less_iff)
    finally show "\<bar>of_int i / 2 ^ 52 :: rat\<bar> < 2 powi 1024" .
  qed (use that in auto)
  have "rnd x \<le> Fin (of_int m / 2 ^ 52)"
    using rnd_mono [OF x] rnd_exact [OF rep [of m]] m0 m1 by simp
  moreover have "Fin (of_int (m + 1) / 2 ^ 52) \<le> rnd y"
    using rnd_mono [OF y] rnd_exact [OF rep [of "m + 1"]] m0 m1 by simp
  moreover have "(of_int m / 2 ^ 52 :: rat) < of_int (m + 1) / 2 ^ 52" by (simp add: divide_strict_right_mono)
  ultimately show ?thesis by (cases "rnd x"; cases "rnd y") auto
qed

text \<open>Comparing two float quotients of small naturals compares the numerators.\<close>

lemma quotient_le_iff:
  assumes "0 < c" "c \<le> 2 ^ 50" "k \<le> c" "l \<le> c"
  shows "f64_of_int (int k) / f64_of_int (int c) \<le> f64_of_int (int l) / f64_of_int (int c) \<longleftrightarrow> k \<le> l"
proof -
  have f: "f64_of_int (int i) = Fin (of_nat i)" if "i \<le> c" for i
  proof -
    have "i < 2 ^ 53" using that assms(2) by simp
    then have "int i < 2 ^ 53" by simp
    then show ?thesis by (simp add: f64_of_int_exact)
  qed
  let ?q = "\<lambda>i. of_nat i / of_nat c :: rat"
  have d: "f64_of_int (int i) / f64_of_int (int c) = rnd (?q i)" if "i \<le> c" for i
    using f [OF that] f [of c] assms(1) by simp
  have q: "0 \<le> ?q i" "i \<le> c \<Longrightarrow> ?q i \<le> 1" for i using assms(1) by (simp_all add: divide_le_eq_1)
  show ?thesis
  proof
    assume le: "f64_of_int (int k) / f64_of_int (int c) \<le> f64_of_int (int l) / f64_of_int (int c)"
    show "k \<le> l"
    proof (rule ccontr)
      assume "\<not> k \<le> l"
      then have "of_nat l + 1 \<le> (of_nat k :: rat)"
        by (metis Suc_leI not_le of_nat_Suc of_nat_le_iff add.commute)
      moreover have "(of_nat c :: rat) \<le> 2 ^ 50"
        using assms(2) by (metis of_nat_le_iff of_nat_numeral of_nat_power)
      then have "(1::rat) / 2 ^ 50 \<le> 1 / of_nat c" using assms(1) by (simp add: frac_le)
      ultimately have "?q l + 1 / 2 ^ 50 \<le> ?q k"
        using assms(1) by (smt (verit) add_divide_distrib divide_right_mono of_nat_0_le_iff add_left_mono order_trans)
      then have "rnd (?q l) < rnd (?q k)" using q assms by (intro rnd_strict_unit) auto
      then show False using le d assms by (cases "rnd (?q l)"; cases "rnd (?q k)") auto
    qed
  next
    assume "k \<le> l"
    then have "rnd (?q k) \<le> rnd (?q l)" by (intro rnd_mono) (simp add: divide_right_mono)
    then show "f64_of_int (int k) / f64_of_int (int c) \<le> f64_of_int (int l) / f64_of_int (int c)"
      using d assms by simp
  qed
qed

lemma check_fraction:
  assumes "0 < pb_capacity b" "pb_capacity b \<le> 2 ^ 50" "k \<le> pb_capacity b"
    "sem_len (pb_semaphore b) \<le> pb_capacity b"
    "pb_thresholds b p = Some (f64_of_int (int k) / f64_of_int (int (pb_capacity b)))"
  shows "pb_check p b =
    (if pb_capacity b \<le> sem_len (pb_semaphore b) then Some ErrBulkheadFull
     else if k \<le> sem_len (pb_semaphore b) then Some ErrShedLoad else None)"
proof -
  let ?c = "pb_capacity b"
  have "?c < 2 ^ 53" using assms(2) by simp
  then have "int ?c < 2 ^ 53" by simp
  then have "f64_of_int (int ?c) = Fin (of_nat ?c)" by (simp add: f64_of_int_exact)
  moreover have "rnd 1 = Fin 1" by (rule rnd_integral) simp_all
  ultimately have one: "f64_of_int (int ?c) / f64_of_int (int ?c) = Fin 1" using assms(1) by simp
  show ?thesis
    using quotient_le_iff [of ?c ?c "sem_len (pb_semaphore b)"]
      quotient_le_iff [of ?c k "sem_len (pb_semaphore b)"] assms one
    by (simp add: pb_check_def utilization_def)
qed

text \<open>
  C19. A threshold given as a fraction of the capacity acts at exactly that number of calls. For a
  capacity up to $2^{50}$ and the float nearest to $k/c$ as threshold, so 0.8 for four out of five,
  a call of that priority that arrives alone is let in when fewer than \<open>k\<close> calls are
  inside, shed with \<open>ErrShedLoad\<close> from \<open>k\<close> calls on, and told that the bulkhead
  is full at the capacity: the rounding of neither quotient moves the boundary.
\<close>

theorem priority_threshold_is_exact:
  assumes "0 < pb_capacity b" "pb_capacity b \<le> 2 ^ 50" "k \<le> pb_capacity b"
    "sem_len (pb_semaphore b) \<le> pb_capacity b" "sem_cap (pb_semaphore b) = pb_capacity b"
    "pb_thresholds b p = Some (f64_of_int (int k) / f64_of_int (int (pb_capacity b)))"
  shows "fst (PriorityBulkhead_enter (p, None, coin) b) =
    (if pb_capacity b \<le> sem_len (pb_semaphore b) then Some ErrBulkheadFull
     else if k \<le> sem_len (pb_semaphore b) then Some ErrShedLoad else None)"
  using check_fraction [OF assms(1-4,6)] assms(5)
  by (simp add: PriorityBulkhead_enter_def pb_select_def slot_select_def split: prod.splits)

text \<open>The literal 0.8, and a bulkhead of five slots with four calls inside.\<close>

definition four_fifths :: f64 where
  "four_fifths = rnd (4 / 5)"

definition five_slots :: priority_bulkhead where
  "five_slots = (NewPriorityBulkhead 5 [PriorityLow \<mapsto> four_fifths])
     \<lparr>pb_semaphore := \<lparr>sem_len = 4, sem_cap = 5\<rparr>\<rparr>"

theorem priority_threshold_is_exact_witness:
  "fst (PriorityBulkhead_enter (PriorityLow, None, True) five_slots) = Some ErrShedLoad"
proof -
  have "f64_of_int (int 4) / f64_of_int (int 5) = four_fifths" by (simp add: four_fifths_def f64_of_int_exact)
  then show ?thesis
    using priority_threshold_is_exact [of five_slots 4 PriorityLow True]
    by (simp add: five_slots_def NewPriorityBulkhead_def)
qed

section \<open>The soft limit under concurrency\<close>

text \<open>
  Calls that have passed the check but not yet reached the \<^verbatim>\<open>select\<close>
  (\<open>checked\<close>), and calls inside. \<open>G\<close> is the number of goroutines that may be
  between the two at once, \<open>ps\<close> the priorities that occur.
\<close>

record pb_sys =
  gate :: priority_bulkhead
  checked :: nat
  inside :: nat

inductive pb_step :: "nat \<Rightarrow> Priority list \<Rightarrow> pb_sys \<Rightarrow> pb_sys \<Rightarrow> bool" for G ps where
  check_passes: "p \<in> set ps \<Longrightarrow> pb_check p (gate s) = None \<Longrightarrow> checked s < G \<Longrightarrow>
     pb_step G ps s (s\<lparr>checked := checked s + 1\<rparr>)"
| check_refuses: "pb_check p (gate s) = Some e \<Longrightarrow> pb_step G ps s s"
| select_enters: "0 < checked s \<Longrightarrow> pb_select i (gate s) = (None, b) \<Longrightarrow>
     pb_step G ps s \<lparr>gate = b, checked = checked s - 1, inside = inside s + 1\<rparr>"
| select_refuses: "0 < checked s \<Longrightarrow> pb_select i (gate s) = (Some e, b) \<Longrightarrow>
     pb_step G ps s \<lparr>gate = b, checked = checked s - 1, inside = inside s\<rparr>"
| call_leaves: "0 < inside s \<Longrightarrow>
     pb_step G ps s \<lparr>gate = PriorityBulkhead_leave (gate s), checked = checked s, inside = inside s - 1\<rparr>"

inductive pb_reachable :: "nat \<Rightarrow> Priority list \<Rightarrow> priority_bulkhead \<Rightarrow> pb_sys \<Rightarrow> bool" for G ps b where
  pb_start: "pb_reachable G ps b \<lparr>gate = b, checked = 0, inside = 0\<rparr>"
| pb_more: "pb_reachable G ps b s \<Longrightarrow> pb_step G ps s s' \<Longrightarrow> pb_reachable G ps b s'"

definition pb_inv :: "nat \<Rightarrow> nat \<Rightarrow> priority_bulkhead \<Rightarrow> pb_sys \<Rightarrow> bool" where
  "pb_inv G k b s \<longleftrightarrow>
     pb_capacity (gate s) = pb_capacity b \<and> pb_thresholds (gate s) = pb_thresholds b \<and>
     sem_cap (pb_semaphore (gate s)) = pb_capacity b \<and>
     sem_len (pb_semaphore (gate s)) = inside s \<and> inside s \<le> pb_capacity b \<and>
     checked s \<le> G \<and> inside s + checked s \<le> k + (G - 1)"

declare pb_inv_def [inv_defs]

lemma pb_inv_step [preserved]:
  assumes "pb_step G ps s s'" "pb_inv G k b s"
    and low: "\<And>p s. p \<in> set ps \<Longrightarrow> pb_inv G k b s \<Longrightarrow> pb_check p (gate s) = None \<Longrightarrow> inside s < k"
  shows "pb_inv G k b s'"
  using assms(1,2)
proof (induction rule: pb_step.induct)
  case (check_passes p s)
  then show ?case using low [of p s] by (auto simp: pb_inv_def)
next
  case (call_leaves s)
  then show ?case by (auto simp: pb_inv_def PriorityBulkhead_leave_def)
qed (auto simp: pb_inv_def dest!: pb_select_cases)

text \<open>
  C18. The soft limit of the priority bulkhead, quantified. Let every priority in use have a
  threshold of at most $k/c$ of the capacity \<open>c\<close> and let at most \<open>G\<close> goroutines be
  between the utilization check and the \<^verbatim>\<open>select\<close> at once. In every interleaving
  at most $k + G - 1$ calls are inside, and never more than the capacity; a call that is alone
  between the two steps respects the threshold exactly.
\<close>

theorem priority_bulkhead_overshoot:
  assumes "pb_reachable G ps (NewPriorityBulkhead c ts) s" "0 < c" "c \<le> 2 ^ 50" "k \<le> c"
    "\<And>p. p \<in> set ps \<Longrightarrow> \<exists>l \<le> k. ts p = Some (f64_of_int (int l) / f64_of_int (int c))"
  shows "inside s \<le> k + (G - 1) \<and> inside s \<le> c"
proof -
  let ?b = "NewPriorityBulkhead c ts"
  have low: "inside s < k" if p: "p \<in> set ps" "pb_inv G k ?b s" "pb_check p (gate s) = None" for p s
  proof -
    obtain l where l: "l \<le> k" "ts p = Some (f64_of_int (int l) / f64_of_int (int c))"
      using assms(5) [OF p(1)] by blast
    then have "inside s < l"
      using p check_fraction [of "gate s" l p] assms(2-4)
      by (auto simp: pb_inv_def NewPriorityBulkhead_def split: if_splits)
    with l show ?thesis by simp
  qed
  from assms(1) have "pb_inv G k ?b s"
  proof induction
    case pb_start
    then show ?case by (simp add: pb_inv_def NewPriorityBulkhead_def)
  next
    case (pb_more s s')
    then show ?case using low by (blast intro: pb_inv_step)
  qed
  then show ?thesis by (simp add: pb_inv_def NewPriorityBulkhead_def)
qed

theorem priority_bulkhead_overshoot_witness:
  "inside \<lparr>gate = NewPriorityBulkhead 5 [0 \<mapsto> four_fifths], checked = 1, inside = 0\<rparr> \<le> 4 + (2 - 1)"
proof -
  have f: "f64_of_int (int 4) / f64_of_int (int 5) = four_fifths" by (simp add: four_fifths_def f64_of_int_exact)
  let ?b = "NewPriorityBulkhead 5 [0 \<mapsto> four_fifths]"
  have "pb_check 0 ?b = None"
    using check_fraction [of ?b 4 0] f by (simp add: NewPriorityBulkhead_def)
  then have "pb_reachable 2 [0] ?b \<lparr>gate = ?b, checked = 1, inside = 0\<rparr>"
    using pb_more [OF pb_start check_passes [of 0 "[0]" "\<lparr>gate = ?b, checked = 0, inside = 0\<rparr>" 2]] by simp
  then show ?thesis
    using priority_bulkhead_overshoot [of 2 "[0]" 5 "[0 \<mapsto> four_fifths]"
        "\<lparr>gate = ?b, checked = 1, inside = 0\<rparr>" 4] f by force
qed

end
