(* ===== verification/Adaptive_Limiter.thy ===== *)
theory Adaptive_Limiter
  imports Admission_Gate Health Float64 "HOL-Library.Multiset"
begin

text \<open>
  The adaptive concurrency limiter (\<^verbatim>\<open>adaptive_concurrency.go\<close>): additive increase
  and multiplicative decrease of the permitted concurrency, from smoothed round trip times.

  \<open>Execute\<close> works on two atomic 32-bit counters without the mutex: it adds itself to the
  current concurrency (\<open>al_add\<close>), compares the ticket it got with the maximum
  (\<open>al_admits\<close>), runs the action, feeds the measured time to \<open>al_update\<close>, which
  runs under the mutex, and takes itself off the counter (\<open>al_exit\<close>), as it also does after
  a refusal or a panic. \<open>oor\<close> is the implementation's result for float conversions that do
  not fit. A literal such as 0.8 is the float nearest to its value, \<^term>\<open>rnd (4 / 5)\<close>.
\<close>

section \<open>The limiter and its operations\<close>

record adaptive_limiter =
  currentConcurrency :: i32
  maxConcurrency :: i32
  minBaselineRTT :: duration
  rttEWMA :: duration
  minConcurrency :: i32
  limitScaling :: f64
  al_threshold :: f64
  alpha :: f64
  lastDecayUpdate :: time
  decayInterval :: duration
  al_healthCh :: health_channel
  prevMaxConcurrency :: i32

definition NewAdaptiveLimiter :: "time \<Rightarrow> adaptive_limiter" where
  "NewAdaptiveLimiter now =
     \<lparr>currentConcurrency = 0, maxConcurrency = 10, minBaselineRTT = 0, rttEWMA = 0,
      minConcurrency = 1, limitScaling = rnd (4 / 5), al_threshold = rnd (3 / 2),
      alpha = rnd (1 / 10), lastDecayUpdate = now, decayInterval = Minute,
      al_healthCh = None, prevMaxConcurrency = 10\<rparr>"

definition al_add :: "adaptive_limiter \<Rightarrow> i32 \<times> adaptive_limiter" where
  "al_add al = (let n = currentConcurrency al + 1 in (n, al\<lparr>currentConcurrency := n\<rparr>))"

definition al_exit :: "adaptive_limiter \<Rightarrow> adaptive_limiter" where
  "al_exit al = al\<lparr>currentConcurrency := currentConcurrency al + (- 1)\<rparr>"

definition al_admits :: "i32 \<Rightarrow> adaptive_limiter \<Rightarrow> bool" where
  "al_admits current al \<longleftrightarrow> \<not> sint current > sint (maxConcurrency al)"

definition al_emitStateEvent :: "health_state \<Rightarrow> string \<Rightarrow> time \<Rightarrow> adaptive_limiter \<Rightarrow> adaptive_limiter" where
  "al_emitStateEvent st message now al =
     al\<lparr>al_healthCh := send_event \<lparr>ev_Component = ''adaptive-limiter'', ev_State = st,
                                  ev_Timestamp = now, ev_Message = message\<rparr> (al_healthCh al)\<rparr>"

definition checkAndEmitEvent :: "bool \<Rightarrow> time \<Rightarrow> adaptive_limiter \<Rightarrow> adaptive_limiter" where
  "checkAndEmitEvent decreased now al =
     (let currentMax = maxConcurrency al;
          prev = prevMaxConcurrency al;
          al = (if decreased
                then (let threshold = f64_of_int (sint prev) * rnd (1 / 2)
                      in if f64_of_int (sint currentMax) \<le> threshold
                         then al_emitStateEvent HealthStateDegraded ''capacity decreased'' now al
                         else al)
                else (if sint currentMax > sint prev
                      then al_emitStateEvent HealthStateHealthy ''capacity increased'' now al
                      else al))
      in al\<lparr>prevMaxConcurrency := currentMax\<rparr>)"

text \<open>The reading of the clock in \<open>al_update\<close> is \<open>now\<close>, the one of an event \<open>ev\<close>.\<close>

definition al_aimd :: "(f64 \<Rightarrow> int) \<Rightarrow> time \<Rightarrow> adaptive_limiter \<Rightarrow> adaptive_limiter" where
  "al_aimd oor ev al =
     (if f64_of_int (rttEWMA al) < f64_of_int (minBaselineRTT al) * al_threshold al
      then checkAndEmitEvent False ev (al\<lparr>maxConcurrency := maxConcurrency al + 1\<rparr>)
      else (let newMax = f64_of_int (sint (maxConcurrency al)) * limitScaling al;
                newMax = (if newMax < f64_of_int (sint (minConcurrency al))
                          then f64_of_int (sint (minConcurrency al)) else newMax)
            in checkAndEmitEvent True ev
                 (al\<lparr>maxConcurrency := word_of_int (f64_to_int 32 oor newMax)\<rparr>)))"

definition al_update :: "(f64 \<Rightarrow> int) \<Rightarrow> duration \<Rightarrow> time \<Rightarrow> time \<Rightarrow> adaptive_limiter \<Rightarrow> adaptive_limiter" where
  "al_update oor rtt now ev al =
     (if minBaselineRTT al = 0 then al\<lparr>minBaselineRTT := rtt, rttEWMA := rtt\<rparr>
      else
        (let al = (if time_Sub now (lastDecayUpdate al) > decayInterval al
                   then al\<lparr>minBaselineRTT := f64_to_int 64 oor
                             (f64_of_int (minBaselineRTT al) * rnd (21 / 20)),
                           lastDecayUpdate := now\<rparr>
                   else al);
             al = (if rtt < minBaselineRTT al then al\<lparr>minBaselineRTT := rtt\<rparr> else al);
             al = al\<lparr>rttEWMA := f64_to_int 64 oor
                       ((Fin 1 - alpha al) * f64_of_int (rttEWMA al) + alpha al * f64_of_int rtt)\<rparr>
         in al_aimd oor ev al))"

definition GetMaxConcurrency :: "adaptive_limiter \<Rightarrow> i32" where
  "GetMaxConcurrency al = maxConcurrency al"

definition Limiter_Health :: "adaptive_limiter \<Rightarrow> adaptive_limiter" where
  "Limiter_Health al = al\<lparr>al_healthCh := open_health (al_healthCh al)\<rparr>"

lemmas limiter_op_defs = al_add_def al_exit_def al_admits_def al_emitStateEvent_def
  checkAndEmitEvent_def al_update_def al_aimd_def Limiter_Health_def

declare limiter_op_defs [op_defs]

section \<open>The limit\<close>

text \<open>The values of the constants of the configuration.\<close>

lemma float_constants:
  "rnd (4 / 5) = Fin (3602879701896397 / 4503599627370496)" "rnd (3 / 2) = Fin (3 / 2)"
  "rnd (1 / 2) = Fin (1 / 2)"
  by code_simp+

definition limiter_default :: "adaptive_limiter \<Rightarrow> bool" where
  "limiter_default al \<longleftrightarrow> minConcurrency al = 1 \<and> limitScaling al = rnd (4 / 5)"

lemma al_check_frame [simp]:
  "maxConcurrency (checkAndEmitEvent d t al) = maxConcurrency al"
  "currentConcurrency (checkAndEmitEvent d t al) = currentConcurrency al"
  "prevMaxConcurrency (checkAndEmitEvent d t al) = maxConcurrency al"
  "minConcurrency (checkAndEmitEvent d t al) = minConcurrency al"
  "limitScaling (checkAndEmitEvent d t al) = limitScaling al"
  by (simp_all add: checkAndEmitEvent_def al_emitStateEvent_def Let_def)

lemma update_frame [simp]:
  "currentConcurrency (al_update oor rtt now ev al) = currentConcurrency al"
  "minConcurrency (al_update oor rtt now ev al) = minConcurrency al"
  "limitScaling (al_update oor rtt now ev al) = limitScaling al"
  by (simp_all add: al_update_def al_aimd_def Let_def)

text \<open>Four fifths, in floating point and cut to an integer, is the integer quotient.\<close>

lemma trunc_four_fifths:
  assumes "0 \<le> m" "m < 2 ^ 31"
  obtains z where "f64_of_int m * rnd (4 / 5) = Fin z" "\<lfloor>z\<rfloor> = 4 * m div 5" "0 \<le> z"
proof -
  let ?a = "3602879701896397 / 4503599627370496 :: rat"
  define f where "f = 4 * m div 5"
  have f: "5 * f \<le> 4 * m" "4 * m \<le> 5 * f + 4" "0 \<le> f" "f < 2 ^ 31"
    using assms by (simp_all add: f_def)
  have "(of_int (5 * f) :: rat) \<le> of_int (4 * m)" "(of_int (4 * m) :: rat) \<le> of_int (5 * f + 4)"
    using f(1,2) by (simp_all only: of_int_le_iff)
  then have fr: "5 * of_int f \<le> 4 * (of_int m :: rat)" "4 * (of_int m :: rat) \<le> 5 * of_int f + 4"
    by simp_all
  have "(of_int m :: rat) < of_int (2 ^ 31)" "(of_int 0 :: rat) \<le> of_int m"
    using assms by (simp_all only: of_int_less_iff of_int_le_iff)
  then have mb: "(of_int m :: rat) < 2147483648" "(0::rat) \<le> of_int m" by simp_all
  have lo: "of_int f \<le> of_int m * ?a"
    using fr(1) mb(2) by (simp add: field_simps)
  have hi: "of_int m * ?a \<le> of_int (8 * f + 7) / 8"
    using fr(2) mb by (simp add: field_simps)
  have r1: "representable (of_int f)" using f by (intro representable_of_int) simp
  have r2: "representable (of_int (8 * f + 7) / 8)"
  proof (rule representable_dyadic [of _ "8 * f + 7" "- 3"])
    show "\<bar>8 * f + 7\<bar> < 2 ^ 53" using f by simp
    have "(of_int (8 * f + 7) :: rat) < of_int (2 ^ 40)" using f by (simp only: of_int_less_iff) simp
    then have "\<bar>of_int (8 * f + 7) / 8 :: rat\<bar> < 2 powi 40" using f(3) by simp
    also have "(2::rat) powi 40 < 2 powi 1024" by (simp only: powi_2_less_iff)
    finally show "\<bar>of_int (8 * f + 7) / 8 :: rat\<bar> < 2 powi 1024" .
  qed (simp_all add: power_int_minus)
  obtain z where z: "rnd (of_int m * ?a) = Fin z" "of_int f \<le> z" "z \<le> of_int (8 * f + 7) / 8"
    using rnd_bounds [OF r1 r2 lo hi] .
  have "z < of_int f + 1" using z(3) by (simp add: field_simps)
  then have "\<lfloor>z\<rfloor> = f" using z(2) by (intro floor_unique) auto
  moreover have "f64_of_int m * rnd (4 / 5) = Fin z"
    using z(1) assms by (simp add: f64_of_int_exact float_constants)
  moreover have "0 \<le> z" using z(2) f(3) by (meson of_int_0_le_iff order_trans)
  ultimately show ?thesis using that by (simp add: f_def)
qed

text \<open>What one update does to the limit.\<close>

lemma sint_add_one:
  "sint (w :: i32) < 2147483647 \<Longrightarrow> sint (w + 1) = sint w + 1"
  by (simp add: sint_word_ariths signed_take_bit_int_eq_self sint_ge [of w, simplified] 
      order_trans [OF sint_ge [of w, simplified]] add_increasing2)

lemma sint_of_small: "0 \<le> i \<Longrightarrow> i < 2147483648 \<Longrightarrow> sint (word_of_int i :: i32) = i"
  by (simp add: sint_uint signed_take_bit_int_eq_self uint_word_of_int take_bit_int_eq_self)

lemma aimd_limit:
  assumes "limiter_default al" "0 < sint (maxConcurrency al)" "sint (maxConcurrency al) < 2147483647"
  shows "sint (maxConcurrency (al_aimd oor ev al)) =
    (if f64_of_int (rttEWMA al) < f64_of_int (minBaselineRTT al) * al_threshold al
     then sint (maxConcurrency al) + 1 else max 1 (4 * sint (maxConcurrency al) div 5))"
proof -
  let ?m = "sint (maxConcurrency al)"
  obtain z where z: "f64_of_int ?m * rnd (4 / 5) = Fin z" "\<lfloor>z\<rfloor> = 4 * ?m div 5" "0 \<le> z"
    using trunc_four_fifths [of ?m] assms(2,3) by auto
  have one: "f64_of_int 1 = Fin 1" by (simp add: f64_of_int_exact)
  let ?n = "if Fin z < Fin 1 then Fin 1 else Fin z"
  have n: "f64_to_int 32 oor ?n = max 1 (4 * ?m div 5)"
  proof (cases "z < 1")
    case True
    then have "4 * ?m div 5 \<le> 0" using z(2) by linarith
    then show ?thesis using True by (simp add: trunc_rat_def)
  next
    case False
    then have "1 \<le> \<lfloor>z\<rfloor>" by (simp add: le_floor_iff)
    moreover have "\<lfloor>z\<rfloor> < 2147483648" using z(2) assms(3) by simp
    ultimately show ?thesis using False z by (simp add: trunc_rat_def Let_def)
  qed
  have "max 1 (4 * ?m div 5) < 2147483648" using assms(3) by simp
  then have "sint (word_of_int (max 1 (4 * ?m div 5)) :: i32) = max 1 (4 * ?m div 5)"
    by (intro sint_of_small) simp_all
  then show ?thesis
    using n z(1) one assms sint_add_one [OF assms(3)]
    by (cases "z < 1") (simp_all add: al_aimd_def limiter_default_def Let_def del: f64_to_int.simps)
qed

text \<open>A run of updates, each with its measured time and its clock readings.\<close>

fun al_updates :: "(f64 \<Rightarrow> int) \<Rightarrow> (duration \<times> time \<times> time) list \<Rightarrow> adaptive_limiter \<Rightarrow> adaptive_limiter" where
  "al_updates oor [] al = al"
| "al_updates oor ((rtt, now, ev) # us) al = al_updates oor us (al_update oor rtt now ev al)"

text \<open>An update is the first one, or the additive and multiplicative step after a smoothing.\<close>

lemma update_aimd:
  obtains "minBaselineRTT al = 0"
    "al_update oor rtt now ev al = al\<lparr>minBaselineRTT := rtt, rttEWMA := rtt\<rparr>"
  | al' where "al_update oor rtt now ev al = al_aimd oor ev al'" "minBaselineRTT al \<noteq> 0"
    "maxConcurrency al' = maxConcurrency al" "prevMaxConcurrency al' = prevMaxConcurrency al"
    "limiter_default al' = limiter_default al" "al_healthCh al' = al_healthCh al"
proof (cases "minBaselineRTT al = 0")
  case True
  then show ?thesis using that(1) by (simp add: al_update_def)
next
  case False
  let ?d = "if time_Sub now (lastDecayUpdate al) > decayInterval al
            then al\<lparr>minBaselineRTT := f64_to_int 64 oor (f64_of_int (minBaselineRTT al) * rnd (21 / 20)),
                    lastDecayUpdate := now\<rparr> else al"
  let ?m = "if rtt < minBaselineRTT ?d then ?d\<lparr>minBaselineRTT := rtt\<rparr> else ?d"
  let ?e = "?m\<lparr>rttEWMA := f64_to_int 64 oor
              ((Fin 1 - alpha ?m) * f64_of_int (rttEWMA ?m) + alpha ?m * f64_of_int rtt)\<rparr>"
  have "al_update oor rtt now ev al = al_aimd oor ev ?e"
    using False by (simp only: al_update_def Let_def if_False)
  then show ?thesis by (rule that(2)) (use False in \<open>simp_all add: limiter_default_def\<close>)
qed

definition limiter_inv :: "int \<Rightarrow> adaptive_limiter \<Rightarrow> bool" where
  "limiter_inv b al \<longleftrightarrow> limiter_default al \<and> 1 \<le> sint (maxConcurrency al) \<and>
     sint (maxConcurrency al) \<le> b \<and> prevMaxConcurrency al = maxConcurrency al"

declare limiter_inv_def [inv_defs]

lemma limiter_inv_update [preserved]:
  assumes "limiter_inv b al" "b < 2147483647"
  shows "limiter_inv (b + 1) (al_update oor rtt now ev al)"
proof (rule update_aimd [of al oor rtt now ev])
  assume "al_update oor rtt now ev al = al\<lparr>minBaselineRTT := rtt, rttEWMA := rtt\<rparr>"
  then show ?thesis using assms by (simp add: limiter_inv_def limiter_default_def)
next
  fix al'
  assume u: "al_update oor rtt now ev al = al_aimd oor ev al'"
    "maxConcurrency al' = maxConcurrency al" "prevMaxConcurrency al' = prevMaxConcurrency al"
    "limiter_default al' = limiter_default al"
  have "limiter_default (al_aimd oor ev al') = limiter_default al'"
    "prevMaxConcurrency (al_aimd oor ev al') = maxConcurrency (al_aimd oor ev al')"
    by (simp_all add: al_aimd_def limiter_default_def Let_def)
  moreover have "1 \<le> sint (maxConcurrency (al_aimd oor ev al'))
      \<and> sint (maxConcurrency (al_aimd oor ev al')) \<le> b + 1"
    using aimd_limit [of al' oor ev] assms u by (auto simp: limiter_inv_def)
  ultimately show ?thesis using assms u by (simp add: limiter_inv_def)
qed

lemma limiter_inv_updates [preserved]:
  "limiter_inv b al \<Longrightarrow> b + int (length us) \<le> 2147483647 \<Longrightarrow>
     limiter_inv (b + int (length us)) (al_updates oor us al)"
proof (induction us arbitrary: b al)
  case (Cons u us)
  obtain rtt now ev where u: "u = (rtt, now, ev)" by (cases u)
  show ?case
    using Cons.IH [of "b + 1" "al_update oor rtt now ev al"] Cons.prems limiter_inv_update [of b al]
    by (simp add: u ac_simps)
qed simp

lemma limiter_inv_New: "limiter_inv 10 (NewAdaptiveLimiter t)"
  by (simp add: limiter_inv_def limiter_default_def NewAdaptiveLimiter_def)

text \<open>
  The limit stays positive and never wraps around: after any number of updates up to
  $2^{31} - 11$, whatever round trip times the calls measure, even zero or negative ones, and
  whatever the clock does, the maximal concurrency lies between one and ten plus the number of
  updates, so that the limiter never closes completely.
\<close>

theorem limiter_limit_bounds:
  assumes "length us \<le> 2 ^ 31 - 11"
  shows "1 \<le> sint (GetMaxConcurrency (al_updates oor us (NewAdaptiveLimiter t)))
       \<and> sint (GetMaxConcurrency (al_updates oor us (NewAdaptiveLimiter t))) \<le> 10 + int (length us)"
  using limiter_inv_updates [OF limiter_inv_New, of us oor t] assms
  by (simp add: limiter_inv_def GetMaxConcurrency_def)

definition slow_run :: "(duration \<times> time \<times> time) list" where
  "slow_run = [(100, 1, 1), (1000, 2, 2)]"

theorem limiter_limit_bounds_witness:
  "1 \<le> sint (GetMaxConcurrency (al_updates (\<lambda>_. 0) slow_run (NewAdaptiveLimiter 0)))"
  using limiter_limit_bounds [of slow_run "\<lambda>_. 0" 0] by (simp add: slow_run_def)

text \<open>
  One update changes the limit in one of three ways: not at all, on the very first
  measurement; by one up, when the smoothed time is below one and a half of the baseline; or down
  to four fifths, rounded down, but not below one. The float multiplication and the conversion to
  32 bits are exactly this integer arithmetic.
\<close>

theorem limiter_step:
  assumes "limiter_default al" "0 < sint (maxConcurrency al)" "sint (maxConcurrency al) < 2147483647"
  shows "sint (maxConcurrency (al_update oor rtt now ev al)) = sint (maxConcurrency al) \<and> minBaselineRTT al = 0
       \<or> minBaselineRTT al \<noteq> 0 \<and>
           sint (maxConcurrency (al_update oor rtt now ev al))
             = (if f64_of_int (rttEWMA (al_update oor rtt now ev al))
                     < f64_of_int (minBaselineRTT (al_update oor rtt now ev al)) * al_threshold al
                then sint (maxConcurrency al) + 1 else max 1 (4 * sint (maxConcurrency al) div 5))"
proof (rule update_aimd [of al oor rtt now ev])
  assume "minBaselineRTT al = 0" "al_update oor rtt now ev al = al\<lparr>minBaselineRTT := rtt, rttEWMA := rtt\<rparr>"
  then show ?thesis by simp
next
  fix al'
  assume u: "al_update oor rtt now ev al = al_aimd oor ev al'" "minBaselineRTT al \<noteq> 0"
    "maxConcurrency al' = maxConcurrency al" "limiter_default al' = limiter_default al"
  have f: "rttEWMA (checkAndEmitEvent d e x) = rttEWMA x"
    "minBaselineRTT (checkAndEmitEvent d e x) = minBaselineRTT x"
    "al_threshold (checkAndEmitEvent d e x) = al_threshold x" for d e x
    by (simp_all add: checkAndEmitEvent_def al_emitStateEvent_def Let_def)
  have k: "rttEWMA (al_aimd oor ev al') = rttEWMA al'"
    "minBaselineRTT (al_aimd oor ev al') = minBaselineRTT al'"
    "al_threshold (al_aimd oor ev al') = al_threshold al'"
    by (simp_all add: al_aimd_def f Let_def)
  have "al_threshold (al_update oor rtt now ev al) = al_threshold al"
    by (simp add: al_update_def al_aimd_def f Let_def)
  then show ?thesis using aimd_limit [of al' oor ev] assms u k by simp
qed

theorem limiter_step_witness:
  "sint (maxConcurrency (al_update (\<lambda>_. 0) 1000 2 2 (al_update (\<lambda>_. 0) 100 1 1 (NewAdaptiveLimiter 0)))) \<in> {8, 10, 11}"
  using limiter_step [of "al_update (\<lambda>_. 0) 100 1 1 (NewAdaptiveLimiter 0)" "\<lambda>_. 0" 1000 2 2]
  by (auto simp: limiter_default_def NewAdaptiveLimiter_def al_update_def [of _ 100] split: if_splits)

section \<open>The events\<close>

lemma float_small_int: "\<bar>i\<bar> < 2147483648 \<Longrightarrow> f64_of_int i = Fin (of_int i)"
  by (rule f64_of_int_exact) simp

lemma half_le_iff:
  fixes m n :: int
  assumes "\<bar>m\<bar> < 2147483648" "\<bar>n\<bar> < 2147483648"
  shows "f64_of_int n \<le> f64_of_int m * rnd (1 / 2) \<longleftrightarrow> 2 * n \<le> m"
proof -
  have a: "\<bar>m\<bar> < 2 ^ 53" using assms(1) by simp
  have "\<bar>of_int m :: rat\<bar> < 2 ^ 53" using a by (metis of_int_abs of_int_less_iff of_int_numeral of_int_power)
  also have "(2::rat) ^ 53 < 2 powi 1024" using powi_2_less_iff [of 53 1024] by simp
  finally have "\<bar>of_int m / 2 :: rat\<bar> < 2 powi 1024" by simp
  then have "representable (of_int m / 2)"
    using a by (intro representable_dyadic [of _ m "- 1"]) (simp_all add: power_int_minus)
  then have "f64_of_int m * rnd (1 / 2) = Fin (of_int m / 2)"
    using assms by (simp add: float_small_int float_constants rnd_exact)
  moreover have "(of_int n :: rat) \<le> of_int m / 2 \<longleftrightarrow> 2 * n \<le> m"
    by (metis of_int_le_iff of_int_mult of_int_numeral le_divide_eq_numeral1(1) mult.commute)
  ultimately show ?thesis using assms(2) by (simp add: float_small_int)
qed

lemma sint_i32: "\<bar>sint (w :: i32)\<bar> \<le> 2147483648" "- 2147483648 \<le> sint w" "sint w < 2147483648"
  using sint_ge [of w] sint_less [of w] by (simp_all add: abs_le_iff)

text \<open>
  A history of a limiter: the entries and exits of calls, their updates with the measured time and
  two clock readings, and what a consumer of its events does.
\<close>

datatype limiter_op =
    LimiterEnter | LimiterExit | LimiterUpdate duration time time | LimiterOpenHealth | LimiterReceive

fun apply_limiter_op :: "(f64 \<Rightarrow> int) \<Rightarrow> limiter_op \<Rightarrow> adaptive_limiter \<Rightarrow> adaptive_limiter" where
  "apply_limiter_op oor LimiterEnter al = snd (al_add al)"
| "apply_limiter_op oor LimiterExit al = al_exit al"
| "apply_limiter_op oor (LimiterUpdate rtt now ev) al = al_update oor rtt now ev al"
| "apply_limiter_op oor LimiterOpenHealth al = Limiter_Health al"
| "apply_limiter_op oor LimiterReceive al = al\<lparr>al_healthCh := snd (receive_event (al_healthCh al))\<rparr>"

definition limiter_history :: "(f64 \<Rightarrow> int) \<Rightarrow> limiter_op list \<Rightarrow> adaptive_limiter \<Rightarrow> adaptive_limiter" where
  "limiter_history oor ops al = fold (apply_limiter_op oor) ops al"

lemma limiter_inv_mono: "limiter_inv b al \<Longrightarrow> b \<le> b' \<Longrightarrow> limiter_inv b' al"
  by (simp add: limiter_inv_def)

lemma limiter_inv_op:
  assumes "limiter_inv b al" "b < 2147483647"
  shows "limiter_inv (b + 1) (apply_limiter_op oor op al)"
proof (cases op)
  case (LimiterUpdate rtt now ev)
  then show ?thesis using limiter_inv_update [OF assms] by simp
qed (use assms in \<open>simp_all add: limiter_inv_def limiter_default_def al_add_def al_exit_def Limiter_Health_def Let_def\<close>)

lemma limiter_inv_history:
  "limiter_inv b al \<Longrightarrow> b + int (length ops) \<le> 2147483647 \<Longrightarrow>
     limiter_inv (b + int (length ops)) (limiter_history oor ops al)"
proof (induction ops arbitrary: b al)
  case (Cons op ops)
  then show ?case
    using Cons.IH [of "b + 1" "apply_limiter_op oor op al"] limiter_inv_op [of b al oor op]
    by (simp add: limiter_history_def ac_simps)
qed (simp add: limiter_history_def)

definition capacity_event :: "health_state \<Rightarrow> string \<Rightarrow> time \<Rightarrow> state_event" where
  "capacity_event st message ev =
     \<lparr>ev_Component = ''adaptive-limiter'', ev_State = st, ev_Timestamp = ev, ev_Message = message\<rparr>"

lemma check_event:
  assumes "sint (prevMaxConcurrency al) = m" "sint (maxConcurrency al) = m'" "0 \<le> m" "0 \<le> m'"
  shows "al_healthCh (checkAndEmitEvent decreased ev al) =
    (if \<not> decreased \<and> m < m' then send_event (capacity_event HealthStateHealthy ''capacity increased'' ev) (al_healthCh al)
     else if decreased \<and> 2 * m' \<le> m then send_event (capacity_event HealthStateDegraded ''capacity decreased'' ev) (al_healthCh al)
     else al_healthCh al)"
proof -
  have "m < 2147483648" "m' < 2147483648"
    using sint_i32(3) [of "prevMaxConcurrency al"] sint_i32(3) [of "maxConcurrency al"] assms by auto
  then have "f64_of_int m' \<le> f64_of_int m * rnd (1 / 2) \<longleftrightarrow> 2 * m' \<le> m" using assms by (intro half_le_iff) auto
  then show ?thesis
    using assms by (simp add: checkAndEmitEvent_def al_emitStateEvent_def capacity_event_def Let_def)
qed

text \<open>
  C22. The event \<open>capacity decreased\<close> is sent for one decrease only, the one from two to
  one. It is meant for a drop to half of the capacity, but the value it compares with is the limit
  before the last single step, which a decrease cuts by a fifth. Whatever the history of the limiter,
  with a consumer that receives its events or without, an update sends an event in two cases: the
  limit increased, and it is \<open>capacity increased\<close>, or it fell from two to one. A decrease from any
  other limit, however deep the limit falls in the end, sends nothing, nor does an update that leaves
  the limit at one.
\<close>

theorem limiter_reports_decrease_only_at_two:
  assumes "length ops < 2 ^ 31 - 11"
  shows "let al = limiter_history oor ops (NewAdaptiveLimiter t);
             m = sint (maxConcurrency al); m' = sint (maxConcurrency (al_update oor rtt now ev al))
         in al_healthCh (al_update oor rtt now ev al) =
              (if m < m' then send_event (capacity_event HealthStateHealthy ''capacity increased'' ev) (al_healthCh al)
               else if m = 2 \<and> m' = 1 then send_event (capacity_event HealthStateDegraded ''capacity decreased'' ev) (al_healthCh al)
               else al_healthCh al)"
proof -
  define al where "al = limiter_history oor ops (NewAdaptiveLimiter t)"
  have "limiter_inv (10 + int (length ops)) al"
    unfolding al_def using assms by (intro limiter_inv_history limiter_inv_New) simp
  then have inv: "limiter_default al" "1 \<le> sint (maxConcurrency al)" "sint (maxConcurrency al) < 2147483647"
    "prevMaxConcurrency al = maxConcurrency al"
    using assms by (simp_all add: limiter_inv_def)
  define m where "m = sint (maxConcurrency al)"
  define m' where "m' = sint (maxConcurrency (al_update oor rtt now ev al))"
  have "al_healthCh (al_update oor rtt now ev al) =
      (if m < m' then send_event (capacity_event HealthStateHealthy ''capacity increased'' ev) (al_healthCh al)
       else if m = 2 \<and> m' = 1 then send_event (capacity_event HealthStateDegraded ''capacity decreased'' ev) (al_healthCh al)
       else al_healthCh al)"
  proof (rule update_aimd [of al oor rtt now ev])
    assume "al_update oor rtt now ev al = al\<lparr>minBaselineRTT := rtt, rttEWMA := rtt\<rparr>"
    then show ?thesis by (auto simp: m_def m'_def)
  next
    fix al'
    assume u: "al_update oor rtt now ev al = al_aimd oor ev al'"
      "maxConcurrency al' = maxConcurrency al" "prevMaxConcurrency al' = prevMaxConcurrency al"
      "limiter_default al' = limiter_default al" "al_healthCh al' = al_healthCh al"
    let ?up = "f64_of_int (rttEWMA al') < f64_of_int (minBaselineRTT al') * al_threshold al'"
    have m': "m' = (if ?up then m + 1 else max 1 (4 * m div 5))"
      using aimd_limit [of al' oor ev] u inv by (simp add: m_def m'_def)
    have prev: "sint (prevMaxConcurrency al') = m" using u(3) inv(4) by (simp add: m_def)
    have m: "1 \<le> m" using inv(2) by (simp add: m_def)
    show ?thesis
    proof (cases ?up)
      case True
      let ?b = "al'\<lparr>maxConcurrency := maxConcurrency al' + 1\<rparr>"
      have step: "al_aimd oor ev al' = checkAndEmitEvent False ev ?b" using True by (simp only: al_aimd_def if_True)
      then have "sint (maxConcurrency ?b) = m'" using u(1) by (simp add: m'_def)
      from check_event [of ?b, OF _ this] prev show ?thesis
        unfolding u(1) step using m' True u(5) m by simp
    next
      case False
      let ?x = "word_of_int (f64_to_int 32 oor
          (let newMax = f64_of_int (sint (maxConcurrency al')) * limitScaling al'
           in if newMax < f64_of_int (sint (minConcurrency al'))
              then f64_of_int (sint (minConcurrency al')) else newMax)) :: i32"
      let ?b = "al'\<lparr>maxConcurrency := ?x\<rparr>"
      have step: "al_aimd oor ev al' = checkAndEmitEvent True ev ?b"
        using False by (simp only: al_aimd_def Let_def if_False)
      then have "sint (maxConcurrency ?b) = m'" using u(1) by (simp only: m'_def al_check_frame)
      from check_event [of ?b, OF _ this] prev
      have "al_healthCh (al_aimd oor ev al') =
          (if 2 * m' \<le> m then send_event (capacity_event HealthStateDegraded ''capacity decreased'' ev) (al_healthCh al) else al_healthCh al)"
        unfolding step using u(5) m m' by simp
      moreover have "\<not> m < m'" "2 * m' \<le> m \<longleftrightarrow> m = 2 \<and> m' = 1" using m' False m by simp_all arith+
      ultimately show ?thesis unfolding u(1) by simp
    qed
  qed
  then show ?thesis by (simp add: Let_def al_def m_def m'_def)
qed

text \<open>Six slow calls after a fast one: only the last, from two to one, is reported.\<close>

text \<open>After a first measurement, a slow call lowers the limit from ten to eight silently.\<close>

theorem limiter_reports_decrease_only_at_two_witness:
  "al_healthCh (al_update (\<lambda>_. 0) 1000 2 2 (limiter_history (\<lambda>_. 0) [LimiterOpenHealth, LimiterUpdate 100 1 1] (NewAdaptiveLimiter 0)))
     = Some []"
proof -
  let ?ops = "[LimiterOpenHealth, LimiterUpdate 100 1 1]"
  let ?al = "limiter_history (\<lambda>_. 0) ?ops (NewAdaptiveLimiter 0)"
  have al: "?al = (NewAdaptiveLimiter 0)\<lparr>al_healthCh := Some [], minBaselineRTT := 100, rttEWMA := 100\<rparr>"
    by (simp add: limiter_history_def NewAdaptiveLimiter_def al_update_def Limiter_Health_def open_health_def)
  have "sint (maxConcurrency (al_update (\<lambda>_. 0) 1000 2 2 ?al)) = 8" unfolding al by code_simp
  then show ?thesis
    using limiter_reports_decrease_only_at_two [of ?ops "\<lambda>_. 0" 0 1000 2 2]
    by (simp add: Let_def al) (simp add: NewAdaptiveLimiter_def)
qed

section \<open>Concurrent calls\<close>

text \<open>
  Taken alone, the entry of a call and its refusal make the limiter an admission gate.
\<close>

definition limiter_enter :: "unit \<Rightarrow> adaptive_limiter \<Rightarrow> go_error option \<times> adaptive_limiter" where
  "limiter_enter _ al =
     (let (current, al) = al_add al
      in if al_admits current al then (None, al) else (Some ErrShedLoad, al_exit al))"

definition limiter_calls :: "adaptive_limiter \<Rightarrow> nat" where
  "limiter_calls al = nat (sint (currentConcurrency al))"

definition limiter_ready :: "adaptive_limiter \<Rightarrow> bool" where
  "limiter_ready al \<longleftrightarrow> 0 \<le> sint (currentConcurrency al)
     \<and> sint (currentConcurrency al) \<le> sint (maxConcurrency al) \<and> sint (maxConcurrency al) < 2147483647"

lemma sint_sub_one: "0 < sint (w :: i32) \<Longrightarrow> sint (w + (- 1)) = sint w - 1"
  using sint_ge [of w] sint_less [of w]
  by (simp add: sint_word_ariths signed_take_bit_int_eq_self)

interpretation limiter_gate: admission_gate limiter_enter al_exit limiter_calls
  "\<lambda>al. nat (sint (maxConcurrency al))" limiter_ready
proof
  fix al i al'
  assume "limiter_ready al" "limiter_enter i al = (None, al')"
  then show "limiter_calls al < nat (sint (maxConcurrency al)) \<and> limiter_calls al' = Suc (limiter_calls al)
      \<and> nat (sint (maxConcurrency al')) = nat (sint (maxConcurrency al)) \<and> limiter_ready al'"
    using sint_add_one [of "currentConcurrency al"]
    by (auto simp: limiter_enter_def al_add_def al_admits_def limiter_ready_def limiter_calls_def Let_def
        split: if_splits)
next
  fix al i e al'
  assume "limiter_ready al" "limiter_enter i al = (Some e, al')"
  then show "al' = al"
    by (auto simp: limiter_enter_def al_add_def al_exit_def Let_def split: if_splits)
next
  fix al
  assume "limiter_ready al" "0 < limiter_calls al"
  then show "limiter_calls (al_exit al) = limiter_calls al - 1
      \<and> nat (sint (maxConcurrency (al_exit al))) = nat (sint (maxConcurrency al)) \<and> limiter_ready (al_exit al)"
    using sint_sub_one [of "currentConcurrency al"]
    by (auto simp: al_exit_def limiter_ready_def limiter_calls_def)
qed

text \<open>
  The interleavings. A call has taken its ticket and not yet compared it (\<open>waiting\<close>), or
  its action is running; at most \<open>G\<close> goroutines are in \<open>Execute\<close> at once. Updates
  by running calls happen at any time. \<open>peak\<close> is a ghost: the largest limit so far.
\<close>

record al_sys =
  lim :: adaptive_limiter
  waiting :: "i32 multiset"
  running :: "i32 multiset"
  peak :: int

inductive al_step :: "nat \<Rightarrow> al_sys \<Rightarrow> al_sys \<Rightarrow> bool" for G where
  call_arrives: "size (waiting s) + size (running s) < G \<Longrightarrow> al_add (lim s) = (t, al) \<Longrightarrow>
     al_step G s (s\<lparr>lim := al, waiting := add_mset t (waiting s)\<rparr>)"
| call_admitted: "t \<in># waiting s \<Longrightarrow> al_admits t (lim s) \<Longrightarrow>
     al_step G s (s\<lparr>waiting := waiting s - {#t#}, running := add_mset t (running s)\<rparr>)"
| call_shed: "t \<in># waiting s \<Longrightarrow> \<not> al_admits t (lim s) \<Longrightarrow>
     al_step G s (s\<lparr>lim := al_exit (lim s), waiting := waiting s - {#t#}\<rparr>)"
| limit_updated: "running s \<noteq> {#} \<Longrightarrow> al = al_update oor rtt now ev (lim s) \<Longrightarrow>
     al_step G s (s\<lparr>lim := al, peak := max (peak s) (sint (maxConcurrency al))\<rparr>)"
| call_over: "t \<in># running s \<Longrightarrow>
     al_step G s (s\<lparr>lim := al_exit (lim s), running := running s - {#t#}\<rparr>)"

inductive al_reachable :: "nat \<Rightarrow> time \<Rightarrow> al_sys \<Rightarrow> bool" for G t0 where
  al_start: "al_reachable G t0 \<lparr>lim = NewAdaptiveLimiter t0, waiting = {#}, running = {#}, peak = 10\<rparr>"
| al_more: "al_reachable G t0 s \<Longrightarrow> al_step G s s' \<Longrightarrow> al_reachable G t0 s'"

text \<open>
  The heart of the invariant: at most \<open>k\<close> calls hold tickets up to \<open>k\<close>, for every
  \<open>k\<close>, because a new ticket is one more than the number of calls there are.
\<close>

definition tickets_upto :: "int \<Rightarrow> al_sys \<Rightarrow> nat" where
  "tickets_upto k s = size (filter_mset (\<lambda>t. sint t \<le> k) (waiting s + running s))"

definition al_inv :: "nat \<Rightarrow> al_sys \<Rightarrow> bool" where
  "al_inv G s \<longleftrightarrow>
     sint (currentConcurrency (lim s)) = int (size (waiting s + running s)) \<and>
     size (waiting s + running s) \<le> G \<and>
     (\<forall>k \<ge> 0. int (tickets_upto k s) \<le> k) \<and>
     (\<forall>t \<in># running s. sint t \<le> peak s) \<and>
     sint (maxConcurrency (lim s)) \<le> peak s \<and> 0 \<le> peak s"

declare al_inv_def [inv_defs]

lemma filter_sub_le: "size (filter_mset P (A - B)) \<le> size (filter_mset P A)"
  by (simp add: size_mset_mono multiset_filter_mono)

lemma size_filter_le: "size (filter_mset P A) \<le> size A"
  by (simp add: size_mset_mono)

lemma size_posE: "t \<in># A \<Longrightarrow> (0 < size A \<Longrightarrow> R) \<Longrightarrow> R"
  by (metis multi_member_split size_add_mset zero_less_Suc)

text \<open>A call leaves, refused or finished.\<close>

lemma al_inv_exit:
  assumes "al_inv G s" "lim s' = al_exit (lim s)" "peak s' = peak s"
    "Suc (size (waiting s' + running s')) = size (waiting s + running s)"
    "\<And>k. tickets_upto k s' \<le> tickets_upto k s" "set_mset (running s') \<subseteq> set_mset (running s)"
  shows "al_inv G s'"
proof -
  have c: "sint (currentConcurrency (lim s)) = int (size (waiting s + running s))"
    using assms(1) by (simp add: al_inv_def)
  then have "0 < sint (currentConcurrency (lim s))" using assms(4) by linarith
  from sint_sub_one [OF this] c
  have "sint (currentConcurrency (lim s')) = int (size (waiting s' + running s'))"
    using assms(2,4) by (simp add: al_exit_def)
  moreover have "int (tickets_upto k s') \<le> k" if "0 \<le> k" for k
    using assms(1) assms(5) [of k] that by (meson al_inv_def of_nat_le_iff order_trans)
  ultimately show ?thesis
    using assms by (auto simp: al_inv_def al_exit_def)
qed

lemma al_inv_step [preserved]:
  assumes "al_step G s s'" "al_inv G s" "G < 2147483647"
  shows "al_inv G s'"
  using assms
proof (induction rule: al_step.induct)
  case (call_arrives s t al)
  let ?n = "size (waiting s + running s)"
  have t: "sint t = int ?n + 1" "currentConcurrency al = t" "maxConcurrency al = maxConcurrency (lim s)"
    using call_arrives sint_add_one [of "currentConcurrency (lim s)"]
    by (auto simp: al_add_def Let_def al_inv_def)
  let ?s = "s\<lparr>lim := al, waiting := add_mset t (waiting s)\<rparr>"
  have "int (tickets_upto k ?s) \<le> k" if "0 \<le> k" for k
  proof (cases "sint t \<le> k")
    case True
    have "tickets_upto k s \<le> ?n" unfolding tickets_upto_def by (rule size_filter_le)
    then show ?thesis using True t by (simp add: tickets_upto_def)
  next
    case False
    then show ?thesis using call_arrives that by (simp add: tickets_upto_def al_inv_def)
  qed
  then show ?case using t call_arrives by (simp add: al_inv_def)
next
  case (call_admitted t s)
  have "tickets_upto k (s\<lparr>waiting := waiting s - {#t#}, running := add_mset t (running s)\<rparr>) = tickets_upto k s" for k
    using call_admitted(1) by (simp add: tickets_upto_def) 
  moreover have "size (waiting s - {#t#} + add_mset t (running s)) = size (waiting s + running s)"
    using call_admitted(1) by (simp add: size_Diff_singleton) 
  moreover have "sint t \<le> peak s" using call_admitted by (simp add: al_admits_def al_inv_def)
  ultimately show ?case using call_admitted by (simp add: al_inv_def)
next
  case (call_shed t s)
  let ?s = "s\<lparr>lim := al_exit (lim s), waiting := waiting s - {#t#}\<rparr>"
  have "tickets_upto k ?s \<le> tickets_upto k s" for k
    by (simp add: tickets_upto_def size_Diff1_le)
  then show ?case
    using call_shed by (intro al_inv_exit [of G s ?s]) (auto simp: size_Diff_singleton elim!: size_posE)
next
  case (limit_updated s al oor rtt now ev)
  then show ?case by (auto simp: al_inv_def tickets_upto_def)
next
  case (call_over t s)
  let ?s = "s\<lparr>lim := al_exit (lim s), running := running s - {#t#}\<rparr>"
  have "tickets_upto k ?s \<le> tickets_upto k s" for k
    by (simp add: tickets_upto_def size_Diff1_le)
  moreover have "set_mset (running s - {#t#}) \<subseteq> set_mset (running s)" by (meson in_diffD subsetI)
  moreover have "Suc (size (running s - {#t#})) = size (running s)"
    using call_over(1) by (metis insert_DiffM size_add_mset)
  then have "Suc (size (waiting s + (running s - {#t#}))) = size (waiting s + running s)"
    by (simp only: size_union add_Suc_right [symmetric])
  ultimately show ?case
    using call_over by (intro al_inv_exit [of G s ?s]) simp_all
qed

text \<open>
  C3. The limiter bounds the concurrency although it takes no lock: in every interleaving of
  tickets, comparisons, refusals, updates of the limit and ends of calls, by fewer than
  $2^{31} - 1$ goroutines, the number of actions that run at the same time never exceeds the largest
  limit the limiter has had so far, and the atomic counter is exactly the number of calls inside
  \<open>Execute\<close>.
\<close>

theorem limiter_bounds_concurrency:
  assumes "al_reachable G t0 s" "G < 2147483647"
  shows "int (size (running s)) \<le> peak s
       \<and> sint (currentConcurrency (lim s)) = int (size (waiting s) + size (running s))"
proof -
  from assms(1) have inv: "al_inv G s"
  proof induction
    case al_start
    then show ?case by (simp add: al_inv_def tickets_upto_def NewAdaptiveLimiter_def)
  next
    case (al_more s s')
    then show ?case using assms(2) by (blast intro: al_inv_step)
  qed
  have "filter_mset (\<lambda>t. sint t \<le> peak s) (running s) = running s"
    using inv by (simp add: al_inv_def filter_mset_eq_conv)
  then have "size (running s) \<le> tickets_upto (peak s) s" by (simp add: tickets_upto_def)
  then show ?thesis using inv by (fastforce simp: al_inv_def)
qed

theorem limiter_bounds_concurrency_witness:
  "int (size (running \<lparr>lim = snd (al_add (NewAdaptiveLimiter 0)), waiting = {#1#}, running = {#}, peak = 10\<rparr>)) \<le> 10"
proof -
  let ?s0 = "\<lparr>lim = NewAdaptiveLimiter 0, waiting = {#}, running = {#}, peak = 10\<rparr>"
  let ?s1 = "\<lparr>lim = snd (al_add (NewAdaptiveLimiter 0)), waiting = {#1#}, running = {#}, peak = 10\<rparr>"
  have "al_step 2 ?s0 ?s1"
    using call_arrives [of ?s0 2 1 "snd (al_add (NewAdaptiveLimiter 0))"]
    by (simp add: al_add_def NewAdaptiveLimiter_def)
  then have "al_reachable 2 0 ?s1" by (rule al_more [OF al_start])
  then show ?thesis using limiter_bounds_concurrency [of 2 0 ?s1] by simp
qed

end
