(* ===== verification/Backoff.thy ===== *)
theory Backoff
  imports Float64 Go_Errors
begin

text \<open>
  The exponential backoff with full jitter (\<^verbatim>\<open>backoff.go\<close>): a random delay below
  the smaller of the cap and the base times two to the attempt, computed in floating point.

  \<open>oor\<close> is the result of converting a float that does not fit an
  \<^verbatim>\<open>int64\<close>, which Go leaves to the implementation. The random source is the
  argument \<open>draw\<close>: \<^verbatim>\<open>rand.Int64N(n)\<close> yields a number below \<open>n\<close>,
  every one of them for some draw, and panics unless \<open>n\<close> is positive.
\<close>

record full_jitter =
  fj_base :: duration
  fj_cap :: duration

definition NewFullJitter :: "duration \<Rightarrow> duration \<Rightarrow> full_jitter" where
  "NewFullJitter base cap = \<lparr>fj_base = base, fj_cap = cap\<rparr>"

text \<open>\<^verbatim>\<open>math.Pow(2, float64(attempt))\<close>.\<close>

definition pow2_float :: "u64 \<Rightarrow> f64" where
  "pow2_float attempt = (if attempt < 1024 then Fin (2 ^ unat attempt) else PInf)"

definition rand_Int64N :: "int \<Rightarrow> nat \<Rightarrow> panic_value + int" where
  "rand_Int64N n draw = (if n \<le> 0 then Inl InvalidInt64N else Inr (int draw mod n))"

text \<open>The exponential maximum for an attempt, cut at the cap.\<close>

definition max_delay :: "full_jitter \<Rightarrow> u64 \<Rightarrow> f64" where
  "max_delay f attempt =
     (let exp = pow2_float attempt;
          maxDelay = f64_of_int (fj_base f) * exp
      in if maxDelay > f64_of_int (fj_cap f) then f64_of_int (fj_cap f) else maxDelay)"

definition fullJitter_Next :: "(f64 \<Rightarrow> int) \<Rightarrow> full_jitter \<Rightarrow> u64 \<Rightarrow> nat \<Rightarrow> panic_value + duration" where
  "fullJitter_Next oor f attempt draw =
     (let maxDelay = max_delay f attempt
      in if maxDelay \<le> Fin 0 then Inr 0
         else rand_Int64N (f64_to_int 64 oor maxDelay) draw)"

declare fullJitter_Next_def [op_defs] NewFullJitter_def [op_defs]

section \<open>The capped maximum is computed exactly\<close>

lemma of_int_less_2_53: "\<bar>i\<bar> < 2 ^ 53 \<Longrightarrow> \<bar>of_int i :: rat\<bar> < 2 ^ 53"
  by (metis of_int_abs of_int_less_iff of_int_numeral of_int_power)

lemma f64_of_small: "0 \<le> i \<Longrightarrow> i < 2 ^ 53 \<Longrightarrow> f64_of_int i = Fin (of_int i)"
  by (rule f64_of_int_exact) simp

text \<open>
  The capped product, for a base and a cap that floats represent: exact below the cap, and
  anything above the cap, an overflow to infinity included, is recognised as such.
\<close>

lemma max_delay_exact:
  assumes "0 < base" "base < 2 ^ 53" "0 \<le> cap" "cap < 2 ^ 53"
  shows "max_delay (NewFullJitter base cap) a = Fin (of_int (min cap (base * 2 ^ unat a)))"
proof -
  define m where "m = f64_of_int base * pow2_float a"
  have md: "max_delay (NewFullJitter base cap) a = (if m > f64_of_int cap then f64_of_int cap else m)"
    by (simp add: max_delay_def NewFullJitter_def m_def)
  have b: "f64_of_int base = Fin (of_int base)" and c: "f64_of_int cap = Fin (of_int cap)"
    using assms by (simp_all add: f64_of_small)
  have one: "1 \<le> base" using assms by simp
  show ?thesis
  proof (cases "base * 2 ^ unat a \<le> cap")
    case True
    have "2 ^ unat a \<le> base * 2 ^ unat a" using one by simp
    also have "\<dots> < 2 ^ 53" using True assms by simp
    finally have "unat a < 53" by (metis one_less_numeral_iff power_strict_increasing_iff semiring_norm(76))
    then have "a < 1024" by (simp add: word_less_nat_alt)
    moreover have "rnd (of_int (base * 2 ^ unat a)) = Fin (of_int (base * 2 ^ unat a))"
      using True assms by (intro rnd_integral of_int_less_2_53 integral_of_int) auto
    then have "rnd (of_int base * 2 ^ unat a) = Fin (of_int (base * 2 ^ unat a))" by simp
    ultimately have "m = Fin (of_int (base * 2 ^ unat a))"
      using b by (simp add: m_def pow2_float_def)
    moreover have "\<not> (of_int cap :: rat) < of_int (base * 2 ^ unat a)"
      using True by (simp only: of_int_less_iff not_less)
    ultimately show ?thesis using True c by (simp add: md)
  next
    case False
    have "Fin (of_int cap) < m"
    proof (cases "a < 1024")
      case True
      have rep: "rnd (of_int i) = Fin (of_int i)" if "0 \<le> i" "i \<le> 2 ^ 53" for i
      proof (cases "i = 2 ^ 53")
        case True
        have "representable (2 ^ 53)" by (rule representable_dyadic [of _ 1 53]) simp_all
        then show ?thesis using True by (simp add: rnd_exact)
      next
        case False
        with that show ?thesis by (intro rnd_integral of_int_less_2_53) auto
      qed
      have "cap + 1 \<le> base * 2 ^ unat a" using False by simp
      then have "(of_int (cap + 1) :: rat) \<le> of_int (base * 2 ^ unat a)" by (simp only: of_int_le_iff)
      then have "rnd (of_int (cap + 1)) \<le> rnd (of_int (base * 2 ^ unat a))" by (rule rnd_mono)
      moreover have "m = rnd (of_int (base * 2 ^ unat a))" using True b by (simp add: m_def pow2_float_def)
      moreover have "rnd (of_int (cap + 1)) = Fin (of_int (cap + 1))" using assms by (intro rep) auto
      ultimately have "Fin (of_int (cap + 1)) \<le> m" by simp
      then show ?thesis by (cases m) auto
    next
      case False
      then show ?thesis using b assms by (simp add: m_def pow2_float_def)
    qed
    then show ?thesis using False c by (simp add: md)
  qed
qed

lemma to_int64_small:
  assumes "0 \<le> i" "i < 2 ^ 53"
  shows "f64_to_int 64 oor (Fin (of_int i)) = i"
  using assms by (simp add: trunc_rat_def Let_def)

lemma fullJitter_capped:
  assumes "0 < base" "base < 2 ^ 53" "0 \<le> cap" "cap < 2 ^ 53"
  shows "fullJitter_Next oor (NewFullJitter base cap) a draw
    = Inr (if cap = 0 then 0 else int draw mod min cap (base * 2 ^ unat a))"
proof -
  let ?m = "min cap (base * 2 ^ unat a)"
  have m: "0 \<le> ?m" "?m < 2 ^ 53" "?m \<le> 0 \<longleftrightarrow> cap = 0"
    using assms by (auto simp: min_def mult_le_0_iff)
  have "fullJitter_Next oor (NewFullJitter base cap) a draw =
      (if Fin (of_int ?m) \<le> Fin 0 then Inr 0
       else rand_Int64N (f64_to_int 64 oor (Fin (of_int ?m))) draw)"
    by (simp only: fullJitter_Next_def Let_def max_delay_exact [OF assms])
  also have "\<dots> = (if cap = 0 then Inr 0 else rand_Int64N ?m draw)"
    unfolding to_int64_small [OF m(1,2)] less_eq_f64.simps of_int_le_0_iff m(3) ..
  also have "\<dots> = Inr (if cap = 0 then 0 else int draw mod ?m)"
    unfolding rand_Int64N_def m(3) by simp
  finally show ?thesis .
qed

text \<open>
  C14. For a positive base and a cap below $2^{53}$ nanoseconds (a hundred days), the backoff is
  the integer formula of its comment, for every attempt number: the delay is a uniform draw from
  the range from zero up to, but not including, the smaller of the cap and base times two to the
  attempt. Rounding never shows, overflow of the power ends at the cap, nothing panics, and the
  conversion to an integer is always in range.
\<close>

theorem fullJitter_is_capped_exponential:
  assumes "0 < base" "base < 2 ^ 53" "0 \<le> cap" "cap < 2 ^ 53"
  shows "fullJitter_Next oor (NewFullJitter base cap) a draw
    = Inr (if cap = 0 then 0 else int draw mod min cap (base * 2 ^ unat a))"
  using assms by (rule fullJitter_capped)

theorem fullJitter_is_capped_exponential_witness:
  "fullJitter_Next (\<lambda>_. 0) (NewFullJitter (100 * Millisecond) (30 * Second)) 2000 7 = Inr 7"
  using fullJitter_is_capped_exponential [of "100 * Millisecond" "30 * Second"]
  by (simp add: duration_units)

section \<open>When the backoff panics\<close>

text \<open>
  The product for a base that is not zero: at least one for a positive base, not positive for a
  negative one, whatever the attempt.
\<close>

lemma base_product:
  "0 < base \<Longrightarrow> Fin 1 \<le> f64_of_int base * pow2_float a"
  "base < 0 \<Longrightarrow> f64_of_int base * pow2_float a \<le> Fin 0"
proof -
  assume "0 < base"
  then have "f64_of_int 1 \<le> f64_of_int base" by (intro f64_of_int_mono) simp
  then have b: "Fin 1 \<le> f64_of_int base" by (simp add: f64_of_int_exact)
  have "Fin 1 \<le> rnd (y * 2 ^ n)" if "1 \<le> y" for y and n
  proof -
    have "1 * 1 \<le> y * 2 ^ n" using that by (intro mult_mono) simp_all
    then have "rnd 1 \<le> rnd (y * 2 ^ n)" by (intro rnd_mono) simp
    then show ?thesis using rnd_integral [of 1] by simp
  qed
  then show "Fin 1 \<le> f64_of_int base * pow2_float a"
    using b by (cases "f64_of_int base") (auto simp: pow2_float_def)
next
  assume "base < 0"
  then have "f64_of_int base \<le> f64_of_int (- 1)" by (intro f64_of_int_mono) simp
  then have b: "f64_of_int base \<le> Fin (- 1)" by (simp add: f64_of_int_exact)
  have "rnd (y * 2 ^ n) \<le> Fin 0" if "y \<le> - 1" for y and n
    using rnd_mono [of "y * 2 ^ n" 0] that by (simp add: mult_nonpos_nonneg)
  then show "f64_of_int base * pow2_float a \<le> Fin 0"
    using b by (cases "f64_of_int base") (auto simp: pow2_float_def)
qed

lemma base_zero: "f64_of_int 0 * pow2_float a = (if a < 1024 then Fin 0 else NaN)"
  by (simp add: f64_of_int_def pow2_float_def)

text \<open>A maximum that is not positive, or at least one and below $2^{63}$, does not panic.\<close>

lemma fullJitter_Inr:
  assumes "max_delay f a \<le> Fin 0 \<or> Fin 1 \<le> max_delay f a \<and> max_delay f a < Fin (2 ^ 63)"
  shows "\<exists>d. fullJitter_Next oor f a draw = Inr d"
proof (cases "max_delay f a \<le> Fin 0")
  case False
  then obtain y where y: "max_delay f a = Fin y" "1 \<le> y" "y < 2 ^ 63"
    using assms by (cases "max_delay f a") auto
  have "1 \<le> \<lfloor>y\<rfloor>" "\<lfloor>y\<rfloor> < 2 ^ 63" using y(2,3) by (simp_all add: le_floor_iff floor_less_iff)
  then show ?thesis using y by (simp add: fullJitter_Next_def rand_Int64N_def trunc_rat_def Let_def)
qed (simp add: fullJitter_Next_def Let_def)

text \<open>The largest cap that is below $2^{63}$ as a float.\<close>

lemma rnd_near_2_63:
  "rnd (of_int (2 ^ 63 - 513)) = Fin (of_int (2 ^ 63 - 1024))" "rnd (of_int (2 ^ 63 - 512)) = Fin (2 ^ 63)"
  by code_simp+

lemma near_2_63:
  "i < 2 ^ 63 - 512 \<Longrightarrow> rnd (of_int i) < Fin (2 ^ 63)" "2 ^ 63 - 512 \<le> i \<Longrightarrow> Fin (2 ^ 63) \<le> rnd (of_int i)"
proof -
  assume "i < 2 ^ 63 - 512"
  then have "i \<le> 2 ^ 63 - 513" by simp
  then have "(of_int i :: rat) \<le> of_int (2 ^ 63 - 513)" by (simp only: of_int_le_iff)
  from rnd_mono [OF this] show "rnd (of_int i) < Fin (2 ^ 63)"
    unfolding rnd_near_2_63 by (cases "rnd (of_int i)") auto
next
  assume "2 ^ 63 - 512 \<le> i"
  then have "(of_int (2 ^ 63 - 512) :: rat) \<le> of_int i" by (simp only: of_int_le_iff)
  from rnd_mono [OF this] show "Fin (2 ^ 63) \<le> rnd (of_int i)" unfolding rnd_near_2_63 .
qed

lemma max_delay_product:
  "max_delay (NewFullJitter base cap) a =
    (if f64_of_int base * pow2_float a > f64_of_int cap then f64_of_int cap else f64_of_int base * pow2_float a)"
  by (simp add: max_delay_def NewFullJitter_def)

text \<open>Below that cap only a base of zero can panic, whatever the conversion yields.\<close>

lemma fullJitter_returns:
  assumes "cap < 2 ^ 63 - 512" "base = 0 \<Longrightarrow> a < 1024"
  shows "\<exists>d. fullJitter_Next oor (NewFullJitter base cap) a draw = Inr d"
proof (rule fullJitter_Inr)
  let ?p = "f64_of_int base * pow2_float a" and ?c = "f64_of_int cap"
  have c: "?c < Fin (2 ^ 63)" unfolding f64_of_int_def using assms(1) by (rule near_2_63)
  have c1: "Fin 1 \<le> ?c \<or> ?c \<le> Fin 0"
    using f64_of_int_mono [of 1 cap] f64_of_int_mono [of cap 0] by (cases "1 \<le> cap") (simp_all add: f64_of_int_exact)
  consider "0 < base" | "base \<le> 0" by linarith
  then show "max_delay (NewFullJitter base cap) a \<le> Fin 0
      \<or> Fin 1 \<le> max_delay (NewFullJitter base cap) a \<and> max_delay (NewFullJitter base cap) a < Fin (2 ^ 63)"
  proof cases
    case 1
    then have "Fin 1 \<le> ?p" by (rule base_product)
    then show ?thesis using c c1 unfolding max_delay_product by (cases ?p; cases ?c) auto
  next
    case 2
    have "?p \<le> Fin 0"
      using assms(2) base_product(2) [of base a] base_zero [of a] 2 by (cases "base = 0") auto
    then show ?thesis using c unfolding max_delay_product by (cases ?p; cases ?c) auto
  qed
qed

text \<open>
  C23. When the backoff panics, on a machine that converts the two unrepresentable floats in question
  to integers that are not positive; Go leaves these conversions to the implementation, and amd64
  yields the smallest integer. For a base below $2^{53}$ nanoseconds it panics in exactly two cases. The
  first is a cap within 512 nanoseconds of $2^{63}$, such as \<^verbatim>\<open>math.MaxInt64\<close>, the natural way to ask
  for no cap, as soon as the exponential reaches that height: the float of such a cap is $2^{63}$. The
  second is a base of zero from attempt 1024 on, where zero times infinity is a NaN that passes both
  comparisons. Negative parameters never panic.
\<close>

theorem fullJitter_panics_without_cap:
  assumes "oor (Fin (2 ^ 63)) \<le> 0" "oor NaN \<le> 0" "base < 2 ^ 53" "cap \<le> max_int64"
  shows "fullJitter_Next oor (NewFullJitter base cap) a draw = Inl InvalidInt64N \<longleftrightarrow>
    (2 ^ 63 - 512 \<le> cap \<and> 2 ^ 63 - 512 \<le> base * 2 ^ unat a) \<or> (base = 0 \<and> 1024 \<le> a)"
proof -
  let ?p = "f64_of_int base * pow2_float a" and ?m = "max_delay (NewFullJitter base cap) a"
  have low: "base * 2 ^ unat a < 2 ^ 63 - 512" if "base \<le> 0"
    using that by (intro le_less_trans [OF mult_nonpos_nonneg]) simp_all
  consider (zero) "base = 0" "1024 \<le> a" | (below) "cap < 2 ^ 63 - 512" "base = 0 \<Longrightarrow> a < 1024"
    | (nonpos) "base \<le> 0" "base = 0 \<Longrightarrow> a < 1024" | (high) "2 ^ 63 - 512 \<le> cap" "0 < base" "2 ^ 63 - 512 \<le> base * 2 ^ unat a"
    | (small) "2 ^ 63 - 512 \<le> cap" "0 < base" "base * 2 ^ unat a < 2 ^ 63 - 512"
    by (meson leI)
  then show ?thesis
  proof cases
    case zero
    then have "\<not> a < 1024" by simp
    then have "?m = NaN" unfolding max_delay_product zero(1) base_zero by (cases "f64_of_int cap") simp_all
    then show ?thesis using zero assms(2) by (simp add: fullJitter_Next_def rand_Int64N_def)
  next
    case below
    then show ?thesis using fullJitter_returns [OF below, where oor = oor and draw = draw] by fastforce
  next
    case nonpos
    have "?p \<le> Fin 0"
      using nonpos base_product(2) [of base a] base_zero [of a] by (cases "base = 0") auto
    then have "?m \<le> Fin 0" unfolding max_delay_product by (cases ?p; cases "f64_of_int cap") auto
    then show ?thesis using low nonpos by (auto simp: fullJitter_Next_def Let_def)
  next
    case high
    have c: "f64_of_int cap = Fin (2 ^ 63)"
    proof -
      have "cap \<le> 2 ^ 63" using assms(4) by (simp add: max_int64_def)
      then have "(of_int cap :: rat) \<le> of_int (2 ^ 63)" by (simp only: of_int_le_iff)
      then have "rnd (of_int cap) \<le> Fin (2 ^ 63)" using rnd_mono rnd_exact [OF representable_2_63] by fastforce
      moreover have "Fin (2 ^ 63) \<le> rnd (of_int cap)" using near_2_63(2) [OF high(1)] .
      ultimately show ?thesis unfolding f64_of_int_def by (cases "rnd (of_int cap)") auto
    qed
    have "Fin (2 ^ 63) \<le> ?p"
      using near_2_63(2) [OF high(3)] high(2) assms(3) by (simp add: pow2_float_def f64_of_small)
    then have "?m = Fin (2 ^ 63)" using c by (cases ?p) (auto simp: max_delay_product)
    then show ?thesis using high assms(1) by (simp add: fullJitter_Next_def rand_Int64N_def trunc_rat_def)
  next
    case small
    have "2 ^ unat a \<le> base * 2 ^ unat a" using small(2) by simp
    also have "\<dots> < 2 ^ 63" using small(3) by simp
    finally have "unat a < 63" by (metis one_less_numeral_iff power_strict_increasing_iff semiring_norm(76))
    then have "a < 1024" by (simp add: word_less_nat_alt)
    then have "?p < Fin (2 ^ 63)"
      using near_2_63(1) [OF small(3)] small(2) assms(3) by (simp add: pow2_float_def f64_of_small)
    moreover have "Fin (2 ^ 63) \<le> f64_of_int cap" unfolding f64_of_int_def using small(1) by (rule near_2_63)
    ultimately have "?m = ?p" "?p < Fin (2 ^ 63)" by (cases ?p; cases "f64_of_int cap"; auto simp: max_delay_product)+
    then have "\<exists>d. fullJitter_Next oor (NewFullJitter base cap) a draw = Inr d"
      using base_product(1) [OF small(2), of a] by (intro fullJitter_Inr) simp
    then show ?thesis using small by fastforce
  qed
qed

theorem fullJitter_panics_without_cap_witness:
  "fullJitter_Next (\<lambda>_. min_int64) (NewFullJitter (100 * Millisecond) max_int64) 40 5 = Inl InvalidInt64N
   \<and> fullJitter_Next (\<lambda>_. min_int64) (NewFullJitter (100 * Millisecond) max_int64) 36 5 \<noteq> Inl InvalidInt64N
   \<and> fullJitter_Next (\<lambda>_. min_int64) (NewFullJitter 0 Second) 1024 5 = Inl InvalidInt64N"
  using fullJitter_panics_without_cap [of "\<lambda>_. min_int64" "100 * Millisecond" max_int64 40 5]
    fullJitter_panics_without_cap [of "\<lambda>_. min_int64" "100 * Millisecond" max_int64 36 5]
    fullJitter_panics_without_cap [of "\<lambda>_. min_int64" 0 Second 1024 5]
  by (simp add: min_int64_def max_int64_def Millisecond_def Second_def)

end
