(* ===== verification/World.thy ===== *)
theory World
  imports Adaptive_Bucket Rate_Limiter Bulkhead Adaptive_Limiter Circuit_Breaker Backoff Retry_Policy
begin

text \<open>
  The world one call executes in: the clock, the shared components by reference, the caller's own
  state, and an oracle for everything the call does not determine. The oracle says by how much the
  clock advances before each event, what the other goroutines did to the shared components in the
  meantime, which branch a \<^verbatim>\<open>select\<close> with two ready cases takes, what the random
  sources yield, and what an out-of-range float conversion gives. Every theorem about the pipeline
  quantifies over the oracle, so over all timings, interferences and random choices.

  Effects are explicit: a program of type \<open>('u, 'a) prog\<close> maps a world to a result and the
  world afterwards; a panic is a result, \<open>deferred\<close> is Go's \<^verbatim>\<open>defer\<close>.
\<close>

section \<open>Shared components and the oracle\<close>

record shared =
  h_buckets :: "nat \<Rightarrow> adaptive_bucket"
  h_limiters :: "nat \<Rightarrow> rate_limiter"
  h_breakers :: "nat \<Rightarrow> breaker"
  h_bulkheads :: "nat \<Rightarrow> bulkhead"
  h_priority :: "nat \<Rightarrow> priority_bulkhead"
  h_adaptive :: "nat \<Rightarrow> adaptive_limiter"
  h_jitters :: "nat \<Rightarrow> full_jitter"

record environment =
  or_delta :: "nat \<Rightarrow> nat"
  or_env :: "nat \<Rightarrow> shared \<Rightarrow> shared"
  or_coin :: "nat \<Rightarrow> bool"
  or_draw :: "nat \<Rightarrow> nat"
  or_float :: "nat \<Rightarrow> f64"
  or_conv :: "f64 \<Rightarrow> int"

record 'u world =
  now :: time
  tick :: nat
  orc :: environment
  heap :: shared
  user :: 'u

datatype 'a result = Ret 'a | Panic panic_value

type_synonym ('u, 'a) prog = "'u world \<Rightarrow> 'a result \<times> 'u world"

section \<open>Sequencing\<close>

definition ret :: "'a \<Rightarrow> ('u, 'a) prog" where
  "ret a w = (Ret a, w)"

definition bind :: "('u, 'a) prog \<Rightarrow> ('a \<Rightarrow> ('u, 'b) prog) \<Rightarrow> ('u, 'b) prog" where
  "bind m f w = (case m w of (Ret a, w') \<Rightarrow> f a w' | (Panic p, w') \<Rightarrow> (Panic p, w'))"

definition deferred :: "('u world \<Rightarrow> 'u world) \<Rightarrow> ('u, 'a) prog \<Rightarrow> ('u, 'a) prog" where
  "deferred cleanup m w = (case m w of (r, w') \<Rightarrow> (r, cleanup w'))"

lemma bind_ret [simp]: "bind (ret a) f = f a"
  by (simp add: bind_def ret_def fun_eq_iff)

lemma ret_apply [simp]: "ret a w = (Ret a, w)"
  by (simp add: ret_def)

lemma bind_Ret [simp]: "m w = (Ret a, w') \<Longrightarrow> bind m f w = f a w'"
  by (simp add: bind_def)

lemma bind_Panic [simp]: "m w = (Panic p, w') \<Longrightarrow> bind m f w = (Panic p, w')"
  by (simp add: bind_def)

lemma bind_cases:
  assumes "bind m f w = (r, w'')"
  obtains (Ret) a w' where "m w = (Ret a, w')" "f a w' = (r, w'')"
    | (Panic) p where "m w = (Panic p, w'')" "r = Panic p"
  using assms by (auto simp: bind_def split: prod.splits result.splits)

lemma bind_assoc: "bind (bind m f) g = bind m (\<lambda>a. bind (f a) g)"
  by (auto simp: bind_def fun_eq_iff split: prod.splits result.splits)

section \<open>Time and interference\<close>

definition clock_step :: "'u world \<Rightarrow> 'u world" where
  "clock_step w = w\<lparr>now := now w + int (or_delta (orc w) (tick w)), tick := Suc (tick w)\<rparr>"

text \<open>What the other goroutines did since the last event of this one.\<close>

definition interfere :: "'u world \<Rightarrow> 'u world" where
  "interfere w = w\<lparr>heap := or_env (orc w) (tick w) (heap w), tick := Suc (tick w)\<rparr>"

definition time_Now :: "('u, time) prog" where
  "time_Now w = (let w = clock_step w in (Ret (now w), w))"

text \<open>One atomic access to the shared components, at one instant.\<close>

definition atomic :: "(time \<Rightarrow> shared \<Rightarrow> 'a \<times> shared) \<Rightarrow> ('u, 'a) prog" where
  "atomic f w =
     (let w = clock_step (interfere w); (a, h) = f (now w) (heap w) in (Ret a, w\<lparr>heap := h\<rparr>))"

definition flip_coin :: "('u, bool) prog" where
  "flip_coin w = (Ret (or_coin (orc w) (tick w)), w\<lparr>tick := Suc (tick w)\<rparr>)"

definition rng_Float64 :: "('u, f64) prog" where
  "rng_Float64 w = (Ret (or_float (orc w) (tick w)), w\<lparr>tick := Suc (tick w)\<rparr>)"

text \<open>
  Wait for a timer or the context: a \<^verbatim>\<open>select\<close> on both. Each becomes ready at an
  instant, or was ready already; the earlier one wins and a tie is decided by the coin. The result
  is the context's error, or None when the timer fired.
\<close>

definition wait_timer :: "ctx \<Rightarrow> time \<Rightarrow> ('u, go_error option) prog" where
  "wait_timer c fire w =
     (let w = clock_step w;
          f = max fire (now w)
      in case done_at c of
           None \<Rightarrow> (Ret None, w\<lparr>now := f\<rparr>)
         | Some d \<Rightarrow>
             (let k = max d (now w);
                  (r, w) = flip_coin w;
                  timer = (f < k \<or> (f = k \<and> r = Ret True))
              in if timer then (Ret None, w\<lparr>now := f\<rparr>)
                 else (Ret (ctx_Err k c), w\<lparr>now := k\<rparr>)))"

section \<open>The components behind their references\<close>

definition bucket_acquire :: "nat \<Rightarrow> ('u, bool) prog" where
  "bucket_acquire r = atomic (\<lambda>t h.
     (let (ok, b) = AcquireRetryToken (h_buckets h r)
      in (ok, h\<lparr>h_buckets := (h_buckets h)(r := b)\<rparr>)))"

definition bucket_success :: "nat \<Rightarrow> ('u, unit) prog" where
  "bucket_success r = atomic (\<lambda>t h.
     ((), h\<lparr>h_buckets := (h_buckets h)(r := AddSuccessToken (h_buckets h r))\<rparr>))"

definition limiter_acquire :: "nat \<Rightarrow> ('u, bool) prog" where
  "limiter_acquire r = atomic (\<lambda>t h.
     (let (ok, l) = Acquire t (h_limiters h r)
      in (ok, h\<lparr>h_limiters := (h_limiters h)(r := l)\<rparr>)))"

text \<open>A backoff is the full jitter or a caller's implementation of the interface.\<close>

datatype 'u backoff = FullJitter nat | CustomBackoff "u64 \<Rightarrow> ('u, duration) prog"

definition jitter_next :: "nat \<Rightarrow> u64 \<Rightarrow> ('u, duration) prog" where
  "jitter_next r attempt w =
     (let w = interfere w; draw = or_draw (orc w) (tick w); w = w\<lparr>tick := Suc (tick w)\<rparr>
      in case fullJitter_Next (or_conv (orc w)) (h_jitters (heap w) r) attempt draw of
           Inl p \<Rightarrow> (Panic p, w) | Inr d \<Rightarrow> (Ret d, w))"

fun backoff_Next :: "'u backoff \<Rightarrow> u64 \<Rightarrow> ('u, duration) prog" where
  "backoff_Next (FullJitter r) attempt = jitter_next r attempt"
| "backoff_Next (CustomBackoff f) attempt = f attempt"

lemma bind_time_Now [simp]: "bind time_Now f w = f (now (clock_step w)) (clock_step w)"
  by (simp add: bind_def time_Now_def Let_def)

declare atomic_def [op_defs] time_Now_def [op_defs] wait_timer_def [op_defs]

section \<open>Frames\<close>

text \<open>The caller's state and the oracle are untouched by the library's own accesses.\<close>

lemma clock_step_simps [simp]:
  "user (clock_step w) = user w" "orc (clock_step w) = orc w" "heap (clock_step w) = heap w"
  "now w \<le> now (clock_step w)"
  by (simp_all add: clock_step_def)

lemma interfere_simps [simp]:
  "user (interfere w) = user w" "orc (interfere w) = orc w" "now (interfere w) = now w"
  by (simp_all add: interfere_def)

text \<open>A program that leaves the caller's state and the oracle alone and never turns the clock back.\<close>

definition quiet :: "('u, 'a) prog \<Rightarrow> bool" where
  "quiet m \<longleftrightarrow> (\<forall>w. user (snd (m w)) = user w \<and> orc (snd (m w)) = orc w \<and> now w \<le> now (snd (m w)))"

lemma quietD: "quiet m \<Longrightarrow> m w = (r, w') \<Longrightarrow> user w' = user w \<and> orc w' = orc w \<and> now w \<le> now w'"
  unfolding quiet_def by (metis snd_conv)

named_theorems quiets \<open>programs that are quiet\<close>

lemma quiet_ret [quiets]: "quiet (ret a)"
  by (simp add: quiet_def)

lemma quietI: "(\<And>w r w'. m w = (r, w') \<Longrightarrow> user w' = user w \<and> orc w' = orc w \<and> now w \<le> now w') \<Longrightarrow> quiet m"
  unfolding quiet_def by (metis prod.collapse)

lemma quiet_bind [quiets]:
  assumes "quiet m" "\<And>a. quiet (f a)"
  shows "quiet (bind m f)"
proof (rule quietI)
  fix w r w'
  assume "bind m f w = (r, w')"
  then show "user w' = user w \<and> orc w' = orc w \<and> now w \<le> now w'"
  proof (cases rule: bind_cases)
    case (Ret a w1)
    show ?thesis using quietD [OF assms(1) Ret(1)] quietD [OF assms(2) Ret(2)] by simp
  next
    case (Panic p)
    show ?thesis using quietD [OF assms(1) Panic(1)] .
  qed
qed

lemma quiet_time_Now [quiets]: "quiet time_Now"
  by (simp add: quiet_def time_Now_def Let_def)

lemma quiet_atomic [quiets]: "quiet (atomic f)"
  by (simp add: quiet_def atomic_def Let_def split_beta) (metis clock_step_simps(4) interfere_simps(3))

lemma quiet_wait_timer [quiets]: "quiet (wait_timer c fire)"
proof -
  have "now w \<le> max d (now (clock_step w))" for d and w :: "'u world"
    using clock_step_simps(4) [of w] by linarith
  then show ?thesis
    by (auto simp: quiet_def wait_timer_def flip_coin_def Let_def split: option.splits)
qed

lemma quiet_components [quiets]:
  "quiet (bucket_acquire r)" "quiet (bucket_success r)" "quiet (limiter_acquire r)"
  by (simp_all add: bucket_acquire_def bucket_success_def limiter_acquire_def quiet_atomic)

lemma quiet_jitter [quiets]: "quiet (jitter_next r a)"
  by (auto simp: quiet_def jitter_next_def Let_def split: sum.splits)

lemma quiet_if [quiets]: "quiet a \<Longrightarrow> quiet b \<Longrightarrow> quiet (if P then a else b)"
  by simp

end
