(* ===== verification/Chaos_Injector.thy ===== *)
theory Chaos_Injector
  imports World
begin

text \<open>
  The chaos injector (\<^verbatim>\<open>chaos/injector.go\<close>): synthetic latency and synthetic
  errors in front of an action. The random source is the oracle's stream of floats, which the
  injector draws from only when the respective fault is configured.
\<close>

record chaos_config =
  ErrorProbability :: f64
  InjectedError :: "go_error option"
  LatencyProbability :: f64
  LatencyDuration :: duration

record injector =
  inj_config :: chaos_config

definition NewInjector :: "chaos_config \<Rightarrow> injector" where
  "NewInjector cfg = \<lparr>inj_config = cfg\<rparr>"

text \<open>The roll for latency: the error of the context, when it ends during the delay.\<close>

definition inject_latency :: "chaos_config \<Rightarrow> ctx \<Rightarrow> ('u, go_error option) prog" where
  "inject_latency cfg c =
     (if LatencyDuration cfg > 0
      then bind rng_Float64 (\<lambda>x.
             if x < LatencyProbability cfg
             then bind time_Now (\<lambda>t. wait_timer c (t + LatencyDuration cfg))
             else ret None)
      else ret None)"

text \<open>The roll for an error.\<close>

definition inject_error :: "chaos_config \<Rightarrow> ('u, go_error option) prog" where
  "inject_error cfg =
     (case InjectedError cfg of
        None \<Rightarrow> ret None
      | Some e \<Rightarrow> bind rng_Float64 (\<lambda>x. ret (if x < ErrorProbability cfg then Some e else None)))"

definition Chaos_Execute ::
  "injector option \<Rightarrow> ctx \<Rightarrow> ('u, go_error option) prog \<Rightarrow> ('u, go_error option) prog" where
  "Chaos_Execute receiver c action =
     (case receiver of
        None \<Rightarrow> action
      | Some i \<Rightarrow>
          bind (inject_latency (inj_config i) c) (\<lambda>r.
            if r \<noteq> None then ret r
            else bind (inject_error (inj_config i)) (\<lambda>e. if e \<noteq> None then ret e else action)))"

declare inject_latency_def [op_defs] inject_error_def [op_defs] Chaos_Execute_def [op_defs]

lemma quiet_rng [quiets]: "quiet rng_Float64"
  by (simp add: quiet_def rng_Float64_def)

lemma quiet_inject [quiets]: "quiet (inject_latency cfg c)" "quiet (inject_error cfg)"
  by (auto simp: inject_latency_def inject_error_def intro!: quiets split: option.splits)

text \<open>A float drawn from the unit interval never passes a probability of zero or fails one of one.\<close>

lemma unit_float:
  "Fin 0 \<le> x \<Longrightarrow> \<not> x < Fin 0" "x < Fin 1 \<Longrightarrow> \<not> \<not> x < Fin 1"
  by (cases x; simp)+

lemma latency_result:
  assumes "inject_latency cfg c w = (r, w')"
  shows "r \<in> {Ret None, Ret (Some Canceled), Ret (Some DeadlineExceeded)}"
  using assms ctx_Err_values
  by (auto simp: inject_latency_def bind_def rng_Float64_def time_Now_def wait_timer_def flip_coin_def Let_def
      split: if_splits option.splits prod.splits)

text \<open>A world in which the clock ticks by one and the random source yields one half.\<close>

definition calm :: environment where
  "calm = \<lparr>or_delta = (\<lambda>_. 1), or_env = (\<lambda>_ h. h), or_coin = (\<lambda>_. True), or_draw = (\<lambda>_. 0),
           or_float = (\<lambda>_. Fin (1 / 2)), or_conv = (\<lambda>_. 0)\<rparr>"

definition empty_heap :: shared where
  "empty_heap = \<lparr>h_buckets = (\<lambda>_. DefaultAdaptiveBucket), h_limiters = (\<lambda>_. NewRateLimiter (Fin 1) Second 0),
     h_breakers = (\<lambda>_. New sample_config), h_bulkheads = (\<lambda>_. NewBulkhead 1),
     h_priority = (\<lambda>_. NewPriorityBulkhead 1 Map.empty), h_adaptive = (\<lambda>_. NewAdaptiveLimiter 0),
     h_jitters = (\<lambda>_. NewFullJitter (100 * Millisecond) (30 * Second))\<rparr>"

definition calm_world :: "'u \<Rightarrow> 'u world" where
  "calm_world u = \<lparr>now = 0, tick = 0, orc = calm, heap = empty_heap, user = u\<rparr>"

lemma calm_world_simps [simp]:
  "now (calm_world u) = 0" "orc (calm_world u) = calm" "user (calm_world u) = u"
  "heap (calm_world u) = empty_heap" "tick (calm_world u) = 0"
  "or_float calm n = Fin (1 / 2)" "or_env calm n h = h" "or_delta calm n = 1"
  by (simp_all add: calm_world_def calm_def)

text \<open>
  An injector whose two probabilities are zero is transparent: for every random source in the
  unit interval, the action runs, with its result, its panic and its effects unchanged, at most
  some draws from the random source later.
\<close>

theorem chaos_zero_is_transparent:
  assumes "ErrorProbability cfg = Fin 0" "LatencyProbability cfg = Fin 0"
    "\<And>n. Fin 0 \<le> or_float (orc w) n \<and> or_float (orc w) n < Fin 1"
  shows "\<exists>n. Chaos_Execute (Some (NewInjector cfg)) c action w = action (w\<lparr>tick := n\<rparr>)"
proof -
  have no: "\<not> or_float (orc w) n < Fin 0" for n using assms(3) [of n] unit_float(1) by blast
  have w: "\<exists>n. action w = action (w\<lparr>tick := n\<rparr>)" by (rule exI [of _ "tick w"]) simp
  show ?thesis
    using assms(1,2) no w
    by (auto simp: Chaos_Execute_def inject_latency_def inject_error_def NewInjector_def bind_def
        rng_Float64_def split: option.splits)
qed

definition zero_chaos :: chaos_config where
  "zero_chaos = \<lparr>ErrorProbability = Fin 0, InjectedError = Some (UserError 1),
     LatencyProbability = Fin 0, LatencyDuration = Second\<rparr>"

theorem chaos_zero_is_transparent_witness:
  "\<exists>n. Chaos_Execute (Some (NewInjector zero_chaos)) Background (ret None) (calm_world ())
     = ret None ((calm_world ())\<lparr>tick := n\<rparr>)"
  by (rule chaos_zero_is_transparent) (simp_all add: zero_chaos_def)

text \<open>
  An injector whose error probability is one never runs the action: it returns the injected
  error, or the error of a context that ends during injected latency, whatever the action would
  do and whatever the random source in the unit interval yields.
\<close>

theorem chaos_one_never_runs:
  assumes "ErrorProbability cfg = Fin 1" "InjectedError cfg = Some e"
    "\<And>n. Fin 0 \<le> or_float (orc w) n \<and> or_float (orc w) n < Fin 1"
  shows "fst (Chaos_Execute (Some (NewInjector cfg)) c action w)
      \<in> {Ret (Some e), Ret (Some Canceled), Ret (Some DeadlineExceeded)}
    \<and> user (snd (Chaos_Execute (Some (NewInjector cfg)) c action w)) = user w"
proof -
  obtain r w' where l: "inject_latency cfg c w = (r, w')" by fastforce
  have q: "orc w' = orc w" "user w' = user w" using quietD [OF quiet_inject(1) l] by simp_all
  show ?thesis
    using l assms q latency_result [OF l]
    by (auto simp: Chaos_Execute_def NewInjector_def bind_def inject_error_def rng_Float64_def)
qed

theorem chaos_one_never_runs_witness:
  "fst (Chaos_Execute (Some (NewInjector (zero_chaos\<lparr>ErrorProbability := Fin 1\<rparr>))) Background (ret None) (calm_world ()))
     \<in> {Ret (Some (UserError 1)), Ret (Some Canceled), Ret (Some DeadlineExceeded)}"
  using chaos_one_never_runs [of "zero_chaos\<lparr>ErrorProbability := Fin 1\<rparr>" "UserError 1" "calm_world ()" Background "ret None"]
  by (simp add: zero_chaos_def)

end
