(* ===== verification/Middleware.thy ===== *)
theory Middleware
  imports Chaos_Injector
begin

text \<open>
  The configuration of an execution and the middlewares (\<^verbatim>\<open>retry.go\<close>,
  \<^verbatim>\<open>telemetry.go\<close>). A middleware wraps a \<^verbatim>\<open>doAction\<close>; it is
  a closure over the configuration whose fields it reads when it runs, so it is represented by its
  name (\<open>middleware\<close>, only the timeout captures a value) and \<open>apply_mw\<close> gives the
  closure for a configuration.

  \<^verbatim>\<open>RetryState\<close> carries the terminal action through all middlewares unchanged; in
  the model the terminal action is what the pipeline is composed on instead.
\<close>

section \<open>State, hooks and configuration\<close>

record retry_state =
  rs_Name :: string
  Attempt :: u64
  rs_MaxAttempts :: u64
  LastError :: "go_error option"
  TotalDuration :: duration
  NextDelay :: duration

type_synonym 'u do_action = "ctx \<Rightarrow> retry_state \<Rightarrow> ('u, go_error option) prog"

record 'u instrumenter =
  BeforeAttempt :: "ctx \<Rightarrow> retry_state \<Rightarrow> ('u, ctx) prog"
  AfterAttempt :: "ctx \<Rightarrow> retry_state \<Rightarrow> ('u, unit) prog"
  OnBulkheadFull :: "ctx \<Rightarrow> retry_state \<Rightarrow> ('u, unit) prog"
  OnRateLimitExceeded :: "ctx \<Rightarrow> retry_state \<Rightarrow> ('u, unit) prog"

datatype middleware =
    MwRateLimiter | MwAdaptiveLimiter | MwBulkhead | MwPriorityBulkhead | MwRetry | MwDeadline
  | MwTimeout duration | MwCircuitBreaker | MwInstrumenter | MwPanicRecovery | MwChaos | MwFallback

text \<open>
  The field \<^verbatim>\<open>Fallback\<close> has type \<^verbatim>\<open>any\<close>: it is nil, a function for
  the result type \<open>'t\<close> of the caller, a function that returns an error only, or a value of
  some other type, which no type assertion matches.
\<close>

datatype ('u, 't) fallback =
    NoFallback
  | FallbackValue "ctx \<Rightarrow> go_error \<Rightarrow> ('u, 't \<times> go_error option) prog"
  | FallbackErr "ctx \<Rightarrow> go_error \<Rightarrow> ('u, go_error option) prog"
  | FallbackOther

record ('u, 't) config =
  Name :: string
  MaxAttempts :: u64
  BaseDelay :: duration
  MaxDelay :: duration
  HedgingDelay :: duration
  Backoff :: "'u backoff"
  Policy :: retry_policy
  Instrumenter :: "'u instrumenter option"
  CircuitBreaker :: "nat option"
  Fallback :: "('u, 't) fallback"
  AdaptiveBucket :: "nat option"
  RecoverPanics :: bool
  Bulkhead :: "nat option"
  PriorityBulkhead :: "nat option"
  Timeout :: duration
  RateLimiter :: "nat option"
  AdaptiveLimiter :: "nat option"
  Chaos :: "injector option"
  MinDeadlineThreshold :: duration
  pipeline :: "middleware list option"
  composedPipeline :: "middleware list option"

text \<open>\<open>r\<close> is where the default backoff, which the code allocates here, lives.\<close>

definition DefaultConfig :: "nat \<Rightarrow> ('u, 't) config" where
  "DefaultConfig r =
     \<lparr>Name = [], MaxAttempts = 5, BaseDelay = 100 * Millisecond, MaxDelay = 30 * Second,
      HedgingDelay = 0, Backoff = FullJitter r, Policy = default_policy, Instrumenter = None,
      CircuitBreaker = None, Fallback = NoFallback, AdaptiveBucket = None, RecoverPanics = False,
      Bulkhead = None, PriorityBulkhead = None, Timeout = 0, RateLimiter = None,
      AdaptiveLimiter = None, Chaos = None, MinDeadlineThreshold = 5 * Millisecond,
      pipeline = None, composedPipeline = None\<rparr>"

section \<open>The simple middlewares\<close>

definition instrument :: "('u, 't) config \<Rightarrow> ('u instrumenter \<Rightarrow> ('u, unit) prog) \<Rightarrow> ('u, unit) prog" where
  "instrument c hook = (case Instrumenter c of None \<Rightarrow> ret () | Some i \<Rightarrow> hook i)"

definition chaosMiddleware :: "('u, 't) config \<Rightarrow> 'u do_action \<Rightarrow> 'u do_action" where
  "chaosMiddleware c next x st =
     (if Chaos c = None then next x st else Chaos_Execute (Chaos c) x (next x st))"

definition deadlineMiddleware :: "('u, 't) config \<Rightarrow> 'u do_action \<Rightarrow> 'u do_action" where
  "deadlineMiddleware c next x st =
     (case ctx_deadline x of
        None \<Rightarrow> next x st
      | Some deadline \<Rightarrow>
          bind time_Now (\<lambda>t.
            (let remaining = time_Sub deadline t
             in if remaining \<le> MinDeadlineThreshold c then ret (Some DeadlineExceeded)
                else next x st)))"

definition rateLimiterMiddleware :: "('u, 't) config \<Rightarrow> 'u do_action \<Rightarrow> 'u do_action" where
  "rateLimiterMiddleware c next x st =
     (case RateLimiter c of
        None \<Rightarrow> next x st
      | Some r \<Rightarrow>
          bind (limiter_acquire r) (\<lambda>ok.
            if \<not> ok
            then bind (instrument c (\<lambda>i. OnRateLimitExceeded i x st)) (\<lambda>_. ret (Some ErrRateLimitExceeded))
            else next x st))"

definition timeoutMiddleware :: "duration \<Rightarrow> 'u do_action \<Rightarrow> 'u do_action" where
  "timeoutMiddleware timeout next x st =
     bind time_Now (\<lambda>t. next (WithTimeout_ctx t timeout x) st)"

definition instrumenterMiddleware :: "('u, 't) config \<Rightarrow> 'u do_action \<Rightarrow> 'u do_action" where
  "instrumenterMiddleware c next x st =
     (case Instrumenter c of
        None \<Rightarrow> next x st
      | Some i \<Rightarrow>
          bind (BeforeAttempt i x st) (\<lambda>x.
          bind (next x st) (\<lambda>err.
          bind (AfterAttempt i x (st\<lparr>LastError := err\<rparr>)) (\<lambda>_. ret err))))"

definition panicRecoveryMiddleware :: "'u do_action \<Rightarrow> 'u do_action" where
  "panicRecoveryMiddleware next x st w =
     (case next x st w of
        (Ret err, w) \<Rightarrow> (Ret err, w)
      | (Panic p, w) \<Rightarrow> (Ret (Some (PanicError p)), w))"

definition fallbackMiddleware :: "('u, 't) config \<Rightarrow> 'u do_action \<Rightarrow> 'u do_action" where
  "fallbackMiddleware c next x st =
     bind (next x st) (\<lambda>err.
       case (err, Fallback c) of
         (Some e, FallbackErr f) \<Rightarrow> f x e
       | _ \<Rightarrow> ret err)"

section \<open>The middlewares around a shared component\<close>

text \<open>The entry of the bulkhead's \<^verbatim>\<open>select\<close> sees whether the context is done at that instant.\<close>

definition bulkhead_enter :: "nat \<Rightarrow> ctx \<Rightarrow> ('u, go_error option) prog" where
  "bulkhead_enter r x =
     bind flip_coin (\<lambda>coin. atomic (\<lambda>t h.
       (let (res, b) = Bulkhead_enter (ctx_Err t x, coin) (h_bulkheads h r)
        in (res, h\<lparr>h_bulkheads := (h_bulkheads h)(r := b)\<rparr>))))"

definition bulkhead_leave :: "nat \<Rightarrow> 'u world \<Rightarrow> 'u world" where
  "bulkhead_leave r w =
     (let w = interfere w; h = heap w
      in w\<lparr>heap := h\<lparr>h_bulkheads := (h_bulkheads h)(r := Bulkhead_leave (h_bulkheads h r))\<rparr>\<rparr>)"

definition Bulkhead_Execute :: "nat \<Rightarrow> ctx \<Rightarrow> ('u, go_error option) prog \<Rightarrow> ('u, go_error option) prog" where
  "Bulkhead_Execute r x action =
     bind (bulkhead_enter r x) (\<lambda>refused.
       if refused \<noteq> None then ret refused else deferred (bulkhead_leave r) action)"

definition bulkheadMiddleware :: "('u, 't) config \<Rightarrow> 'u do_action \<Rightarrow> 'u do_action" where
  "bulkheadMiddleware c next x st =
     (case Bulkhead c of
        None \<Rightarrow> next x st
      | Some r \<Rightarrow>
          bind (Bulkhead_Execute r x (next x st)) (\<lambda>err.
            bind (case err of
                    Some e \<Rightarrow> if errors_Is e ErrBulkheadFull then instrument c (\<lambda>i. OnBulkheadFull i x st) else ret ()
                  | None \<Rightarrow> ret ())
              (\<lambda>_. ret err)))"

text \<open>The priority bulkhead reads the length of its semaphore in a step of its own.\<close>

definition priority_check :: "nat \<Rightarrow> ctx \<Rightarrow> ('u, go_error option) prog" where
  "priority_check r x = atomic (\<lambda>t h. (pb_check (GetPriority x) (h_priority h r), h))"

definition priority_select :: "nat \<Rightarrow> ctx \<Rightarrow> ('u, go_error option) prog" where
  "priority_select r x =
     bind flip_coin (\<lambda>coin. atomic (\<lambda>t h.
       (let (res, b) = pb_select (ctx_Err t x, coin) (h_priority h r)
        in (res, h\<lparr>h_priority := (h_priority h)(r := b)\<rparr>))))"

definition priority_leave :: "nat \<Rightarrow> 'u world \<Rightarrow> 'u world" where
  "priority_leave r w =
     (let w = interfere w; h = heap w
      in w\<lparr>heap := h\<lparr>h_priority := (h_priority h)(r := PriorityBulkhead_leave (h_priority h r))\<rparr>\<rparr>)"

definition PriorityBulkhead_Execute :: "nat \<Rightarrow> ctx \<Rightarrow> ('u, go_error option) prog \<Rightarrow> ('u, go_error option) prog" where
  "PriorityBulkhead_Execute r x action =
     bind (priority_check r x) (\<lambda>shed.
       if shed \<noteq> None then ret shed
       else bind (priority_select r x) (\<lambda>refused.
              if refused \<noteq> None then ret refused else deferred (priority_leave r) action))"

definition priorityBulkheadMiddleware :: "('u, 't) config \<Rightarrow> 'u do_action \<Rightarrow> 'u do_action" where
  "priorityBulkheadMiddleware c next x st =
     (case PriorityBulkhead c of
        None \<Rightarrow> next x st
      | Some r \<Rightarrow>
          bind (PriorityBulkhead_Execute r x (next x st)) (\<lambda>err.
            bind (case err of
                    Some e \<Rightarrow> if errors_Is e ErrBulkheadFull \<or> errors_Is e ErrShedLoad
                               then instrument c (\<lambda>i. OnBulkheadFull i x st) else ret ()
                  | None \<Rightarrow> ret ())
              (\<lambda>_. ret err)))"

text \<open>The adaptive limiter takes its ticket and reads the limit in two steps.\<close>

definition adaptive_exit :: "nat \<Rightarrow> 'u world \<Rightarrow> 'u world" where
  "adaptive_exit r w =
     (let w = interfere w; h = heap w
      in w\<lparr>heap := h\<lparr>h_adaptive := (h_adaptive h)(r := al_exit (h_adaptive h r))\<rparr>\<rparr>)"

definition adaptive_update :: "nat \<Rightarrow> duration \<Rightarrow> ('u, unit) prog" where
  "adaptive_update r rtt w =
     (let w = clock_step (interfere w); t = now w; w = clock_step w; h = heap w
      in (Ret (), w\<lparr>heap := h\<lparr>h_adaptive := (h_adaptive h)
                     (r := al_update (or_conv (orc w)) rtt t (now w) (h_adaptive h r))\<rparr>\<rparr>))"

definition AdaptiveLimiter_Execute :: "nat \<Rightarrow> ('u, go_error option) prog \<Rightarrow> ('u, go_error option) prog" where
  "AdaptiveLimiter_Execute r action =
     bind (atomic (\<lambda>t h. (let (n, al) = al_add (h_adaptive h r)
                           in (n, h\<lparr>h_adaptive := (h_adaptive h)(r := al)\<rparr>)))) (\<lambda>current.
     deferred (adaptive_exit r)
      (bind (atomic (\<lambda>t h. (al_admits current (h_adaptive h r), h))) (\<lambda>admitted.
         if \<not> admitted then ret (Some ErrShedLoad)
         else bind time_Now (\<lambda>start.
              bind action (\<lambda>err.
              bind time_Now (\<lambda>t.
              bind (adaptive_update r (time_Sub t start)) (\<lambda>_. ret err)))))))"

definition adaptiveLimiterMiddleware :: "('u, 't) config \<Rightarrow> 'u do_action \<Rightarrow> 'u do_action" where
  "adaptiveLimiterMiddleware c next x st =
     (case AdaptiveLimiter c of None \<Rightarrow> next x st | Some r \<Rightarrow> AdaptiveLimiter_Execute r (next x st))"

text \<open>
  The circuit breaker's \<open>Execute\<close> first looks whether the context is done, without waiting,
  and is then its two critical sections around the action; the second one is not deferred.
\<close>

definition ctx_poll :: "ctx \<Rightarrow> ('u, go_error option) prog" where
  "ctx_poll x = bind time_Now (\<lambda>t. ret (ctx_Err t x))"

definition breaker_admit :: "nat \<Rightarrow> ('u, admission) prog" where
  "breaker_admit r w =
     (let w = clock_step (interfere w); t = now w; w = clock_step w; h = heap w;
          (res, b) = admit t (now w) (h_breakers h r)
      in (Ret res, w\<lparr>heap := h\<lparr>h_breakers := (h_breakers h)(r := b)\<rparr>\<rparr>))"

definition breaker_complete :: "nat \<Rightarrow> breaker_state \<Rightarrow> go_error option \<Rightarrow> ('u, unit) prog" where
  "breaker_complete r s err w =
     (let w = clock_step (interfere w); t1 = now w; w = clock_step w; t2 = now w;
          w = clock_step w; t3 = now w; w = clock_step w; t4 = now w; h = heap w;
          clk = \<lparr>at_record = t1, at_stats = t2, at_open = t3, at_event = t4\<rparr>
      in (Ret (), w\<lparr>heap := h\<lparr>h_breakers := (h_breakers h)(r := complete clk s err (h_breakers h r))\<rparr>\<rparr>))"

definition Breaker_Execute :: "nat \<Rightarrow> ctx \<Rightarrow> ('u, go_error option) prog \<Rightarrow> ('u, go_error option) prog" where
  "Breaker_Execute r x action =
     bind (ctx_poll x) (\<lambda>e.
       if e \<noteq> None then ret e
       else bind (breaker_admit r) (\<lambda>a.
              case a of
                Rejected \<Rightarrow> ret (Some ErrCircuitOpen)
              | Admitted s \<Rightarrow> bind action (\<lambda>err. bind (breaker_complete r s err) (\<lambda>_. ret err))))"

definition circuitBreakerMiddleware :: "('u, 't) config \<Rightarrow> 'u do_action \<Rightarrow> 'u do_action" where
  "circuitBreakerMiddleware c next x st =
     (case CircuitBreaker c of None \<Rightarrow> next x st | Some r \<Rightarrow> Breaker_Execute r x (next x st))"

lemmas middleware_defs = chaosMiddleware_def deadlineMiddleware_def rateLimiterMiddleware_def
  timeoutMiddleware_def instrumenterMiddleware_def panicRecoveryMiddleware_def
  fallbackMiddleware_def bulkheadMiddleware_def priorityBulkheadMiddleware_def
  adaptiveLimiterMiddleware_def circuitBreakerMiddleware_def

declare middleware_defs [op_defs]

end
