(* ===== verification/Returns.thy ===== *)
theory Returns
  imports Middleware
begin

text \<open>
  Programs that end in a result and not in a panic. The one panic of the library's own code is that of
  the full jitter (\<open>Backoff\<close>), whose parameters lie in the heap; so a program is said to return
  on the worlds in which the backoff of a configuration is the one it was (\<open>intact\<close>). The fields of a
  \<^verbatim>\<open>fullJitter\<close> are written by \<^verbatim>\<open>NewFullJitter\<close> only: that nobody else writes them is
  \<open>jitter_fixed\<close> for the other goroutines and \<open>backoff_kept\<close> for the code of the caller.
\<close>

section \<open>Relations between the world before and after a program\<close>

definition relates :: "('u world \<Rightarrow> 'u world \<Rightarrow> bool) \<Rightarrow> ('u, 'a) prog \<Rightarrow> bool" where
  "relates R m \<longleftrightarrow> (\<forall>w r w'. m w = (r, w') \<longrightarrow> R w w')"

lemma relatesD: "relates R m \<Longrightarrow> m w = (r, w') \<Longrightarrow> R w w'"
  by (simp add: relates_def)

lemma relatesI: "(\<And>w r w'. m w = (r, w') \<Longrightarrow> R w w') \<Longrightarrow> relates R m"
  by (simp add: relates_def)

section \<open>The parameters of the backoff\<close>

text \<open>
  A full jitter that does not panic in a call of \<open>n\<close> attempts, on any machine: the cap is more than
  512 nanoseconds below $2^{63}$, and the base is not zero unless there are at most 1024 attempts.
\<close>

definition safe_jitter :: "u64 \<Rightarrow> full_jitter \<Rightarrow> bool" where
  "safe_jitter n f \<longleftrightarrow> fj_cap f < 2 ^ 63 - 512 \<and> (fj_base f \<noteq> 0 \<or> n \<le> 1024)"

lemma safe_jitter_Next:
  assumes "safe_jitter n f" "a < n"
  shows "\<exists>d. fullJitter_Next oor f a draw = Inr d"
proof -
  have "f = NewFullJitter (fj_base f) (fj_cap f)" by (simp add: NewFullJitter_def)
  then show ?thesis
    using fullJitter_returns [of "fj_cap f" "fj_base f" a oor draw] assms by (auto simp: safe_jitter_def)
qed

definition jitter_fixed :: "('u, 't) config \<Rightarrow> environment \<Rightarrow> bool" where
  "jitter_fixed c env \<longleftrightarrow> (\<forall>r n h. Backoff c = FullJitter r \<longrightarrow> h_jitters (or_env env n h) r = h_jitters h r)"

definition intact :: "('u, 't) config \<Rightarrow> 'u world \<Rightarrow> 'u world \<Rightarrow> bool" where
  "intact c w0 w \<longleftrightarrow> jitter_fixed c (orc w0) \<and> orc w = orc w0
     \<and> (\<forall>r. Backoff c = FullJitter r \<longrightarrow> h_jitters (heap w) r = h_jitters (heap w0) r)"

definition backoff_kept :: "('u, 't) config \<Rightarrow> 'u world \<Rightarrow> 'u world \<Rightarrow> bool" where
  "backoff_kept c w w' \<longleftrightarrow> (jitter_fixed c (orc w) \<longrightarrow> intact c w w')"

lemma intact_refl: "jitter_fixed c (orc w) \<Longrightarrow> intact c w w"
  by (simp add: intact_def)

lemma intact_trans: "intact c w0 w \<Longrightarrow> backoff_kept c w w' \<Longrightarrow> intact c w0 w'"
  by (auto simp: intact_def backoff_kept_def)

lemma intact_relates: "intact c w0 w \<Longrightarrow> relates (backoff_kept c) m \<Longrightarrow> m w = (r, w') \<Longrightarrow> intact c w0 w'"
  by (rule intact_trans [OF _ relatesD])

lemma intact_steps [simp]:
  "intact c w0 w \<Longrightarrow> intact c w0 (clock_step w)"
  "intact c w0 w \<Longrightarrow> intact c w0 (interfere w)"
  "intact c w0 (w\<lparr>tick := n\<rparr>) = intact c w0 w" "intact c w0 (w\<lparr>now := t\<rparr>) = intact c w0 w"
  "h_jitters h = h_jitters (heap w) \<Longrightarrow> intact c w0 (w\<lparr>heap := h\<rparr>) = intact c w0 w"
  "intact c w0 (w\<lparr>user := u\<rparr>) = intact c w0 w"
  by (auto simp: intact_def interfere_def jitter_fixed_def)

section \<open>Programs that return\<close>

definition returns :: "('u, 't) config \<Rightarrow> 'u world \<Rightarrow> ('u, 'a) prog \<Rightarrow> bool" where
  "returns c w0 m \<longleftrightarrow> (\<forall>w. intact c w0 w \<longrightarrow> (\<exists>a w'. m w = (Ret a, w') \<and> intact c w0 w'))"

named_theorems return_rules \<open>programs that return\<close>

lemma returnsD: "returns c w0 m \<Longrightarrow> intact c w0 w \<Longrightarrow> \<exists>a w'. m w = (Ret a, w') \<and> intact c w0 w'"
  by (simp add: returns_def)

lemma returns_ret [return_rules]: "returns c w0 (ret a)"
  by (simp add: returns_def)

lemma returns_bind [return_rules]:
  assumes "returns c w0 m" "\<And>a. returns c w0 (f a)"
  shows "returns c w0 (bind m f)"
  unfolding returns_def
proof (intro allI impI)
  fix w
  assume "intact c w0 w"
  then obtain a w1 where "m w = (Ret a, w1)" "intact c w0 w1" using returnsD [OF assms(1)] by blast
  then show "\<exists>b w'. bind m f w = (Ret b, w') \<and> intact c w0 w'" using returnsD [OF assms(2)] by simp
qed

lemma returns_if [return_rules]: "returns c w0 a \<Longrightarrow> returns c w0 b \<Longrightarrow> returns c w0 (if P then a else b)"
  by simp

lemma returns_deferred [return_rules]:
  "returns c w0 m \<Longrightarrow> (\<And>w. intact c w0 w \<Longrightarrow> intact c w0 (cl w)) \<Longrightarrow> returns c w0 (deferred cl m)"
  by (fastforce simp: returns_def deferred_def split: prod.splits)

lemma returns_atomic:
  assumes "\<And>t h. h_jitters (snd (f t h)) = h_jitters h"
  shows "returns c w0 (atomic f)"
  by (auto simp: returns_def atomic_def Let_def split_beta assms)

lemma returns_accesses [return_rules]:
  "returns c w0 time_Now" "returns c w0 (wait_timer x t)" "returns c w0 flip_coin" "returns c w0 rng_Float64"
  "returns c w0 (breaker_admit r)" "returns c w0 (breaker_complete r s err)"
  "returns c w0 (adaptive_update r rtt)"
  by (auto simp: returns_def time_Now_def wait_timer_def flip_coin_def rng_Float64_def breaker_admit_def
      breaker_complete_def adaptive_update_def Let_def split: option.splits prod.splits)

lemma returns_components [return_rules]:
  "returns c w0 (bucket_acquire r)" "returns c w0 (bucket_success r)" "returns c w0 (limiter_acquire r)"
  "returns c w0 (bulkhead_enter r x)" "returns c w0 (priority_check r x)" "returns c w0 (priority_select r x)"
  unfolding bucket_acquire_def bucket_success_def limiter_acquire_def bulkhead_enter_def priority_check_def priority_select_def
  by (intro return_rules returns_atomic; simp add: Let_def split_beta)+

section \<open>The backoff\<close>

text \<open>
  The backoff of a configuration returns in every attempt of a call: its full jitter has safe
  parameters, or the caller's implementation returns.
\<close>

definition backoff_returns :: "('u, 't) config \<Rightarrow> 'u world \<Rightarrow> bool" where
  "backoff_returns c w \<longleftrightarrow> jitter_fixed c (orc w)
     \<and> (case Backoff c of FullJitter r \<Rightarrow> safe_jitter (MaxAttempts c) (h_jitters (heap w) r)
                        | CustomBackoff f \<Rightarrow> \<forall>a. returns c w (f a))"

lemma returns_backoff:
  assumes "backoff_returns c w0" "a < MaxAttempts c"
  shows "returns c w0 (backoff_Next (Backoff c) a)"
proof (cases "Backoff c")
  case (FullJitter r)
  have "\<exists>d w'. jitter_next r a w = (Ret d, w') \<and> intact c w0 w'" if w: "intact c w0 w" for w
  proof -
    have i: "intact c w0 (interfere w)" using w by simp
    then have "h_jitters (heap (interfere w)) r = h_jitters (heap w0) r" using FullJitter by (simp add: intact_def)
    then have "safe_jitter (MaxAttempts c) (h_jitters (heap (interfere w)) r)"
      using assms(1) FullJitter by (simp add: backoff_returns_def)
    from safe_jitter_Next [OF this assms(2)] obtain d where
      "fullJitter_Next (or_conv (orc (interfere w))) (h_jitters (heap (interfere w)) r) a
         (or_draw (orc (interfere w)) (tick (interfere w))) = Inr d" by blast
    then show ?thesis using i by (simp add: jitter_next_def Let_def)
  qed
  then show ?thesis using FullJitter by (simp add: returns_def)
qed (use assms(1) in \<open>simp add: backoff_returns_def\<close>)

text \<open>The default backoff is one of them, whatever the number of attempts.\<close>

lemma backoff_returns_default:
  assumes "h_jitters (heap w) r = NewFullJitter (100 * Millisecond) (30 * Second)" "\<And>n h. h_jitters (or_env (orc w) n h) r = h_jitters h r"
  shows "Backoff c = FullJitter r \<Longrightarrow> backoff_returns c w"
  using assms by (simp add: backoff_returns_def jitter_fixed_def safe_jitter_def NewFullJitter_def duration_units)

end
