(* ===== verification/Retry_Loop.thy ===== *)
theory Retry_Loop
  imports Returns
begin

text \<open>
  The retry loop (\<^verbatim>\<open>retryMiddleware\<close> and \<^verbatim>\<open>sleep\<close> of
  \<^verbatim>\<open>retry.go\<close>): the attempts of one call, the policy that stops them, the bucket
  that pays for them and the delays between them. The loop variable is the code's unsigned 64-bit
  counter; the recursion ends because it stays below the number of attempts.
\<close>

definition sleep :: "ctx \<Rightarrow> duration \<Rightarrow> ('u, go_error option) prog" where
  "sleep x delay =
     (if delay \<le> 0 then ret None
      else if ctx_bypass x then ret None
      else bind time_Now (\<lambda>t. wait_timer x (t + delay)))"

text \<open>The method \<^verbatim>\<open>RetryAfter\<close> of an error.\<close>

definition RetryAfter :: "retry_delay \<Rightarrow> ('u, duration) prog" where
  "RetryAfter d = (case d of DelayFor n \<Rightarrow> ret n | DelayUntil u \<Rightarrow> bind time_Now (\<lambda>t. ret (time_Sub u t)))"

definition retry_token :: "('u, 't) config \<Rightarrow> ('u, bool) prog" where
  "retry_token c = (case AdaptiveBucket c of None \<Rightarrow> ret True | Some r \<Rightarrow> bucket_acquire r)"

definition success_token :: "('u, 't) config \<Rightarrow> ('u, unit) prog" where
  "success_token c = (case AdaptiveBucket c of None \<Rightarrow> ret () | Some r \<Rightarrow> bucket_success r)"

text \<open>\<^verbatim>\<open>errors.Join(errs...)\<close> of the collected errors, none of which is nil.\<close>

definition joined :: "go_error list \<Rightarrow> go_error option" where
  "joined errs = errors_Join (map Some errs)"

lemma joined_simps: "joined errs = (if errs = [] then None else Some (JoinErr errs))"
  by (simp add: joined_def)

text \<open>The state an attempt is given.\<close>

definition attempt_state :: "retry_state \<Rightarrow> u64 \<Rightarrow> go_error list \<Rightarrow> retry_state" where
  "attempt_state st attempt errs =
     (let st = st\<lparr>Attempt := attempt\<rparr>
      in if errs \<noteq> [] then st\<lparr>LastError := Some (last errs)\<rparr> else st)"

lemma attempt_next:
  "attempt < (m :: u64) \<Longrightarrow> unat (attempt + 1) = Suc (unat attempt)"
  using unat_less_pow [of m] by (intro unat_add_one) (simp add: word_less_nat_alt)

function retry_loop ::
  "('u, 't) config \<Rightarrow> 'u do_action \<Rightarrow> ctx \<Rightarrow> time \<Rightarrow> retry_state \<Rightarrow> u64 \<Rightarrow> go_error list
     \<Rightarrow> ('u, go_error option) prog" where
  "retry_loop c next x start st attempt errs w =
     (if \<not> attempt < MaxAttempts c then (Ret (joined errs), w)
      else
        bind time_Now (\<lambda>t.
        bind (next x ((attempt_state st attempt errs)\<lparr>TotalDuration := time_Sub t start\<rparr>)) (\<lambda>err.
          case err of
            None \<Rightarrow> bind (success_token c) (\<lambda>_. ret None)
          | Some e \<Rightarrow>
              if errors_Is e ErrCircuitOpen then ret (joined (errs @ [e]))
              else if \<not> shouldRetry (Policy c) (Some e) then ret (joined (errs @ [e]))
              else if attempt + 1 \<ge> MaxAttempts c then ret (joined (errs @ [e]))
              else
                bind (retry_token c) (\<lambda>paid.
                  if \<not> paid then ret (joined (errs @ [e]))
                  else
                    bind (backoff_Next (Backoff c) attempt) (\<lambda>delay.
                      case errors_As as_retry_after e of
                        Some (d, True) \<Rightarrow> ret (joined (errs @ [e]))
                      | ra \<Rightarrow>
                          bind (case ra of Some (d, _) \<Rightarrow> RetryAfter d | None \<Rightarrow> ret delay) (\<lambda>delay.
                          bind (sleep x delay) (\<lambda>serr.
                            case serr of
                              Some e' \<Rightarrow> ret (joined (errs @ [e, e']))
                            | None \<Rightarrow> (\<lambda>w. retry_loop c next x start (attempt_state st attempt errs)
                                              (attempt + 1) (errs @ [e]) w))))))) w)"
  by pat_completeness auto

termination
  by (relation "measure (\<lambda>(c, next, x, start, st, attempt, errs, w). unat (MaxAttempts c) - unat attempt)")
    (auto simp: attempt_next word_less_nat_alt)

declare retry_loop.simps [simp del]

definition retryMiddleware :: "('u, 't) config \<Rightarrow> 'u do_action \<Rightarrow> 'u do_action" where
  "retryMiddleware c next x st =
     bind time_Now (\<lambda>start. retry_loop c next x start st 0 [])"

lemma quiet_sleep [quiets]: "quiet (sleep x d)"
  by (auto simp: sleep_def intro!: quiets)

lemma quiet_tokens [quiets]: "quiet (retry_token c)" "quiet (success_token c)"
  by (auto simp: retry_token_def success_token_def intro: quiets split: option.splits)

lemma quiet_RetryAfter [quiets]: "quiet (RetryAfter d)"
  by (auto simp: RetryAfter_def intro: quiets split: retry_delay.split)

lemma sleep_result:
  assumes "sleep x d w = (r, w')"
  shows "r \<in> {Ret None, Ret (Some Canceled), Ret (Some DeadlineExceeded)}"
  using assms ctx_Err_values
  by (auto simp: sleep_def bind_def time_Now_def wait_timer_def flip_coin_def Let_def
      split: if_splits option.splits prod.splits)

lemma sleep_undone: "done_at x = None \<Longrightarrow> \<exists>w'. sleep x d w = (Ret None, w')"
  by (simp add: sleep_def wait_timer_def Let_def)

section \<open>What a call does, as a log of its attempts\<close>

text \<open>
  To speak about the attempts, the world's user state is the log of the calls of the wrapped
  action: the state it was given, when it started, its result, and when it ended. The action itself
  is any that is quiet apart from that, so it may depend on the whole world and on the log.
\<close>

record attempt_rec =
  ar_state :: retry_state
  ar_start :: time
  ar_result :: "go_error option result"
  ar_end :: time

definition logged :: "attempt_rec list do_action \<Rightarrow> attempt_rec list do_action" where
  "logged act x st w =
     (case act x st w of (r, w') \<Rightarrow>
        (r, w'\<lparr>user := user w' @ [\<lparr>ar_state = st, ar_start = now w, ar_result = r, ar_end = now w'\<rparr>]\<rparr>))"

definition stops_retry :: "('u, 't) config \<Rightarrow> go_error \<Rightarrow> bool" where
  "stops_retry c e \<longleftrightarrow> errors_Is e ErrCircuitOpen \<or> \<not> shouldRetry (Policy c) (Some e)
     \<or> (\<exists>d. errors_As as_retry_after e = Some (d, True))"

text \<open>The state handed to an attempt: its number, and the error of the one before.\<close>

definition proper_state :: "u64 \<Rightarrow> go_error list \<Rightarrow> retry_state \<Rightarrow> bool" where
  "proper_state attempt errs s \<longleftrightarrow> Attempt s = attempt \<and> (errs \<noteq> [] \<longrightarrow> LastError s = Some (last errs))"

text \<open>
  A delay the server asked for lies between an attempt and the next one. Asked later, an error never
  lets the next attempt start earlier.
\<close>

fun asked_at :: "time \<Rightarrow> retry_delay \<Rightarrow> duration" where
  "asked_at t (DelayFor n) = n"
| "asked_at t (DelayUntil u) = time_Sub u t"

lemma asked_later: "t \<le> t' \<Longrightarrow> t + asked_at t d \<le> t' + asked_at t' d"
  by (cases d) (auto simp: time_Sub_def clamp_int64_def min_int64_def max_int64_def)

lemma RetryAfter_result:
  "\<exists>w'. RetryAfter d w = (Ret (asked_at (now w') d), w') \<and> user w' = user w \<and> now w \<le> now w'"
  by (cases d) (simp_all add: RetryAfter_def)

definition delay_respected :: "ctx \<Rightarrow> go_error \<Rightarrow> time \<Rightarrow> time \<Rightarrow> bool" where
  "delay_respected x e t t' \<longleftrightarrow> t \<le> t' \<and>
     (\<forall>d. errors_As as_retry_after e = Some (d, False) \<and> \<not> ctx_bypass x \<longrightarrow> t + asked_at t d \<le> t')"

definition waited :: "ctx \<Rightarrow> go_error \<Rightarrow> attempt_rec \<Rightarrow> attempt_rec \<Rightarrow> bool" where
  "waited x e a b \<longleftrightarrow> delay_respected x e (ar_end a) (ar_start b)"

definition backoff_may_panic :: "('u, 't) config \<Rightarrow> panic_value \<Rightarrow> bool" where
  "backoff_may_panic c p \<longleftrightarrow> (\<exists>a w. fst (backoff_Next (Backoff c) a w) = Panic p)"

text \<open>
  The specification of a retried call: which logs of attempts, from number \<open>attempt\<close> on and
  with the errors \<open>errs\<close> already collected, may end in which result.
\<close>

inductive retry_spec ::
  "('u, 't) config \<Rightarrow> ctx \<Rightarrow> u64 \<Rightarrow> go_error list \<Rightarrow> attempt_rec list \<Rightarrow> go_error option result \<Rightarrow> bool"
  for c x where
  no_attempt: "\<not> attempt < MaxAttempts c \<Longrightarrow> retry_spec c x attempt errs [] (Ret (joined errs))"
| success: "attempt < MaxAttempts c \<Longrightarrow> proper_state attempt errs (ar_state a) \<Longrightarrow> ar_result a = Ret None \<Longrightarrow>
     retry_spec c x attempt errs [a] (Ret None)"
| panic: "attempt < MaxAttempts c \<Longrightarrow> proper_state attempt errs (ar_state a) \<Longrightarrow> ar_result a = Panic p \<Longrightarrow>
     retry_spec c x attempt errs [a] (Panic p)"
| give_up: "attempt < MaxAttempts c \<Longrightarrow> proper_state attempt errs (ar_state a) \<Longrightarrow> ar_result a = Ret (Some e) \<Longrightarrow>
     stops_retry c e \<or> attempt + 1 \<ge> MaxAttempts c \<or> AdaptiveBucket c \<noteq> None \<Longrightarrow>
     retry_spec c x attempt errs [a] (Ret (joined (errs @ [e])))"
| cancelled: "attempt < MaxAttempts c \<Longrightarrow> proper_state attempt errs (ar_state a) \<Longrightarrow> ar_result a = Ret (Some e) \<Longrightarrow>
     \<not> stops_retry c e \<Longrightarrow> done_at x \<noteq> None \<Longrightarrow> e' \<in> {Canceled, DeadlineExceeded} \<Longrightarrow>
     retry_spec c x attempt errs [a] (Ret (joined (errs @ [e, e'])))"
| backoff_panics: "attempt < MaxAttempts c \<Longrightarrow> proper_state attempt errs (ar_state a) \<Longrightarrow> ar_result a = Ret (Some e) \<Longrightarrow>
     backoff_may_panic c p \<Longrightarrow> retry_spec c x attempt errs [a] (Panic p)"
| again: "attempt + 1 < MaxAttempts c \<Longrightarrow> attempt < attempt + 1 \<Longrightarrow> proper_state attempt errs (ar_state a) \<Longrightarrow>
     ar_result a = Ret (Some e) \<Longrightarrow> \<not> stops_retry c e \<Longrightarrow> waited x e a b \<Longrightarrow>
     retry_spec c x (attempt + 1) (errs @ [e]) (b # bs) r \<Longrightarrow>
     retry_spec c x attempt errs (a # b # bs) r"

text \<open>
  The part of an iteration after a failed attempt, in front of the next one: either the call ends,
  with nothing added to the log, or the loop goes on later.
\<close>

lemma wait_timer_fired:
  assumes "wait_timer c fire w = (Ret None, w')"
  shows "fire \<le> now w'"
proof (cases "done_at c")
  case None
  then show ?thesis using assms by (auto simp: wait_timer_def Let_def)
next
  case (Some d)
  then have "ctx_Err (max d (now (clock_step w))) c \<noteq> None"
    by (simp add: ctx_Err_done del: not_None_eq)
  then show ?thesis
    using assms Some by (auto simp: wait_timer_def flip_coin_def Let_def simp del: max_less_iff_conj split: if_splits)
qed

lemma sleep_waits:
  assumes "sleep x d w = (Ret None, w')"
  shows "\<not> ctx_bypass x \<Longrightarrow> now w + d \<le> now w'"
proof -
  assume b: "\<not> ctx_bypass x"
  show ?thesis
  proof (cases "d \<le> 0")
    case True
    then show ?thesis using quietD [OF quiet_sleep assms] by simp
  next
    case False
    then have "wait_timer x (now (clock_step w) + d) (clock_step w) = (Ret None, w')"
      using assms b by (simp add: sleep_def bind_def time_Now_def Let_def)
    from wait_timer_fired [OF this] show ?thesis
      using clock_step_simps(4) [of w] by linarith
  qed
qed

text \<open>The rest of an iteration after a failed attempt: the checks, then the delay.\<close>

definition delay_and_retry ::
  "('u, 't) config \<Rightarrow> ctx \<Rightarrow> u64 \<Rightarrow> go_error list \<Rightarrow> go_error \<Rightarrow> ('u, go_error option) prog \<Rightarrow> ('u, go_error option) prog" where
  "delay_and_retry c x attempt errs e continue =
     bind (backoff_Next (Backoff c) attempt) (\<lambda>delay.
       case errors_As as_retry_after e of
         Some (d, True) \<Rightarrow> ret (joined (errs @ [e]))
       | ra \<Rightarrow>
           bind (case ra of Some (d, _) \<Rightarrow> RetryAfter d | None \<Rightarrow> ret delay) (\<lambda>delay.
           bind (sleep x delay) (\<lambda>serr.
             case serr of
               Some e' \<Rightarrow> ret (joined (errs @ [e, e']))
             | None \<Rightarrow> continue)))"

definition after_failure ::
  "('u, 't) config \<Rightarrow> ctx \<Rightarrow> u64 \<Rightarrow> go_error list \<Rightarrow> go_error \<Rightarrow> ('u, go_error option) prog \<Rightarrow> ('u, go_error option) prog" where
  "after_failure c x attempt errs e continue =
     (if errors_Is e ErrCircuitOpen then ret (joined (errs @ [e]))
      else if \<not> shouldRetry (Policy c) (Some e) then ret (joined (errs @ [e]))
      else if attempt + 1 \<ge> MaxAttempts c then ret (joined (errs @ [e]))
      else
        bind (retry_token c) (\<lambda>paid.
          if \<not> paid then ret (joined (errs @ [e]))
          else delay_and_retry c x attempt errs e continue))"

lemma retry_loop_step:
  "attempt < MaxAttempts c \<Longrightarrow>
   retry_loop c next x start st attempt errs w =
     bind time_Now (\<lambda>t.
     bind (next x ((attempt_state st attempt errs)\<lparr>TotalDuration := time_Sub t start\<rparr>)) (\<lambda>err.
       case err of
         None \<Rightarrow> bind (success_token c) (\<lambda>_. ret None)
       | Some e \<Rightarrow> after_failure c x attempt errs e
           (retry_loop c next x start (attempt_state st attempt errs) (attempt + 1) (errs @ [e])))) w"
  unfolding after_failure_def delay_and_retry_def by (subst retry_loop.simps) simp

text \<open>The backoffs whose code leaves the log and the clock alone; the full jitter is one.\<close>

definition quiet_backoff :: "('u, 't) config \<Rightarrow> bool" where
  "quiet_backoff c \<longleftrightarrow> (\<forall>a. quiet (backoff_Next (Backoff c) a))"

lemma quiet_backoff_jitter: "Backoff c = FullJitter r \<Longrightarrow> quiet_backoff c"
  by (simp add: quiet_backoff_def quiet_jitter)

text \<open>
  After a failure the call ends, for one of the reasons of the specification and with nothing
  added to the log, or the loop continues, at a time that respects the delay.
\<close>

lemma delay_and_retry_cases:
  assumes "delay_and_retry c x attempt errs e continue w = (r, w'')" "quiet_backoff c"
  obtains (over) d where "r = Ret (joined (errs @ [e]))" "user w'' = user w" "errors_As as_retry_after e = Some (d, True)"
    | (cancelled) e' where "r = Ret (joined (errs @ [e, e']))" "user w'' = user w"
      "\<And>d. errors_As as_retry_after e \<noteq> Some (d, True)" "e' \<in> {Canceled, DeadlineExceeded}" "done_at x \<noteq> None"
    | (panics) p where "r = Panic p" "user w'' = user w" "backoff_may_panic c p"
    | (continues) w' where "continue w' = (r, w'')" "user w' = user w"
      "\<And>d. errors_As as_retry_after e \<noteq> Some (d, True)" "delay_respected x e (now w) (now w')"
  using assms(1)[unfolded delay_and_retry_def]
proof (cases rule: bind_cases)
  case (Panic p)
  have q: "quiet (backoff_Next (Backoff c) attempt)" using assms(2) by (simp add: quiet_backoff_def)
  have "backoff_may_panic c p" using Panic(1) unfolding backoff_may_panic_def by (metis fst_conv)
  then show ?thesis using panics Panic(2) quietD [OF q Panic(1)] by blast
next
  case (Ret delay w2)
  have "quiet (backoff_Next (Backoff c) attempt)" using assms(2) by (simp add: quiet_backoff_def)
  from quietD [OF this Ret(1)] have q2: "user w2 = user w" "now w \<le> now w2" by simp_all
  show ?thesis
  proof (cases "\<exists>d. errors_As as_retry_after e = Some (d, True)")
    case True
    then show ?thesis using over Ret(2) q2 by auto
  next
    case go: False
    let ?ra = "errors_As as_retry_after e"
    obtain d0 w1 where asked: "(case ?ra of Some (d, _) \<Rightarrow> RetryAfter d | None \<Rightarrow> ret delay) w2 = (Ret d0, w1)"
      "user w1 = user w2" "now w2 \<le> now w1" "\<And>d. ?ra = Some (d, False) \<Longrightarrow> d0 = asked_at (now w1) d"
    proof (cases ?ra)
      case None
      then show ?thesis using that [of delay w2] by simp
    next
      case (Some p)
      then show ?thesis using that RetryAfter_result [of "fst p" w2] by (cases p) auto
    qed
    have "bind (sleep x d0) (\<lambda>serr. case serr of Some e' \<Rightarrow> ret (joined (errs @ [e, e']))
              | None \<Rightarrow> continue) w1 = (r, w'')"
      using Ret(2) go asked(1) by (auto split: option.splits bool.splits)
    then show ?thesis
    proof (cases rule: bind_cases)
      case (Panic p)
      then show ?thesis using sleep_result [OF Panic(1)] by simp
    next
      case (Ret serr w3)
      note q3 = quietD [OF quiet_sleep Ret(1)]
      show ?thesis
      proof (cases serr)
        case (Some e')
        then have "done_at x \<noteq> None" using sleep_undone [of x d0 w1] Ret(1) by auto
        then show ?thesis using cancelled [of e'] Some Ret q2 q3 go asked(2) sleep_result [OF Ret(1)] by simp
      next
        case None
        have t: "now w \<le> now w1" "now w \<le> now w3" using q2(2) q3 asked(3) by linarith+
        have "now w + asked_at (now w) d \<le> now w3" if "?ra = Some (d, False)" "\<not> ctx_bypass x" for d
          using sleep_waits [of x d0 w1 w3] Ret(1) None that asked(4) [OF that(1)] asked_later [OF t(1), of d] by simp
        then show ?thesis using continues [of w3] Ret(2) None q2 q3 t go asked(2) by (simp add: delay_respected_def)
      qed
    qed
  qed
qed

lemma retry_token_Ret: "\<exists>b w'. retry_token c w = (Ret b, w')"
  by (auto simp: retry_token_def bucket_acquire_def atomic_def Let_def split_beta split: option.split)

lemma after_failure_cases:
  assumes "after_failure c x attempt errs e continue w = (r, w'')" "quiet_backoff c"
  obtains (over) "r = Ret (joined (errs @ [e]))" "user w'' = user w"
      "stops_retry c e \<or> attempt + 1 \<ge> MaxAttempts c \<or> AdaptiveBucket c \<noteq> None"
    | (cancelled) e' where "r = Ret (joined (errs @ [e, e']))" "user w'' = user w" "\<not> stops_retry c e"
      "done_at x \<noteq> None" "e' \<in> {Canceled, DeadlineExceeded}"
    | (panics) p where "r = Panic p" "user w'' = user w" "backoff_may_panic c p"
    | (continues) w' where "continue w' = (r, w'')" "user w' = user w" "\<not> stops_retry c e"
      "attempt + 1 < MaxAttempts c" "delay_respected x e (now w) (now w')"
proof (cases "errors_Is e ErrCircuitOpen \<or> \<not> shouldRetry (Policy c) (Some e) \<or> attempt + 1 \<ge> MaxAttempts c")
  case True
  then show ?thesis
    using assms(1) over by (auto simp: after_failure_def stops_retry_def split: if_splits)
next
  case False
  then have lt: "attempt + 1 < MaxAttempts c" by (simp add: not_le)
  have "bind (retry_token c) (\<lambda>paid. if \<not> paid then ret (joined (errs @ [e]))
          else delay_and_retry c x attempt errs e continue) w = (r, w'')"
    using assms(1) False by (simp add: after_failure_def)
  then show ?thesis
  proof (cases rule: bind_cases)
    case (Panic p)
    then show ?thesis using retry_token_Ret [of c w] by auto
  next
    case (Ret paid w1)
    note q1 = quietD [OF quiet_tokens(1) Ret(1)]
    show ?thesis
    proof (cases paid)
      case False
      have "AdaptiveBucket c \<noteq> None" using Ret(1) False by (auto simp: retry_token_def split: option.splits)
      then show ?thesis using over Ret(2) False q1 by simp
    next
      case True
      with Ret(2) have d: "delay_and_retry c x attempt errs e continue w1 = (r, w'')" by simp
      have later: "delay_respected x e (now w1) t \<Longrightarrow> delay_respected x e (now w) t" for t
        using q1 asked_later [of "now w" "now w1"] unfolding delay_respected_def by (meson order_trans)
      show ?thesis
        using d assms(2)
        by (cases rule: delay_and_retry_cases)
          (use over cancelled panics continues q1 lt later False in \<open>auto simp: stops_retry_def\<close>)
    qed
  qed
qed

lemma returns_tokens: "returns c' w0 (retry_token c)" "returns c' w0 (success_token c)" "returns c' w0 (sleep x d)"
    "returns c' w0 (RetryAfter rd)"
  by (auto simp: retry_token_def success_token_def sleep_def RetryAfter_def intro!: return_rules split: option.split retry_delay.split)

lemma success_token_Ret: "\<exists>w'. success_token c w = (Ret (), w') \<and> user w' = user w"
proof -
  have "\<exists>w'. success_token c w = (Ret (), w')"
    by (auto simp: success_token_def bucket_success_def atomic_def Let_def split: option.split)
  then show ?thesis using quietD [OF quiet_tokens(2)] by blast
qed

lemma proper_attempt_state: "proper_state attempt errs ((attempt_state st attempt errs)\<lparr>TotalDuration := d\<rparr>)"
  by (simp add: proper_state_def attempt_state_def Let_def)

section \<open>The loop meets its specification\<close>

lemma logged_cases:
  assumes "logged act x st w = (r, w')" "quiet (act x st)"
  shows "\<exists>a. ar_state a = st \<and> ar_start a = now w \<and> ar_result a = r \<and> ar_end a = now w'
    \<and> user w' = user w @ [a]"
proof -
  obtain w1 where a: "act x st w = (r, w1)"
    and w': "w' = w1\<lparr>user := user w1 @ [\<lparr>ar_state = st, ar_start = now w, ar_result = r, ar_end = now w1\<rparr>]\<rparr>"
    using assms(1) by (auto simp: logged_def split: prod.splits)
  show ?thesis using quietD [OF assms(2) a] w' by simp
qed

lemma retry_loop_refines:
  assumes "\<And>s. quiet (act x s)" "quiet_backoff c"
    "retry_loop c (logged act) x start st attempt errs w = (r, w')"
  shows "\<exists>log. user w' = user w @ log \<and> retry_spec c x attempt errs log r
    \<and> (\<forall>b bs. log = b # bs \<longrightarrow> now w \<le> ar_start b)"
  using assms(3)
proof (induction "unat (MaxAttempts c) - unat attempt" arbitrary: attempt errs st w)
  case 0
  then have "\<not> attempt < MaxAttempts c" by (simp add: word_less_nat_alt)
  with "0.prems" show ?case by (auto simp: retry_loop.simps intro: no_attempt)
next
  case (Suc n)
  from Suc.hyps(2) have lt: "attempt < MaxAttempts c" by (simp add: word_less_nat_alt)
  note nxt = attempt_next [OF lt]
  let ?s = "\<lambda>t. (attempt_state st attempt errs)\<lparr>TotalDuration := time_Sub t start\<rparr>"
  let ?w1 = "clock_step w"
  let ?k = "\<lambda>err. case err of None \<Rightarrow> bind (success_token c) (\<lambda>_. ret None)
       | Some e \<Rightarrow> after_failure c x attempt errs e
           (retry_loop c (logged act) x start (attempt_state st attempt errs) (attempt + 1) (errs @ [e]))"
  from Suc.prems have "bind (logged act x (?s (now ?w1))) ?k ?w1 = (r, w')"
    by (subst (asm) retry_loop_step [OF lt]) (simp only: bind_time_Now)
  then show ?case
  proof (cases rule: bind_cases)
    case (Panic p)
    obtain a where a: "ar_state a = ?s (now ?w1)" "ar_start a = now ?w1" "ar_result a = Panic p"
      "user w' = user w @ [a]"
      using logged_cases [OF Panic(1) assms(1)] by auto
    then have "proper_state attempt errs (ar_state a)" by (simp add: proper_attempt_state)
    from panic [OF lt this a(3)] show ?thesis using a Panic(2) by auto
  next
    case (Ret err w2)
    obtain a where a: "ar_state a = ?s (now ?w1)" "ar_start a = now ?w1" "ar_result a = Ret err"
      "ar_end a = now w2" "user w2 = user w @ [a]"
      using logged_cases [OF Ret(1) assms(1)] by auto
    have p: "proper_state attempt errs (ar_state a)" by (simp add: a(1) proper_attempt_state)
    show ?thesis
    proof (cases err)
      case None
      then have "r = Ret None \<and> user w' = user w @ [a]"
        using Ret(2) success_token_Ret [of c w2] a(5) by auto
      then show ?thesis using success [OF lt p] a None by auto
    next
      case (Some e)
      from Ret(2) Some have
        "after_failure c x attempt errs e
           (retry_loop c (logged act) x start (attempt_state st attempt errs) (attempt + 1) (errs @ [e])) w2 = (r, w')"
        by simp
      then show ?thesis using assms(2)
      proof (cases rule: after_failure_cases)
        case over
        then show ?thesis using give_up [OF lt p] a Some by auto
      next
        case (cancelled e')
        then show ?thesis using retry_spec.cancelled [OF lt p _ cancelled(3-5)] a Some by auto
      next
        case (panics q)
        then show ?thesis using backoff_panics [OF lt p] a Some by auto
      next
        case (continues w3)
        have "n = unat (MaxAttempts c) - unat (attempt + 1)" using Suc.hyps(2) nxt by simp
        from Suc.hyps(1) [OF this continues(1)] obtain log where
          l: "user w' = user w3 @ log" "retry_spec c x (attempt + 1) (errs @ [e]) log r"
          "\<And>b bs. log = b # bs \<Longrightarrow> now w3 \<le> ar_start b" by blast
        have "log \<noteq> []" using l(2) continues(4) by (auto elim: retry_spec.cases)
        then obtain b bs where b: "log = b # bs" by (cases log) auto
        have "waited x e a b"
          using continues(5) l(3) [OF b] a(4) by (force simp: waited_def delay_respected_def)
        moreover have "attempt < attempt + 1" using nxt by (simp add: word_less_nat_alt)
        ultimately have "retry_spec c x attempt errs (a # b # bs) r"
          using again [OF continues(4) _ p _ continues(3)] l(2) b a(3) Some by simp
        then show ?thesis using l(1) continues(2) a b by auto
      qed
    qed
  qed
qed

text \<open>
  C1. The retry loop meets its specification. For every action, every configuration whose backoff
  minds its own business and every behaviour of the clock, of the other goroutines and of the random
  sources, the log of the attempts and the result of the call are related by \<open>retry_spec\<close>:
  attempts are numbered from zero and told the error of the previous one; the first success and the
  first panic end the call with that result; a failed attempt is followed by another only if attempts
  are left and its error does not stop the loop, and not before the delay a server asked for; and the
  errors are joined in the order in which they occurred.
\<close>

theorem retry_refines_spec:
  assumes "\<And>s. quiet (act x s)" "quiet_backoff c" "user w = []"
    "retryMiddleware c (logged act) x st w = (r, w')"
  shows "retry_spec c x 0 [] (user w') r"
proof -
  have "retry_loop c (logged act) x (now (clock_step w)) st 0 [] (clock_step w) = (r, w')"
    using assms(4) by (simp add: retryMiddleware_def)
  from retry_loop_refines [OF assms(1,2) this] assms(3) show ?thesis by auto
qed

definition sample_action :: "attempt_rec list do_action" where
  "sample_action x st = ret (if Attempt st < 2 then Some (UserError (unat (Attempt st))) else None)"

lemma quiet_sample [simp]: "quiet (sample_action x st)"
  by (simp add: sample_action_def quiet_ret)

definition sample_state :: retry_state where
  "sample_state = \<lparr>rs_Name = [], Attempt = 0, rs_MaxAttempts = 5, LastError = None, TotalDuration = 0, NextDelay = 0\<rparr>"

lemma quiet_default [simp]: "quiet_backoff (DefaultConfig r)"
  by (rule quiet_backoff_jitter [of _ r]) (simp add: DefaultConfig_def)

theorem retry_refines_spec_witness:
  "\<exists>r w'. retryMiddleware (DefaultConfig 0 :: (attempt_rec list, nat) config) (logged sample_action) Background
       sample_state (calm_world []) = (r, w')
     \<and> retry_spec (DefaultConfig 0 :: (attempt_rec list, nat) config) Background 0 [] (user w') r"
proof -
  obtain r w' where "retryMiddleware (DefaultConfig 0 :: (attempt_rec list, nat) config) (logged sample_action)
      Background sample_state (calm_world []) = (r, w')" by fastforce
  then show ?thesis
    using retry_refines_spec [of sample_action Background "DefaultConfig 0 :: (attempt_rec list, nat) config"
        "calm_world []" sample_state r w'] by simp
qed

definition two_tries :: "(attempt_rec list, nat) config" where
  "two_tries = (DefaultConfig 0)\<lparr>MaxAttempts := 2\<rparr>"

definition failing_action :: "attempt_rec list do_action" where
  "failing_action x st = ret (Some (RetryAfterErr 1 (DelayFor Second) False))"

lemma quiet_failing [simp]: "quiet (failing_action x st)"
  by (simp add: failing_action_def quiet_ret)

lemma two_tries_simps [simp]:
  "MaxAttempts two_tries = 2" "Backoff two_tries = FullJitter 0" "AdaptiveBucket two_tries = None"
  "Policy two_tries = default_policy"
  by (simp_all add: two_tries_def DefaultConfig_def)

lemma logged_failing: "logged failing_action x st w =
   (Ret (Some (RetryAfterErr 1 (DelayFor Second) False)), w\<lparr>user := user w @ [\<lparr>ar_state = st, ar_start = now w,
      ar_result = Ret (Some (RetryAfterErr 1 (DelayFor Second) False)), ar_end = now w\<rparr>]\<rparr>)"
  by (simp add: logged_def failing_action_def)

lemma sleep_Background: "sleep Background d w = (Ret None, snd (sleep Background d w))"
  using sleep_undone [of Background d w] by (auto simp: done_at_def Background_def)

lemma shouldRetry_again: "shouldRetry default_policy (Some (RetryAfterErr a b c))"
  by (simp add: shouldRetry_default stops_def isFatal_def)

text \<open>A call of two attempts that both ask for a delay of a second.\<close>

lemma calm_jitter:
  assumes "orc w = calm" "heap w = empty_heap"
  shows "jitter_next 0 a w = (Ret 0, w\<lparr>tick := Suc (Suc (tick w))\<rparr>)"
proof -
  have "interfere w = w\<lparr>tick := Suc (tick w)\<rparr>" using assms by (simp add: interfere_def)
  moreover have "fullJitter_Next oor (NewFullJitter (100 * Millisecond) (30 * Second)) a 0 = Inr 0" for oor
    by (simp add: fullJitter_capped duration_units)
  ultimately show ?thesis using assms by (simp add: jitter_next_def Let_def empty_heap_def calm_def)
qed

lemma two_tries_run:
  "\<exists>w'. retryMiddleware two_tries (logged failing_action) Background sample_state (calm_world [])
    = (Ret (Some (JoinErr [RetryAfterErr 1 (DelayFor Second) False, RetryAfterErr 1 (DelayFor Second) False])), w')
    \<and> length (user w') = 2"
proof -
  have q: "user (snd (sleep Background d w)) = user w" for d and w :: "attempt_rec list world"
    using quietD [OF quiet_sleep sleep_Background] by blast
  have two: "\<not> (2 :: u64) \<le> 1" by (simp add: word_le_nat_alt)
  show ?thesis
    by (simp add: two retryMiddleware_def retry_loop_step logged_failing after_failure_def shouldRetry_again
        retry_token_def delay_and_retry_def RetryAfter_def bind_Ret [OF logged_failing] bind_Ret [OF calm_jitter]
        bind_Ret [OF sleep_Background] q joined_simps)
qed

lemma two_tries_quiet [simp]: "quiet_backoff two_tries"
  by (simp add: quiet_backoff_jitter [of _ 0])

section \<open>Consequences\<close>

lemma spec_numbering:
  assumes "retry_spec c x attempt errs l r"
  shows "(i < length l \<longrightarrow> unat (Attempt (ar_state (l ! i))) = unat attempt + i)
    \<and> length l \<le> unat (MaxAttempts c) - unat attempt"
  using assms
proof (induction arbitrary: i rule: retry_spec.induct)
  case (again attempt errs a e b bs r)
  have n: "unat (attempt + 1) = Suc (unat attempt)"
    using again.hyps(1,2) by (intro attempt_next [of _ "attempt + 1"])
  have "unat (attempt + 1) < unat (MaxAttempts c)" using again.hyps(1) by (simp add: word_less_nat_alt)
  then show ?case
    using again.IH [of "i - 1"] again.hyps(3) n by (cases i) (auto simp: proper_state_def)
qed (auto simp: proper_state_def word_less_nat_alt)

text \<open>
  C8. A retried call runs its action at most \<open>MaxAttempts\<close> times, and the attempts are told
  their numbers: the \<open>i\<close>-th one, from zero, gets \<open>i\<close> as its
  \<^verbatim>\<open>RetryState.Attempt\<close>.
\<close>

theorem retry_attempts_bounded_and_numbered:
  assumes "\<And>s. quiet (act x s)" "quiet_backoff c" "user w = []"
    "retryMiddleware c (logged act) x st w = (r, w')"
  shows "length (user w') \<le> unat (MaxAttempts c)
    \<and> (\<forall>i < length (user w'). unat (Attempt (ar_state (user w' ! i))) = i)"
  using spec_numbering [OF retry_refines_spec [OF assms]] by simp

theorem retry_attempts_bounded_and_numbered_witness:
  "length (user (snd (retryMiddleware (DefaultConfig 0 :: (attempt_rec list, nat) config) (logged sample_action)
     Background sample_state (calm_world [])))) \<le> 5"
  using retry_attempts_bounded_and_numbered [of sample_action Background
      "DefaultConfig 0 :: (attempt_rec list, nat) config" "calm_world []" sample_state, OF _ _ _ prod.collapse [symmetric]]
  by (simp add: DefaultConfig_def [of 0]) (simp flip: DefaultConfig_def)

lemma spec_successors:
  assumes "retry_spec c x attempt errs l r" "Suc i < length l"
  shows "\<exists>e. ar_result (l ! i) = Ret (Some e) \<and> \<not> stops_retry c e \<and> waited x e (l ! i) (l ! Suc i)"
  using assms
proof (induction arbitrary: i rule: retry_spec.induct)
  case (again attempt errs a e b bs r)
  then show ?case by (cases i) auto
qed simp_all

text \<open>
  C6. An attempt follows another only for a reason: the earlier one failed, with an error that is
  not fatal, not a cancellation or a missed deadline, not from an open circuit, accepted by the policy
  and without the order to cancel all retries; and if that error asks for a delay, or to wait for an
  instant, then the delay has passed, or the instant, between the end of the one and the start of the
  other, unless the context carries the testing bypass.
\<close>

theorem retry_respects_stops_and_delays:
  assumes "\<And>s. quiet (act x s)" "quiet_backoff c" "user w = []"
    "retryMiddleware c (logged act) x st w = (r, w')" "Suc i < length (user w')"
  shows "\<exists>e. ar_result (user w' ! i) = Ret (Some e) \<and> \<not> stops e \<and> \<not> errors_Is e ErrCircuitOpen
    \<and> shouldRetry (Policy c) (Some e) \<and> (\<forall>d. errors_As as_retry_after e \<noteq> Some (d, True))
    \<and> (\<forall>d. errors_As as_retry_after e = Some (d, False) \<and> \<not> ctx_bypass x \<longrightarrow>
         ar_end (user w' ! i) + asked_at (ar_end (user w' ! i)) d \<le> ar_start (user w' ! Suc i))"
proof -
  obtain e where e: "ar_result (user w' ! i) = Ret (Some e)" "\<not> stops_retry c e"
    "waited x e (user w' ! i) (user w' ! Suc i)"
    using spec_successors [OF retry_refines_spec [OF assms(1-4)] assms(5)] by blast
  then have "shouldRetry (Policy c) (Some e)" by (simp add: stops_retry_def)
  with e show ?thesis
    using shouldRetry_stops by (fastforce simp: stops_retry_def waited_def delay_respected_def)
qed

theorem retry_respects_stops_and_delays_witness:
  "\<exists>w'. retryMiddleware two_tries (logged failing_action) Background sample_state (calm_world [])
      = (Ret (Some (JoinErr [RetryAfterErr 1 (DelayFor Second) False, RetryAfterErr 1 (DelayFor Second) False])), w')
    \<and> (\<exists>e. ar_result (user w' ! 0) = Ret (Some e) \<and> shouldRetry default_policy (Some e))"
proof -
  obtain w' where w': "retryMiddleware two_tries (logged failing_action) Background sample_state (calm_world [])
      = (Ret (Some (JoinErr [RetryAfterErr 1 (DelayFor Second) False, RetryAfterErr 1 (DelayFor Second) False])), w')" "length (user w') = 2"
    using two_tries_run by blast
  then show ?thesis
    using retry_respects_stops_and_delays [of failing_action Background two_tries "calm_world []" sample_state _ w' 0]
    by auto
qed

lemma spec_result:
  assumes "retry_spec c x attempt errs l r" "attempt < MaxAttempts c"
  shows "l \<noteq> [] \<and> (r = Ret None \<longleftrightarrow> ar_result (last l) = Ret None)
    \<and> (\<forall>a \<in> set l. \<forall>e e'. r = Ret (Some e) \<and> ar_result a = Ret (Some e') \<longrightarrow> errors_Is e e')
    \<and> (\<forall>e. r = Ret (Some e) \<longrightarrow> (\<forall>e' \<in> set errs. errors_Is e e'))"
  using assms
proof (induction rule: retry_spec.induct)
  case (again attempt errs a e b bs r)
  then show ?case by auto
qed (auto simp: joined_simps errors_Is_self, (use errors_Is_self in blast)+)

text \<open>
  C9. With at least one attempt configured, the result is the outcome of the last attempt or its
  explanation: the call returns nil exactly when its last attempt did, and an error it returns
  contains, for \<^verbatim>\<open>errors.Is\<close>, the error of every failed attempt, so that no failure
  is lost.
\<close>

theorem retry_error_contains_every_attempt:
  assumes "\<And>s. quiet (act x s)" "quiet_backoff c" "user w = []"
    "retryMiddleware c (logged act) x st w = (r, w')" "0 < MaxAttempts c"
  shows "(r = Ret None \<longleftrightarrow> user w' \<noteq> [] \<and> ar_result (last (user w')) = Ret None)
    \<and> (\<forall>a \<in> set (user w'). \<forall>e e'. r = Ret (Some e) \<and> ar_result a = Ret (Some e') \<longrightarrow> errors_Is e e')"
  using spec_result [OF retry_refines_spec [OF assms(1-4)] assms(5)] by blast

theorem retry_error_contains_every_attempt_witness:
  "\<exists>r w'. retryMiddleware two_tries (logged failing_action) Background sample_state (calm_world []) = (r, w')
     \<and> (r = Ret None \<longleftrightarrow> user w' \<noteq> [] \<and> ar_result (last (user w')) = Ret None)"
proof -
  obtain r w' where w': "retryMiddleware two_tries (logged failing_action) Background sample_state (calm_world []) = (r, w')"
    by fastforce
  from retry_error_contains_every_attempt [OF _ _ _ this] show ?thesis using w' by auto
qed

lemma spec_perseveres:
  assumes "retry_spec c x attempt errs l r" "AdaptiveBucket c = None" "done_at x = None"
    "r \<noteq> Ret None" "attempt < MaxAttempts c"
  shows "length l = unat (MaxAttempts c) - unat attempt
    \<or> (\<exists>p. ar_result (last l) = Panic p) \<or> (\<exists>e. ar_result (last l) = Ret (Some e) \<and> stops_retry c e)
    \<or> (\<exists>p. r = Panic p \<and> ar_result (last l) \<noteq> Panic p)"
  using assms
proof (induction rule: retry_spec.induct)
  case (again attempt errs a e b bs r)
  have "unat (attempt + 1) = Suc (unat attempt)"
    using again.hyps(1,2) by (intro attempt_next [of _ "attempt + 1"])
  with again show ?case by (auto simp: word_less_nat_alt)
next
  case (give_up attempt errs a e)
  have n: "unat (attempt + 1) = Suc (unat attempt)" using give_up.hyps(1) by (rule attempt_next)
  show ?case
  proof (cases "stops_retry c e")
    case False
    then have "MaxAttempts c \<le> attempt + 1" using give_up by simp
    then have "unat (MaxAttempts c) \<le> Suc (unat attempt)" "unat attempt < unat (MaxAttempts c)"
      using n give_up.hyps(1) by (simp_all add: word_le_nat_alt word_less_nat_alt)
    then have "length [a] = unat (MaxAttempts c) - unat attempt" by simp
    then show ?thesis by (rule disjI1)
  qed (use give_up in auto)
qed auto

text \<open>A panic of the loop is one of its last attempt, when the backoff returns.\<close>

lemma bind_passes:
  assumes "returns c w0 m" "\<And>a w. intact c w0 w \<Longrightarrow> Q (f a w)" "intact c w0 w"
  shows "Q (bind m f w)"
proof -
  obtain a w1 where "m w = (Ret a, w1)" "intact c w0 w1" using returnsD [OF assms(1,3)] by blast
  then show ?thesis using assms(2) by simp
qed

lemma after_failure_passes:
  assumes "backoff_returns c w0" "attempt < MaxAttempts c" "\<And>e w. Q (Ret e, w)" "\<And>w. intact c w0 w \<Longrightarrow> Q (continue w)"
    "intact c w0 w"
  shows "Q (after_failure c x attempt errs e continue w)"
proof -
  have q: "Q (ret e w)" for e w using assms(3) by simp
  let ?slept = "\<lambda>d. bind (sleep x d) (\<lambda>serr. case serr of Some e' \<Rightarrow> ret (joined (errs @ [e, e'])) | None \<Rightarrow> continue)"
  have slept: "Q (?slept d w)" if "intact c w0 w" for d w
  proof (rule bind_passes [where Q = Q, OF returns_tokens(3) _ that])
    show "Q ((case serr of Some e' \<Rightarrow> ret (joined (errs @ [e, e'])) | None \<Rightarrow> continue) w)" if "intact c w0 w" for serr w
      using assms(4) [OF that] q by (cases serr) (simp_all del: ret_apply)
  qed
  have asked: "Q (bind (RetryAfter d) ?slept w)" if "intact c w0 w" for d w
    by (rule bind_passes [where Q = Q, OF returns_tokens(4) slept that])
  have delayed: "Q (delay_and_retry c x attempt errs e continue w)" if "intact c w0 w" for w
    unfolding delay_and_retry_def
  proof (rule bind_passes [where Q = Q, OF returns_backoff [OF assms(1,2)] _ that])
    fix delay w
    assume w: "intact c w0 w"
    show "Q ((case errors_As as_retry_after e of Some (d, True) \<Rightarrow> ret (joined (errs @ [e]))
       | ra \<Rightarrow> bind (case ra of Some (d, _) \<Rightarrow> RetryAfter d | None \<Rightarrow> ret delay) ?slept) w)"
    proof (cases "errors_As as_retry_after e")
      case None
      then show ?thesis using slept [OF w, of delay] by simp
    next
      case (Some da)
      obtain d order where "da = (d, order)" by fastforce
      then show ?thesis using Some asked [OF w, of d] q by (cases order) (simp_all del: ret_apply)
    qed
  qed
  have "Q (bind (retry_token c) (\<lambda>paid. if \<not> paid then ret (joined (errs @ [e])) else delay_and_retry c x attempt errs e continue) w)"
  proof (rule bind_passes [where Q = Q, OF returns_tokens(1) _ assms(5)])
    show "Q ((if \<not> paid then ret (joined (errs @ [e])) else delay_and_retry c x attempt errs e continue) w)"
      if "intact c w0 w" for paid w
      using delayed [OF that] q by (cases paid) (simp_all del: ret_apply)
  qed
  then show ?thesis unfolding after_failure_def using q by (simp del: ret_apply)
qed

definition panic_is_last :: "'a result \<times> attempt_rec list world \<Rightarrow> bool" where
  "panic_is_last rw \<longleftrightarrow> (\<forall>p. fst rw = Panic p \<longrightarrow> ar_result (last (user (snd rw))) = Panic p)"

lemma retry_loop_panics:
  assumes "\<And>s. relates (backoff_kept c) (act x s)" "backoff_returns c w0" "intact c w0 w"
  shows "panic_is_last (retry_loop c (logged act) x start st attempt errs w)"
  using assms(3)
proof (induction "unat (MaxAttempts c) - unat attempt" arbitrary: attempt errs st w)
  case 0
  then have "\<not> attempt < MaxAttempts c" by (simp add: word_less_nat_alt)
  then show ?case by (simp add: retry_loop.simps panic_is_last_def)
next
  case (Suc n)
  then have lt: "attempt < MaxAttempts c" by (simp add: word_less_nat_alt)
  have "n = unat (MaxAttempts c) - unat (attempt + 1)" using Suc.hyps(2) attempt_next [OF lt] by simp
  note more = Suc.hyps(1) [OF this]
  let ?s = "(attempt_state st attempt errs)\<lparr>TotalDuration := time_Sub (now (clock_step w)) start\<rparr>"
  obtain r w1 where a: "act x ?s (clock_step w) = (r, w1)" by fastforce
  let ?w2 = "w1\<lparr>user := user w1 @ [\<lparr>ar_state = ?s, ar_start = now (clock_step w), ar_result = r, ar_end = now w1\<rparr>]\<rparr>"
  have l: "logged act x ?s (clock_step w) = (r, ?w2)" using a by (simp add: logged_def)
  have "intact c w0 w1" using intact_relates [OF _ assms(1) a] Suc.prems by simp
  then have i: "intact c w0 ?w2" by simp
  show ?case
  proof (cases r)
    case (Panic p)
    then show ?thesis using l by (simp add: retry_loop_step [OF lt] panic_is_last_def)
  next
    case (Ret err)
    have "panic_is_last ((case err of None \<Rightarrow> bind (success_token c) (\<lambda>_. ret None)
       | Some e \<Rightarrow> after_failure c x attempt errs e
           (retry_loop c (logged act) x start (attempt_state st attempt errs) (attempt + 1) (errs @ [e]))) ?w2)"
    proof (cases err)
      case None
      obtain w3 where "success_token c ?w2 = (Ret (), w3)" using success_token_Ret by blast
      then show ?thesis using None by (simp add: panic_is_last_def)
    next
      case (Some e)
      show ?thesis unfolding Some option.case
        by (rule after_failure_passes [OF assms(2) lt _ _ i]) (simp add: panic_is_last_def, rule more)
    qed
    then show ?thesis using l Ret by (simp add: retry_loop_step [OF lt])
  qed
qed

text \<open>
  C7. A call does not give up early. Without a retry bucket and with a context that never ends, a
  call that does not succeed has made all \<open>MaxAttempts\<close> attempts, unless its last one panicked or failed
  with an error that forbids a retry. The backoff is the full jitter with any parameters for which it does not
  panic, the default ones among them (\<open>safe_jitter\<close>), or an implementation of the caller that
  returns; nobody but \<^verbatim>\<open>NewFullJitter\<close> writes those parameters.
\<close>

theorem retry_perseveres:
  assumes "\<And>s. quiet (act x s)" "quiet_backoff c" "user w = []"
    "retryMiddleware c (logged act) x st w = (r, w')" "0 < MaxAttempts c"
    "AdaptiveBucket c = None" "done_at x = None"
    "backoff_returns c w" "\<And>s. relates (backoff_kept c) (act x s)" "r \<noteq> Ret None"
  shows "length (user w') = unat (MaxAttempts c)
    \<or> (\<exists>p. ar_result (last (user w')) = Panic p)
    \<or> (\<exists>e. ar_result (last (user w')) = Ret (Some e) \<and> stops_retry c e)"
proof -
  have "intact c w (clock_step w)" using assms(8) by (simp add: backoff_returns_def intact_refl)
  from retry_loop_panics [where act = act and x = x, OF assms(9,8) this, of "now (clock_step w)" st 0 "[]"]
  have "panic_is_last (r, w')" using assms(4) by (simp add: retryMiddleware_def)
  then show ?thesis
    using spec_perseveres [OF retry_refines_spec [OF assms(1-4)] assms(6,7,10,5)] by (auto simp: panic_is_last_def)
qed

text \<open>The default backoff, and an action that fails twice.\<close>

theorem retry_perseveres_witness:
  "\<exists>w'. retryMiddleware two_tries (logged failing_action) Background sample_state (calm_world [])
      = (Ret (Some (JoinErr [RetryAfterErr 1 (DelayFor Second) False, RetryAfterErr 1 (DelayFor Second) False])), w')
     \<and> (length (user w') = 2 \<or> (\<exists>p. ar_result (last (user w')) = Panic p)
         \<or> (\<exists>e. ar_result (last (user w')) = Ret (Some e) \<and> stops_retry two_tries e))"
proof -
  obtain w' where w': "retryMiddleware two_tries (logged failing_action) Background sample_state (calm_world [])
      = (Ret (Some (JoinErr [RetryAfterErr 1 (DelayFor Second) False, RetryAfterErr 1 (DelayFor Second) False])), w')"
    using two_tries_run by blast
  have "done_at Background = None" by (simp add: done_at_def Background_def)
  moreover have "backoff_returns two_tries (calm_world [])"
    by (rule backoff_returns_default [of _ 0]) (simp_all add: empty_heap_def)
  moreover have "relates (backoff_kept two_tries) (failing_action Background s)" for s
    by (simp add: relates_def backoff_kept_def failing_action_def intact_refl)
  ultimately show ?thesis using retry_perseveres [OF _ _ _ w'] w' by auto
qed

text \<open>
  A configuration of zero attempts is a success: the action never runs, and the call returns
  no error.
\<close>

theorem retry_zero_attempts_succeeds:
  assumes "MaxAttempts c = 0"
  shows "fst (retryMiddleware c next x st w) = Ret None"
  using assms by (simp add: retryMiddleware_def retry_loop.simps joined_simps)

theorem retry_zero_attempts_succeeds_witness:
  "fst (retryMiddleware (two_tries\<lparr>MaxAttempts := 0\<rparr>) (logged failing_action) Background sample_state (calm_world []))
     = Ret None"
  by (rule retry_zero_attempts_succeeds) simp

end
