(* ===== verification/Pipeline.thy ===== *)
theory Pipeline
  imports Retry_Loop
begin

text \<open>
  The composition of the middlewares (\<^verbatim>\<open>retry.go\<close>): the closures behind the
  names, the order of the default pipeline, the cached composition, and the execution of a call
  through it.
\<close>

section \<open>Composition\<close>

fun apply_mw :: "('u, 't) config \<Rightarrow> middleware \<Rightarrow> 'u do_action \<Rightarrow> 'u do_action" where
  "apply_mw c MwRateLimiter = rateLimiterMiddleware c"
| "apply_mw c MwAdaptiveLimiter = adaptiveLimiterMiddleware c"
| "apply_mw c MwBulkhead = bulkheadMiddleware c"
| "apply_mw c MwPriorityBulkhead = priorityBulkheadMiddleware c"
| "apply_mw c MwRetry = retryMiddleware c"
| "apply_mw c MwDeadline = deadlineMiddleware c"
| "apply_mw c (MwTimeout d) = timeoutMiddleware d"
| "apply_mw c MwCircuitBreaker = circuitBreakerMiddleware c"
| "apply_mw c MwInstrumenter = instrumenterMiddleware c"
| "apply_mw c MwPanicRecovery = panicRecoveryMiddleware"
| "apply_mw c MwChaos = chaosMiddleware c"
| "apply_mw c MwFallback = fallbackMiddleware c"

definition compose :: "('u, 't) config \<Rightarrow> middleware list \<Rightarrow> 'u do_action \<Rightarrow> 'u do_action" where
  "compose c mws terminal = foldr (apply_mw c) mws terminal"

lemma compose_simps [simp]:
  "compose c [] t = t"
  "compose c (m # ms) t = apply_mw c m (compose c ms t)"
  "compose c (ms @ ms') t = compose c ms (compose c ms' t)"
  by (simp_all add: compose_def)

text \<open>The action a call carries: a simple one, one that is given the state, or none.\<close>

definition terminalAction ::
  "'u do_action option \<Rightarrow> (ctx \<Rightarrow> ('u, go_error option) prog) option \<Rightarrow> 'u do_action" where
  "terminalAction action simpleAction x st =
     (case simpleAction of
        Some f \<Rightarrow> f x
      | None \<Rightarrow> (case action of None \<Rightarrow> ret None | Some f \<Rightarrow> f x st))"

definition default_middlewares :: "('u, 't) config \<Rightarrow> middleware list" where
  "default_middlewares c =
     (if RateLimiter c \<noteq> None then [MwRateLimiter] else []) @
     (if AdaptiveLimiter c \<noteq> None then [MwAdaptiveLimiter] else []) @
     (if Bulkhead c \<noteq> None then [MwBulkhead] else []) @
     (if PriorityBulkhead c \<noteq> None then [MwPriorityBulkhead] else []) @
     [MwRetry, MwDeadline] @
     (if Timeout c > 0 then [MwTimeout (Timeout c)] else []) @
     (if CircuitBreaker c \<noteq> None then [MwCircuitBreaker] else []) @
     [MwInstrumenter] @
     (if RecoverPanics c then [MwPanicRecovery] else []) @
     (if Chaos c \<noteq> None then [MwChaos] else [])"

definition current_pipeline :: "('u, 't) config \<Rightarrow> middleware list" where
  "current_pipeline c = (case pipeline c of None \<Rightarrow> [] | Some p \<Rightarrow> p)"

definition buildDefaultPipeline :: "('u, 't) config \<Rightarrow> ('u, 't) config" where
  "buildDefaultPipeline c = c\<lparr>pipeline := Some (current_pipeline c @ default_middlewares c)\<rparr>"

text \<open>The composed pipeline, kept in the configuration once it is made.\<close>

definition getComposedPipeline :: "('u, 't) config \<Rightarrow> middleware list \<times> ('u, 't) config" where
  "getComposedPipeline c =
     (case composedPipeline c of
        Some h \<Rightarrow> (h, c)
      | None \<Rightarrow>
          (let c = (if length (current_pipeline c) = 0 then buildDefaultPipeline c else c);
               h = current_pipeline c
           in (h, c\<lparr>composedPipeline := Some h\<rparr>)))"

definition initial_state :: "('u, 't) config \<Rightarrow> retry_state" where
  "initial_state c =
     \<lparr>rs_Name = Name c, Attempt = 0, rs_MaxAttempts = MaxAttempts c, LastError = None,
      TotalDuration = 0, NextDelay = 0\<rparr>"

definition execute ::
  "('u, 't) config \<Rightarrow> ctx \<Rightarrow> 'u do_action option \<Rightarrow> (ctx \<Rightarrow> ('u, go_error option) prog) option
     \<Rightarrow> ('u, go_error option) prog" where
  "execute c x action simpleAction =
     (let (h, c') = getComposedPipeline c
      in compose c' h (terminalAction action simpleAction) x (initial_state c'))"

declare buildDefaultPipeline_def [op_defs] getComposedPipeline_def [op_defs] execute_def [op_defs]

text \<open>Middlewares read the fields of a component, not the pipeline.\<close>

lemma retry_loop_pipeline:
  "retry_loop (c\<lparr>pipeline := p, composedPipeline := q\<rparr>) next x start st attempt errs w
     = retry_loop c next x start st attempt errs w"
proof (induction "unat (MaxAttempts c) - unat attempt" arbitrary: attempt errs st w)
  case 0
  then have "\<not> attempt < MaxAttempts c" by (simp add: word_less_nat_alt)
  then show ?case by (simp add: retry_loop.simps)
next
  case (Suc n)
  then have lt: "attempt < MaxAttempts c" by (simp add: word_less_nat_alt)
  have "n = unat (MaxAttempts c) - unat (attempt + 1)" using Suc.hyps(2) attempt_next [OF lt] by simp
  from Suc.hyps(1) [OF this] have
    "retry_loop (c\<lparr>pipeline := p, composedPipeline := q\<rparr>) next x start st' (attempt + 1) errs'
      = retry_loop c next x start st' (attempt + 1) errs'" for st' errs'
    by (simp add: fun_eq_iff)
  then show ?case
    by (simp add: retry_loop_step lt after_failure_def delay_and_retry_def retry_token_def success_token_def
        cong: option.case_cong if_cong)
qed

lemma apply_mw_pipeline: "apply_mw (c\<lparr>pipeline := p, composedPipeline := q\<rparr>) m = apply_mw c m"
  by (cases m) (simp_all add: fun_eq_iff middleware_defs instrument_def retryMiddleware_def Let_def
      retry_loop_pipeline [THEN ext] cong: if_cong option.case_cong)

lemma compose_pipeline: "compose (c\<lparr>pipeline := p, composedPipeline := q\<rparr>) ms t = compose c ms t"
  by (induction ms) (simp_all add: apply_mw_pipeline)

text \<open>
  The composed pipeline is built once: after the first call the configuration answers with the
  same pipeline, unchanged, for ever; in particular the default pipeline is not appended again.
\<close>

theorem composed_pipeline_is_stable:
  "getComposedPipeline (snd (getComposedPipeline c)) = getComposedPipeline c"
  by (simp add: getComposedPipeline_def Let_def split: option.split)

text \<open>The default pipeline of a configuration that was made without a policy.\<close>

lemma execute_default:
  assumes "composedPipeline c = None" "current_pipeline c = []"
  shows "execute c x a s = compose c (default_middlewares c) (terminalAction a s) x (initial_state c)"
proof -
  have g: "getComposedPipeline c = (default_middlewares c,
      c\<lparr>pipeline := Some (default_middlewares c), composedPipeline := Some (default_middlewares c)\<rparr>)"
    using assms by (simp add: getComposedPipeline_def buildDefaultPipeline_def current_pipeline_def Let_def
        split: option.splits)
  show ?thesis
    unfolding execute_def g Let_def prod.case compose_pipeline by (simp add: initial_state_def)
qed

end
