(* ===== verification/Options.thy ===== *)
theory Options
  imports Pipeline
begin

text \<open>
  The functional options (\<^verbatim>\<open>options.go\<close>) and the two ways to apply them: to the
  default configuration (\<^verbatim>\<open>New\<close> and the package functions of
  \<^verbatim>\<open>retry.go\<close>) and to one whose pipeline is recorded in the order of the options
  (\<^verbatim>\<open>NewPolicy\<close> of \<^verbatim>\<open>policy.go\<close>).

  An option transforms what is being built: the configuration, and the heap in which components
  are allocated. Some options add their middleware, but only to a pipeline that is not nil.
\<close>

record ('u, 't) builder =
  cfg :: "('u, 't) config"
  b_heap :: shared
  b_next :: nat
  b_now :: time

type_synonym ('u, 't) opt = "('u, 't) builder \<Rightarrow> ('u, 't) builder"

definition add_mw :: "middleware \<Rightarrow> ('u, 't) config \<Rightarrow> ('u, 't) config" where
  "add_mw m c = (case pipeline c of None \<Rightarrow> c | Some p \<Rightarrow> c\<lparr>pipeline := Some (p @ [m])\<rparr>)"

section \<open>Options that set a field\<close>

definition WithFallback :: "(ctx \<Rightarrow> go_error \<Rightarrow> ('u, 't \<times> go_error option) prog) \<Rightarrow> ('u, 't) opt" where
  "WithFallback f b = b\<lparr>cfg := add_mw MwFallback ((cfg b)\<lparr>Fallback := FallbackValue f\<rparr>)\<rparr>"

definition WithFallbackErr :: "(ctx \<Rightarrow> go_error \<Rightarrow> ('u, go_error option) prog) \<Rightarrow> ('u, 't) opt" where
  "WithFallbackErr f b = b\<lparr>cfg := add_mw MwFallback ((cfg b)\<lparr>Fallback := FallbackErr f\<rparr>)\<rparr>"

definition WithName :: "string \<Rightarrow> ('u, 't) opt" where
  "WithName name b = b\<lparr>cfg := (cfg b)\<lparr>Name := name\<rparr>\<rparr>"

definition WithMaxAttempts :: "u64 \<Rightarrow> ('u, 't) opt" where
  "WithMaxAttempts attempts b = b\<lparr>cfg := add_mw MwRetry ((cfg b)\<lparr>MaxAttempts := attempts\<rparr>)\<rparr>"

definition WithRetry :: "u64 \<Rightarrow> ('u, 't) opt" where
  "WithRetry attempts b = b\<lparr>cfg := add_mw MwRetry ((cfg b)\<lparr>MaxAttempts := attempts\<rparr>)\<rparr>"

definition WithBackoff :: "'u backoff \<Rightarrow> ('u, 't) opt" where
  "WithBackoff backoff b = b\<lparr>cfg := (cfg b)\<lparr>Backoff := backoff\<rparr>\<rparr>"

definition WithRetryIf :: "go_error option \<Rightarrow> ('u, 't) opt" where
  "WithRetryIf target b = b\<lparr>cfg := (cfg b)\<lparr>Policy := (Policy (cfg b))\<lparr>retryIf := target\<rparr>\<rparr>\<rparr>"

definition WithRetryIfFunc :: "(go_error \<Rightarrow> bool) option \<Rightarrow> ('u, 't) opt" where
  "WithRetryIfFunc f b = b\<lparr>cfg := (cfg b)\<lparr>Policy := (Policy (cfg b))\<lparr>retryIfFunc := f\<rparr>\<rparr>\<rparr>"

definition WithInstrumenter :: "'u instrumenter option \<Rightarrow> ('u, 't) opt" where
  "WithInstrumenter instr b = b\<lparr>cfg := add_mw MwInstrumenter ((cfg b)\<lparr>Instrumenter := instr\<rparr>)\<rparr>"

definition WithCircuitBreaker :: "nat option \<Rightarrow> ('u, 't) opt" where
  "WithCircuitBreaker cb b = b\<lparr>cfg := add_mw MwCircuitBreaker ((cfg b)\<lparr>CircuitBreaker := cb\<rparr>)\<rparr>"

definition WithBulkheadInstance :: "nat option \<Rightarrow> ('u, 't) opt" where
  "WithBulkheadInstance bh b = b\<lparr>cfg := add_mw MwBulkhead ((cfg b)\<lparr>Bulkhead := bh\<rparr>)\<rparr>"

definition WithPriorityBulkheadInstance :: "nat option \<Rightarrow> ('u, 't) opt" where
  "WithPriorityBulkheadInstance bh b = b\<lparr>cfg := add_mw MwPriorityBulkhead ((cfg b)\<lparr>PriorityBulkhead := bh\<rparr>)\<rparr>"

definition WithRateLimiterInstance :: "nat option \<Rightarrow> ('u, 't) opt" where
  "WithRateLimiterInstance rl b = b\<lparr>cfg := add_mw MwRateLimiter ((cfg b)\<lparr>RateLimiter := rl\<rparr>)\<rparr>"

definition WithAdaptiveLimiterInstance :: "nat option \<Rightarrow> ('u, 't) opt" where
  "WithAdaptiveLimiterInstance al b = b\<lparr>cfg := add_mw MwAdaptiveLimiter ((cfg b)\<lparr>AdaptiveLimiter := al\<rparr>)\<rparr>"

definition WithTimeout :: "duration \<Rightarrow> ('u, 't) opt" where
  "WithTimeout timeout b = b\<lparr>cfg := add_mw (MwTimeout timeout) ((cfg b)\<lparr>Timeout := timeout\<rparr>)\<rparr>"

definition WithHedgingDelay :: "duration \<Rightarrow> ('u, 't) opt" where
  "WithHedgingDelay delay b = b\<lparr>cfg := (cfg b)\<lparr>HedgingDelay := delay\<rparr>\<rparr>"

definition WithAdaptiveBucket :: "nat option \<Rightarrow> ('u, 't) opt" where
  "WithAdaptiveBucket bucket b = b\<lparr>cfg := (cfg b)\<lparr>AdaptiveBucket := bucket\<rparr>\<rparr>"

definition WithPanicRecovery :: "('u, 't) opt" where
  "WithPanicRecovery b = b\<lparr>cfg := add_mw MwPanicRecovery ((cfg b)\<lparr>RecoverPanics := True\<rparr>)\<rparr>"

definition WithChaos :: "chaos_config \<Rightarrow> ('u, 't) opt" where
  "WithChaos ccfg b = b\<lparr>cfg := add_mw MwChaos ((cfg b)\<lparr>Chaos := Some (NewInjector ccfg)\<rparr>)\<rparr>"

definition WithMinDeadlineThreshold :: "duration \<Rightarrow> ('u, 't) opt" where
  "WithMinDeadlineThreshold threshold b = b\<lparr>cfg := add_mw MwDeadline ((cfg b)\<lparr>MinDeadlineThreshold := threshold\<rparr>)\<rparr>"

section \<open>Options that change the default backoff\<close>

text \<open>They write through the pointer, so into an instance that others may share.\<close>

definition update_jitter :: "(full_jitter \<Rightarrow> full_jitter) \<Rightarrow> ('u, 't) opt" where
  "update_jitter f b =
     (case Backoff (cfg b) of
        FullJitter r \<Rightarrow> b\<lparr>b_heap := (b_heap b)\<lparr>h_jitters := (h_jitters (b_heap b))(r := f (h_jitters (b_heap b) r))\<rparr>\<rparr>
      | CustomBackoff g \<Rightarrow> b)"

definition WithBaseDelay :: "duration \<Rightarrow> ('u, 't) opt" where
  "WithBaseDelay delay b =
     update_jitter (\<lambda>fj. fj\<lparr>fj_base := delay\<rparr>) (b\<lparr>cfg := (cfg b)\<lparr>BaseDelay := delay\<rparr>\<rparr>)"

definition WithMaxDelay :: "duration \<Rightarrow> ('u, 't) opt" where
  "WithMaxDelay delay b =
     update_jitter (\<lambda>fj. fj\<lparr>fj_cap := delay\<rparr>) (b\<lparr>cfg := (cfg b)\<lparr>MaxDelay := delay\<rparr>\<rparr>)"

section \<open>Options that allocate a component\<close>

definition alloc :: "(nat \<Rightarrow> shared \<Rightarrow> shared) \<Rightarrow> ('u, 't) opt" where
  "alloc f b = b\<lparr>b_heap := f (b_next b) (b_heap b), b_next := Suc (b_next b)\<rparr>"

definition WithBulkhead :: "nat \<Rightarrow> ('u, 't) opt" where
  "WithBulkhead capacity b =
     WithBulkheadInstance (Some (b_next b))
       (alloc (\<lambda>r h. h\<lparr>h_bulkheads := (h_bulkheads h)(r := NewBulkhead capacity)\<rparr>) b)"

definition WithPriorityBulkhead :: "nat \<Rightarrow> (Priority \<rightharpoonup> f64) \<Rightarrow> ('u, 't) opt" where
  "WithPriorityBulkhead capacity thresholds b =
     WithPriorityBulkheadInstance (Some (b_next b))
       (alloc (\<lambda>r h. h\<lparr>h_priority := (h_priority h)(r := NewPriorityBulkhead capacity thresholds)\<rparr>) b)"

definition WithRateLimiter :: "f64 \<Rightarrow> duration \<Rightarrow> ('u, 't) opt" where
  "WithRateLimiter limit interval b =
     WithRateLimiterInstance (Some (b_next b))
       (alloc (\<lambda>r h. h\<lparr>h_limiters := (h_limiters h)(r := NewRateLimiter limit interval (b_now b))\<rparr>) b)"

definition WithAdaptiveLimiter :: "('u, 't) opt" where
  "WithAdaptiveLimiter b =
     WithAdaptiveLimiterInstance (Some (b_next b))
       (alloc (\<lambda>r h. h\<lparr>h_adaptive := (h_adaptive h)(r := NewAdaptiveLimiter (b_now b))\<rparr>) b)"

section \<open>Applying options\<close>

definition start_builder :: "shared \<Rightarrow> nat \<Rightarrow> time \<Rightarrow> ('u, 't) builder" where
  "start_builder h n t =
     alloc (\<lambda>r h. h\<lparr>h_jitters := (h_jitters h)(r := NewFullJitter (100 * Millisecond) (30 * Second))\<rparr>)
       \<lparr>cfg = DefaultConfig n, b_heap = h, b_next = n, b_now = t\<rparr>"

definition apply_options :: "('u, 't) opt list \<Rightarrow> ('u, 't) opt" where
  "apply_options opts b = foldl (\<lambda>b opt. opt b) b opts"

definition New_config :: "('u, 't) opt list \<Rightarrow> shared \<Rightarrow> nat \<Rightarrow> time \<Rightarrow> ('u, 't) builder" where
  "New_config opts h n t = apply_options opts (start_builder h n t)"

definition NewPolicy :: "('u, 't) opt list \<Rightarrow> shared \<Rightarrow> nat \<Rightarrow> time \<Rightarrow> ('u, 't) builder" where
  "NewPolicy opts h n t =
     (let b = start_builder h n t
      in apply_options opts (b\<lparr>cfg := (cfg b)\<lparr>pipeline := Some []\<rparr>\<rparr>))"

lemmas option_defs = WithFallback_def WithFallbackErr_def WithName_def WithMaxAttempts_def WithRetry_def WithBackoff_def WithRetryIf_def WithRetryIfFunc_def WithInstrumenter_def WithCircuitBreaker_def WithBulkheadInstance_def WithPriorityBulkheadInstance_def WithRateLimiterInstance_def WithAdaptiveLimiterInstance_def WithTimeout_def WithHedgingDelay_def WithAdaptiveBucket_def WithPanicRecovery_def WithChaos_def WithMinDeadlineThreshold_def
  WithBaseDelay_def WithMaxDelay_def WithBulkhead_def WithPriorityBulkhead_def WithRateLimiter_def
  WithAdaptiveLimiter_def update_jitter_def alloc_def

declare option_defs [op_defs]

section \<open>What an option adds\<close>

text \<open>\<open>adds o ms\<close>: the option appends \<open>ms\<close> to a pipeline and leaves a nil one alone.\<close>

definition adds :: "('u, 't) opt \<Rightarrow> middleware list \<Rightarrow> bool" where
  "adds opt ms \<longleftrightarrow> (\<forall>b. pipeline (cfg (opt b)) = map_option (\<lambda>p. p @ ms) (pipeline (cfg b))
     \<and> composedPipeline (cfg (opt b)) = composedPipeline (cfg b))"

lemma add_mw_pipeline [simp]:
  "pipeline (add_mw m c) = map_option (\<lambda>p. p @ [m]) (pipeline c)"
  "composedPipeline (add_mw m c) = composedPipeline c"
  by (simp_all add: add_mw_def split: option.split)

lemma adds_options:
  "adds (WithFallback f) [MwFallback]" "adds (WithFallbackErr g) [MwFallback]"
  "adds (WithName n) []" "adds (WithMaxAttempts a) [MwRetry]" "adds (WithRetry a) [MwRetry]"
  "adds (WithBaseDelay d) []" "adds (WithMaxDelay d) []" "adds (WithBackoff k) []"
  "adds (WithRetryIf e) []" "adds (WithRetryIfFunc p) []" "adds (WithInstrumenter i) [MwInstrumenter]"
  "adds (WithCircuitBreaker r) [MwCircuitBreaker]" "adds (WithBulkhead cap) [MwBulkhead]"
  "adds (WithBulkheadInstance r) [MwBulkhead]" "adds (WithPriorityBulkhead cap ts) [MwPriorityBulkhead]"
  "adds (WithPriorityBulkheadInstance r) [MwPriorityBulkhead]" "adds (WithRateLimiter l d) [MwRateLimiter]"
  "adds (WithRateLimiterInstance r) [MwRateLimiter]" "adds WithAdaptiveLimiter [MwAdaptiveLimiter]"
  "adds (WithAdaptiveLimiterInstance r) [MwAdaptiveLimiter]" "adds (WithTimeout d) [MwTimeout d]"
  "adds (WithHedgingDelay d) []" "adds (WithAdaptiveBucket r) []" "adds WithPanicRecovery [MwPanicRecovery]"
  "adds (WithChaos cc) [MwChaos]" "adds (WithMinDeadlineThreshold d) [MwDeadline]"
  by (auto simp: adds_def option_defs option.map_ident split: backoff.split)

lemma apply_options_adds:
  "list_all2 adds opts mss \<Longrightarrow>
     pipeline (cfg (apply_options opts b)) = map_option (\<lambda>p. p @ concat mss) (pipeline (cfg b))
   \<and> composedPipeline (cfg (apply_options opts b)) = composedPipeline (cfg b)"
proof (induction opts arbitrary: b mss)
  case Nil
  then show ?case by (simp add: apply_options_def option.map_ident)
next
  case (Cons opt opts)
  obtain ms mss' where m: "mss = ms # mss'" "adds opt ms" "list_all2 adds opts mss'"
    using Cons.prems by (auto simp: list_all2_Cons1)
  have "apply_options (opt # opts) b = apply_options opts (opt b)" by (simp add: apply_options_def)
  then show ?case
    using Cons.IH [OF m(3), of "opt b"] m by (simp add: adds_def option.map_comp comp_def)
qed


definition documented_policy :: "(unit, nat) config" where
  "documented_policy =
     cfg (NewPolicy [WithFallbackErr (\<lambda>x e. ret (Some e)), WithRetry 3] empty_heap 0 0)"


end
