(* ===== verification/Entry_Points.thy ===== *)
theory Entry_Points
  imports Options
begin

text \<open>
  The entry points: the generic functions and the methods of \<^verbatim>\<open>Config\<close>
  (\<^verbatim>\<open>retry.go\<close>), those of \<^verbatim>\<open>Policy\<close>
  (\<^verbatim>\<open>policy.go\<close>) and the state machine (\<^verbatim>\<open>statemachine.go\<close>).

  A value-returning call keeps the value in a local variable its closure assigns on every attempt.
  The variable is a second component of the world's user state, which the caller's hooks cannot
  see: \<open>lift\<close> runs a program of the caller in the larger world.
\<close>

section \<open>A local variable of the call\<close>

definition with_user :: "'v \<Rightarrow> 'u world \<Rightarrow> 'v world" where
  "with_user v w = \<lparr>now = now w, tick = tick w, orc = orc w, heap = heap w, user = v\<rparr>"

definition lift :: "('u, 'a) prog \<Rightarrow> ('u \<times> 't, 'a) prog" where
  "lift m w = (case m (with_user (fst (user w)) w) of (r, w') \<Rightarrow> (r, with_user (user w', snd (user w)) w'))"

definition lift_instrumenter :: "'u instrumenter \<Rightarrow> ('u \<times> 't) instrumenter" where
  "lift_instrumenter i =
     \<lparr>BeforeAttempt = (\<lambda>x s. lift (BeforeAttempt i x s)), AfterAttempt = (\<lambda>x s. lift (AfterAttempt i x s)),
      OnBulkheadFull = (\<lambda>x s. lift (OnBulkheadFull i x s)),
      OnRateLimitExceeded = (\<lambda>x s. lift (OnRateLimitExceeded i x s))\<rparr>"

fun lift_backoff :: "'u backoff \<Rightarrow> ('u \<times> 't) backoff" where
  "lift_backoff (FullJitter r) = FullJitter r"
| "lift_backoff (CustomBackoff f) = CustomBackoff (\<lambda>a. lift (f a))"

text \<open>Inside the pipeline only the error-returning fallback is recognised.\<close>

fun lift_fallback :: "('u, 'a) fallback \<Rightarrow> ('u \<times> 't, 'b) fallback" where
  "lift_fallback NoFallback = NoFallback"
| "lift_fallback (FallbackErr f) = FallbackErr (\<lambda>x e. lift (f x e))"
| "lift_fallback _ = FallbackOther"

definition lift_config :: "('u, 'a) config \<Rightarrow> ('u \<times> 't, 'b) config" where
  "lift_config c =
     \<lparr>Name = Name c, MaxAttempts = MaxAttempts c, BaseDelay = BaseDelay c, MaxDelay = MaxDelay c,
      HedgingDelay = HedgingDelay c, Backoff = lift_backoff (Backoff c), Policy = Policy c,
      Instrumenter = map_option lift_instrumenter (Instrumenter c), CircuitBreaker = CircuitBreaker c,
      Fallback = lift_fallback (Fallback c), AdaptiveBucket = AdaptiveBucket c,
      RecoverPanics = RecoverPanics c, Bulkhead = Bulkhead c, PriorityBulkhead = PriorityBulkhead c,
      Timeout = Timeout c, RateLimiter = RateLimiter c, AdaptiveLimiter = AdaptiveLimiter c,
      Chaos = Chaos c, MinDeadlineThreshold = MinDeadlineThreshold c, pipeline = pipeline c,
      composedPipeline = composedPipeline c\<rparr>"

text \<open>The closure that assigns the variable.\<close>

definition assigning ::
  "(ctx \<Rightarrow> retry_state \<Rightarrow> ('u, 't \<times> go_error option) prog) \<Rightarrow> ('u \<times> 't) do_action" where
  "assigning action x st w =
     (case lift (action x st) w of
        (Ret (v, err), w') \<Rightarrow> (Ret err, w'\<lparr>user := (fst (user w'), v)\<rparr>)
      | (Panic p, w') \<Rightarrow> (Panic p, w'))"

text \<open>The execution with the variable, from its zero value on, and the variable at the end.\<close>

definition execute_value ::
  "('u, 'a) config \<Rightarrow> ctx \<Rightarrow> 't \<Rightarrow> (ctx \<Rightarrow> retry_state \<Rightarrow> ('u, 't \<times> go_error option) prog)
     \<Rightarrow> ('u, 't \<times> go_error option) prog" where
  "execute_value c x zero action w =
     (case execute (lift_config c :: ('u \<times> 't, unit) config) x (Some (assigning action)) None
             (with_user (user w, zero) w) of
        (Ret err, w') \<Rightarrow> (Ret (snd (user w'), err), with_user (fst (user w')) w')
      | (Panic p, w') \<Rightarrow> (Panic p, with_user (fst (user w')) w'))"

section \<open>The package functions and the methods of Config\<close>

definition value_fallback ::
  "('u, 't) config \<Rightarrow> ctx \<Rightarrow> ('u, 't \<times> go_error option) prog \<Rightarrow> ('u, 't \<times> go_error option) prog" where
  "value_fallback c x m =
     bind m (\<lambda>(result, err).
       case (err, Fallback c) of
         (Some e, FallbackValue f) \<Rightarrow> f x e
       | _ \<Rightarrow> ret (result, err))"

definition error_fallback ::
  "('u, 't) config \<Rightarrow> ctx \<Rightarrow> ('u, go_error option) prog \<Rightarrow> ('u, go_error option) prog" where
  "error_fallback c x m =
     bind m (\<lambda>err.
       case (err, Fallback c) of
         (Some e, FallbackErr f) \<Rightarrow> f x e
       | _ \<Rightarrow> ret err)"

definition DoState ::
  "('u, 't) config \<Rightarrow> ctx \<Rightarrow> 't \<Rightarrow> (ctx \<Rightarrow> retry_state \<Rightarrow> ('u, 't \<times> go_error option) prog)
     \<Rightarrow> ('u, 't \<times> go_error option) prog" where
  "DoState c x zero action = value_fallback c x (execute_value c x zero action)"

definition Do ::
  "('u, 't) config \<Rightarrow> ctx \<Rightarrow> 't \<Rightarrow> (ctx \<Rightarrow> ('u, 't \<times> go_error option) prog) \<Rightarrow> ('u, 't \<times> go_error option) prog" where
  "Do c x zero action = DoState c x zero (\<lambda>x _. action x)"

definition DoErrState :: "('u, 't) config \<Rightarrow> ctx \<Rightarrow> 'u do_action \<Rightarrow> ('u, go_error option) prog" where
  "DoErrState c x action = error_fallback c x (execute c x (Some action) None)"

definition DoErr :: "('u, 't) config \<Rightarrow> ctx \<Rightarrow> (ctx \<Rightarrow> ('u, go_error option) prog) \<Rightarrow> ('u, go_error option) prog" where
  "DoErr c x action = DoErrState c x (\<lambda>x _. action x)"

text \<open>The methods, with \<^verbatim>\<open>any\<close> for the result type; \<open>nil\<close> is its zero.\<close>

definition Config_Do ::
  "('u, 't) config \<Rightarrow> ctx \<Rightarrow> 't \<Rightarrow> (ctx \<Rightarrow> ('u, 't \<times> go_error option) prog) \<Rightarrow> ('u, 't \<times> go_error option) prog" where
  "Config_Do c x nil action = value_fallback c x (execute_value c x nil (\<lambda>x _. action x))"

definition Config_DoErr :: "('u, 't) config \<Rightarrow> ctx \<Rightarrow> (ctx \<Rightarrow> ('u, go_error option) prog) \<Rightarrow> ('u, go_error option) prog" where
  "Config_DoErr c x action = error_fallback c x (execute c x None (Some action))"

section \<open>The methods of Policy\<close>

definition Policy_Do ::
  "('u, 't) config \<Rightarrow> ctx \<Rightarrow> 't \<Rightarrow> (ctx \<Rightarrow> ('u, 't \<times> go_error option) prog) \<Rightarrow> ('u, 't \<times> go_error option) prog" where
  "Policy_Do c x nil action = execute_value c x nil (\<lambda>x _. action x)"

definition Policy_DoErr :: "('u, 't) config \<Rightarrow> ctx \<Rightarrow> (ctx \<Rightarrow> ('u, go_error option) prog) \<Rightarrow> ('u, go_error option) prog" where
  "Policy_DoErr c x action = execute c x None (Some action)"

text \<open>Health returns the breaker's channel, which it makes on first use, or nil.\<close>

definition Policy_Health :: "('u, 't) config \<Rightarrow> ('u, nat option) prog" where
  "Policy_Health c =
     (case CircuitBreaker c of
        None \<Rightarrow> ret None
      | Some r \<Rightarrow> bind (atomic (\<lambda>t h. ((), h\<lparr>h_breakers := (h_breakers h)(r := Breaker_Health (h_breakers h r))\<rparr>)))
                    (\<lambda>_. ret (Some r)))"

section \<open>The state machine\<close>

record ('s, 'd) machine =
  sm_state :: 's
  sm_data :: 'd

text \<open>
  The transition reads the machine's state when it runs; the machine is locked for the whole call,
  so that is the state at its beginning. The result type is local to \<open>Handle\<close>: no caller can
  give a value fallback for it.
\<close>

definition Handle ::
  "('u, 'a) config \<Rightarrow> 's \<times> 'd
     \<Rightarrow> (ctx \<Rightarrow> 's \<Rightarrow> 'd \<Rightarrow> 'e \<Rightarrow> retry_state \<Rightarrow> ('u, ('s \<times> 'd) \<times> go_error option) prog)
     \<Rightarrow> ctx \<Rightarrow> 'e \<Rightarrow> ('s, 'd) machine \<Rightarrow> ('u, go_error option \<times> ('s, 'd) machine) prog" where
  "Handle c zero transition x event sm =
     bind (execute_value c x zero (\<lambda>x rs.
             bind (transition x (sm_state sm) (sm_data sm) event rs) (\<lambda>(next, err).
               case err of Some e \<Rightarrow> ret (zero, Some e) | None \<Rightarrow> ret (next, None))))
       (\<lambda>(result, err).
          if err = None then ret (None, sm\<lparr>sm_state := fst result, sm_data := snd result\<rparr>)
          else ret (err, sm))"

definition NewStateMachine :: "'s \<Rightarrow> 'd \<Rightarrow> ('s, 'd) machine" where
  "NewStateMachine s d = \<lparr>sm_state = s, sm_data = d\<rparr>"

definition GetState :: "('s, 'd) machine \<Rightarrow> 's" where
  "GetState sm = sm_state sm"

definition GetData :: "('s, 'd) machine \<Rightarrow> 'd" where
  "GetData sm = sm_data sm"

lemmas entry_defs = DoState_def Do_def DoErrState_def DoErr_def Config_Do_def Config_DoErr_def
  Policy_Do_def Policy_DoErr_def Handle_def value_fallback_def error_fallback_def

declare entry_defs [op_defs]

end
