(* ===== verification/Pipeline_Relation.thy ===== *)
theory Pipeline_Relation
  imports Pipeline
begin

text \<open>
  A relation between the world before and after a call, proved once for all pipelines. The locale
  \<open>pipeline_relation\<close> asks that the relation is reflexive and transitive, holds for every access of
  the library to the clock, the random sources and the shared components, and survives the brackets
  of the bulkheads and the limiter; it then holds for every middleware, every composition and every
  execution whose action and hooks respect it, on the paths that return and on those that panic.

  Put in are, here, a property of the caller's state that its own code preserves (\<open>user_rel\<close>), in
  \<open>Slot_Balance\<close> the occupied slots of every bulkhead and limiter, and in \<open>Protection\<close> the
  parameters of the backoff.
\<close>

definition action_relate :: "('u world \<Rightarrow> 'u world \<Rightarrow> bool) \<Rightarrow> 'u do_action \<Rightarrow> bool" where
  "action_relate R act \<longleftrightarrow> (\<forall>x st. relates R (act x st))"

text \<open>The caller's code in a configuration: the hooks, a backoff of its own, an error fallback.\<close>

definition hooks_relate :: "('u world \<Rightarrow> 'u world \<Rightarrow> bool) \<Rightarrow> ('u, 't) config \<Rightarrow> bool" where
  "hooks_relate R c \<longleftrightarrow>
     (case Instrumenter c of None \<Rightarrow> True
      | Some i \<Rightarrow> \<forall>x s. relates R (BeforeAttempt i x s) \<and> relates R (AfterAttempt i x s)
                     \<and> relates R (OnBulkheadFull i x s) \<and> relates R (OnRateLimitExceeded i x s))
     \<and> (\<forall>f a. Backoff c = CustomBackoff f \<longrightarrow> relates R (f a))
     \<and> (\<forall>f x e. Fallback c = FallbackErr f \<longrightarrow> relates R (f x e))"

lemma relates_if: "relates R a \<Longrightarrow> relates R b \<Longrightarrow> relates R (if P then a else b)"
  by simp

section \<open>The interface\<close>

locale pipeline_relation =
  fixes R :: "'u world \<Rightarrow> 'u world \<Rightarrow> bool"
  assumes R_refl: "R w w"
    and R_trans: "R w w1 \<Longrightarrow> R w1 w2 \<Longrightarrow> R w w2"
    and clock: "relates R time_Now" "relates R (wait_timer x t)"
    and random: "relates R rng_Float64" "relates R (jitter_next r a)"
    and tokens: "relates R (bucket_acquire r)" "relates R (bucket_success r)" "relates R (limiter_acquire r)"
    and breaker: "relates R (breaker_admit r)" "relates R (breaker_complete r s err)"
    and brackets: "relates R act \<Longrightarrow> relates R (Bulkhead_Execute r x act)"
      "relates R act \<Longrightarrow> relates R (PriorityBulkhead_Execute r x act)"
      "relates R act \<Longrightarrow> relates R (AdaptiveLimiter_Execute r act)"
begin

lemma relates_ret: "relates R (ret a)"
  by (simp add: relates_def R_refl)

lemma relates_bind:
  assumes "relates R m" "\<And>a. relates R (f a)"
  shows "relates R (bind m f)"
proof (rule relatesI)
  fix w r w'
  assume "bind m f w = (r, w')"
  then show "R w w'"
    by (cases rule: bind_cases) (blast intro: R_trans dest: relatesD [OF assms(1)] relatesD [OF assms(2)])+
qed

lemmas relates_rules = relates_ret relates_bind relates_if clock random tokens breaker

lemma relates_hook:
  assumes "hooks_relate R c"
  shows "relates R (instrument c (\<lambda>i. OnBulkheadFull i x st))" "relates R (instrument c (\<lambda>i. OnRateLimitExceeded i x st))"
  using assms by (auto simp: hooks_relate_def instrument_def relates_ret split: option.splits)

lemma relates_backoff: "hooks_relate R c \<Longrightarrow> relates R (backoff_Next (Backoff c) a)"
  by (cases "Backoff c") (simp_all add: hooks_relate_def random)

lemma relates_tokens: "relates R (retry_token c)" "relates R (success_token c)" "relates R (sleep x d)" "relates R (RetryAfter rd)"
  by (auto simp: retry_token_def success_token_def sleep_def RetryAfter_def intro!: relates_rules split: option.split retry_delay.split)

lemma relates_after_failure:
  assumes "hooks_relate R c" "relates R continue"
  shows "relates R (after_failure c x attempt errs e continue)"
proof -
  have "relates R (case serr of Some e' \<Rightarrow> ret (joined (errs @ [e, e'])) | None \<Rightarrow> continue)" for serr
    using assms(2) by (simp add: relates_ret split: option.split)
  then have slept: "relates R (bind (sleep x d) (\<lambda>serr. case serr of Some e' \<Rightarrow> ret (joined (errs @ [e, e'])) | None \<Rightarrow> continue))" for d
    by (intro relates_bind relates_tokens)
  have "relates R (bind m (\<lambda>delay. bind (sleep x delay) (\<lambda>serr. case serr of Some e' \<Rightarrow> ret (joined (errs @ [e, e']))
       | None \<Rightarrow> continue)))" if "relates R m" for m
    by (rule relates_bind [OF that slept])
  then have "relates R (case errors_As as_retry_after e of Some (d, True) \<Rightarrow> ret (joined (errs @ [e]))
       | ra \<Rightarrow> bind (case ra of Some (d, _) \<Rightarrow> RetryAfter d | None \<Rightarrow> ret delay) (\<lambda>delay. bind (sleep x delay) (\<lambda>serr.
             case serr of Some e' \<Rightarrow> ret (joined (errs @ [e, e'])) | None \<Rightarrow> continue)))" for delay
    by (auto simp: relates_ret relates_tokens simp del: bind_ret split: option.split bool.split)
  then have "relates R (delay_and_retry c x attempt errs e continue)"
    unfolding delay_and_retry_def by (intro relates_bind relates_backoff assms(1))
  then show ?thesis unfolding after_failure_def by (intro relates_rules relates_tokens)
qed

lemma relates_retry_loop:
  assumes "action_relate R next" "hooks_relate R c"
  shows "relates R (retry_loop c next x start st attempt errs)"
proof (induction "unat (MaxAttempts c) - unat attempt" arbitrary: attempt errs st)
  case 0
  then have "\<not> attempt < MaxAttempts c" by (simp add: word_less_nat_alt)
  then show ?case by (auto simp: relates_def retry_loop.simps R_refl)
next
  case (Suc n)
  then have lt: "attempt < MaxAttempts c" by (simp add: word_less_nat_alt)
  have "n = unat (MaxAttempts c) - unat (attempt + 1)" using Suc.hyps(2) attempt_next [OF lt] by simp
  note more = Suc.hyps(1) [OF this]
  have "relates R (case err of None \<Rightarrow> bind (success_token c) (\<lambda>_. ret None)
       | Some e \<Rightarrow> after_failure c x attempt errs e
           (retry_loop c next x start (attempt_state st attempt errs) (attempt + 1) (errs @ [e])))" for err
    by (auto intro!: relates_rules relates_tokens relates_after_failure assms(2) more split: option.split)
  then have "relates R (bind time_Now (\<lambda>t.
     bind (next x ((attempt_state st attempt errs)\<lparr>TotalDuration := time_Sub t start\<rparr>)) (\<lambda>err.
       case err of
         None \<Rightarrow> bind (success_token c) (\<lambda>_. ret None)
       | Some e \<Rightarrow> after_failure c x attempt errs e
           (retry_loop c next x start (attempt_state st attempt errs) (attempt + 1) (errs @ [e])))))"
    using assms(1) by (intro relates_bind clock) (simp_all add: action_relate_def)
  then show ?case by (simp add: relates_def retry_loop_step [OF lt])
qed

lemma relates_mw:
  assumes "action_relate R next" "hooks_relate R c"
  shows "action_relate R (apply_mw c m next)"
proof -
  have n: "relates R (next x st)" for x st using assms(1) by (simp add: action_relate_def)
  have full: "relates R (case err of Some e \<Rightarrow> if P e then instrument c (\<lambda>i. OnBulkheadFull i x st) else ret () | None \<Rightarrow> ret ())"
    for P err x st
    using relates_hook(1) [OF assms(2)] by (auto simp: relates_ret split: option.split)
  have hooks: "relates R (BeforeAttempt i x s)" "relates R (AfterAttempt i x s)" if "Instrumenter c = Some i" for i x s
    using assms(2) that by (simp_all add: hooks_relate_def)
  have admitted: "relates R (case a of Rejected \<Rightarrow> ret (Some ErrCircuitOpen)
        | Admitted s \<Rightarrow> bind (next x st) (\<lambda>err. bind (breaker_complete r s err) (\<lambda>_. ret err)))" for a r x st
    by (cases a) (auto intro!: relates_rules n)
  have brk: "relates R (Breaker_Execute r x (next x st))" for r x st
    unfolding Breaker_Execute_def ctx_poll_def by (intro relates_rules admitted)
  have inj: "relates R (inject_latency cfg x)" "relates R (inject_error cfg)" for cfg x
    by (auto simp: inject_latency_def inject_error_def intro!: relates_rules split: option.split)
  have chaos: "relates R (Chaos_Execute i x (next x st))" for i x st
    by (auto simp: Chaos_Execute_def intro!: relates_rules inj n split: option.split)
  note k = relates_ret relates_bind relates_if clock tokens n full brackets brk chaos relates_hook [OF assms(2)]
  show ?thesis
  proof (cases m)
    case MwRetry
    have "relates R (bind time_Now (\<lambda>start. retry_loop c next x start st 0 []))" for x st
      by (intro relates_bind clock relates_retry_loop assms)
    then show ?thesis using MwRetry by (simp add: action_relate_def retryMiddleware_def relates_def)
  next
    case MwInstrumenter
    then show ?thesis
      by (auto simp: action_relate_def instrumenterMiddleware_def intro!: k hooks split: option.split)
  next
    case MwPanicRecovery
    then show ?thesis
      using n by (auto simp: action_relate_def panicRecoveryMiddleware_def relates_def split: prod.splits result.splits)
  next
    case MwFallback
    have "relates R (case (err, Fallback c) of (Some e, FallbackErr f) \<Rightarrow> f x e | _ \<Rightarrow> ret err)" for err x
      using assms(2) by (auto simp: hooks_relate_def relates_ret split: option.split fallback.split)
    then show ?thesis
      using MwFallback by (auto simp: action_relate_def fallbackMiddleware_def intro!: relates_bind n)
  qed (auto simp: action_relate_def rateLimiterMiddleware_def adaptiveLimiterMiddleware_def
      bulkheadMiddleware_def priorityBulkheadMiddleware_def deadlineMiddleware_def timeoutMiddleware_def
      circuitBreakerMiddleware_def chaosMiddleware_def Let_def intro!: k split: option.split)
qed

lemma relates_compose:
  "action_relate R t \<Longrightarrow> hooks_relate R c \<Longrightarrow> action_relate R (compose c ms t)"
  by (induction ms) (auto intro: relates_mw)

lemma relates_execute:
  assumes "\<And>f. action = Some f \<Longrightarrow> action_relate R f" "\<And>f x. simpleAction = Some f \<Longrightarrow> relates R (f x)" "hooks_relate R c"
  shows "relates R (execute c x action simpleAction)"
proof -
  have t: "action_relate R (terminalAction action simpleAction)"
    using assms(1,2) by (auto simp: action_relate_def terminalAction_def relates_ret split: option.split)
  obtain h c' where g: "getComposedPipeline c = (h, c')" by fastforce
  then have "hooks_relate R c'"
    using assms(3)
    by (auto simp: getComposedPipeline_def buildDefaultPipeline_def hooks_relate_def Let_def split: option.splits if_splits)
  then have "action_relate R (compose c' h (terminalAction action simpleAction))" using t by (intro relates_compose)
  then show ?thesis by (simp add: execute_def g action_relate_def)
qed

end

section \<open>A property of the caller's state\<close>

definition user_rel :: "('u \<Rightarrow> bool) \<Rightarrow> 'u world \<Rightarrow> 'u world \<Rightarrow> bool" where
  "user_rel Q w w' \<longleftrightarrow> (Q (user w) \<longrightarrow> Q (user w'))"

lemma relates_bind_trans:
  assumes "\<And>w w1 w2. R w w1 \<Longrightarrow> R w1 w2 \<Longrightarrow> R w w2" "relates R m" "\<And>a. relates R (f a)"
  shows "relates R (bind m f)"
proof (rule relatesI)
  fix w r w'
  assume "bind m f w = (r, w')"
  then show "R w w'"
    by (cases rule: bind_cases) (blast intro: assms(1) dest: relatesD [OF assms(2)] relatesD [OF assms(3)])+
qed

lemma relates_quiet: "quiet m \<Longrightarrow> relates (user_rel Q) m"
  using quietD by (fastforce simp: relates_def user_rel_def)

lemma user_bind: "relates (user_rel Q) m \<Longrightarrow> (\<And>a. relates (user_rel Q) (f a)) \<Longrightarrow> relates (user_rel Q) (bind m f)"
  by (rule relates_bind_trans) (auto simp: user_rel_def)

lemma user_deferred:
  "relates (user_rel Q) m \<Longrightarrow> (\<And>w. user (cl w) = user w) \<Longrightarrow> relates (user_rel Q) (deferred cl m)"
  by (auto simp: relates_def user_rel_def deferred_def split: prod.splits)

lemma quiet_coin [quiets]: "quiet flip_coin"
  by (simp add: quiet_def flip_coin_def)

lemma leave_user [simp]:
  "user (bulkhead_leave r w) = user w" "user (priority_leave r w) = user w" "user (adaptive_exit r w) = user w"
  by (simp_all add: bulkhead_leave_def priority_leave_def adaptive_exit_def Let_def)

lemma quiet_adaptive_update [quiets]: "quiet (adaptive_update r rtt)"
  by (auto simp: quiet_def adaptive_update_def Let_def intro: order_trans [OF clock_step_simps(4)])
    (metis clock_step_simps(4) interfere_simps(3) order_trans)

lemma quiet_breaker [quiets]:
  "quiet (breaker_admit r :: ('u, admission) prog)" "quiet (breaker_complete r s err :: ('u, unit) prog)"
proof -
  have "now w \<le> now (clock_step (clock_step (interfere w)))"
    "now w \<le> now (clock_step (clock_step (clock_step (clock_step (interfere w)))))" for w :: "'u world"
    by (metis clock_step_simps(4) interfere_simps(3) order_trans)+
  then show "quiet (breaker_admit r :: ('u, admission) prog)" "quiet (breaker_complete r s err :: ('u, unit) prog)"
    by (auto simp: quiet_def breaker_admit_def breaker_complete_def Let_def split: prod.split)
qed

lemma quiet_enter [quiets]:
  "quiet (bulkhead_enter r x)" "quiet (priority_check r x)" "quiet (priority_select r x)"
  unfolding bulkhead_enter_def priority_check_def priority_select_def by (intro quiets)+

lemmas user_accesses = quiet_time_Now quiet_wait_timer quiet_rng quiet_jitter quiet_components quiet_breaker
  quiet_enter quiet_atomic quiet_adaptive_update quiet_ret

interpretation user_property: pipeline_relation "user_rel Q" for Q :: "'u \<Rightarrow> bool"
proof
  fix act :: "('u, go_error option) prog" and r x
  note k = user_bind user_deferred relates_if user_accesses [THEN relates_quiet] leave_user
  assume a: "relates (user_rel Q) act"
  show "relates (user_rel Q) (Bulkhead_Execute r x act)"
    unfolding Bulkhead_Execute_def by (intro k a)
  show "relates (user_rel Q) (PriorityBulkhead_Execute r x act)"
    unfolding PriorityBulkhead_Execute_def by (intro k a)
  show "relates (user_rel Q) (AdaptiveLimiter_Execute r act)"
    unfolding AdaptiveLimiter_Execute_def by (intro k a)
qed (auto simp: user_rel_def intro: relates_quiet user_accesses)

end
