(* ===== verification/Pipeline_Facts.thy ===== *)
theory Pipeline_Facts
  imports Entry_Points Pipeline_Relation
begin

text \<open>
  Where a nil result comes from, proved once per middleware by the rules of a small calculus
  (\<open>nil_only\<close>) and then for every list of middlewares (\<open>yields\<close>); and what follows for the
  value-returning entry points and for the state machine.
\<close>

section \<open>Where a nil result comes from\<close>

text \<open>
  \<open>nil_only I Q m\<close>: whenever \<open>m\<close> starts with the caller's state in \<open>I\<close> and returns nil, that
  state is in \<open>Q\<close>. \<open>keeps Q m\<close>: \<open>m\<close> preserves \<open>Q\<close>. The invariant \<open>I\<close> is trivial where the
  action guarantees \<open>Q\<close> from any state.
\<close>

definition nil_only :: "('u \<Rightarrow> bool) \<Rightarrow> ('u \<Rightarrow> bool) \<Rightarrow> ('u, go_error option) prog \<Rightarrow> bool" where
  "nil_only I Q m \<longleftrightarrow> (\<forall>w w'. I (user w) \<longrightarrow> m w = (Ret None, w') \<longrightarrow> Q (user w'))"

abbreviation keeps :: "('u \<Rightarrow> bool) \<Rightarrow> ('u, 'a) prog \<Rightarrow> bool" where
  "keeps Q \<equiv> relates (user_rel Q)"

lemmas keeps_def = relates_def user_rel_def

named_theorems nil_rules \<open>rules for nil results\<close>

lemma nil_onlyD: "nil_only I Q m \<Longrightarrow> I (user w) \<Longrightarrow> m w = (Ret None, w') \<Longrightarrow> Q (user w')"
  by (simp add: nil_only_def)

lemma keeps_quiet: "quiet m \<Longrightarrow> keeps Q m"
  by (rule relates_quiet)

lemma nil_ret_Some [nil_rules]: "nil_only I Q (ret (Some e))"
  by (simp add: nil_only_def)

lemma keepsD: "keeps I m \<Longrightarrow> m w = (r, w') \<Longrightarrow> I (user w) \<Longrightarrow> I (user w')"
  by (simp add: keeps_def)

lemma keeps_True [simp]: "keeps (\<lambda>_. True) m"
  by (simp add: keeps_def)

lemma hooks_relate_True [simp]: "hooks_relate (user_rel (\<lambda>_. True)) c"
  by (simp add: hooks_relate_def split: option.split)

lemma action_relate_True [simp]: "action_relate (user_rel (\<lambda>_. True)) act"
  by (simp add: action_relate_def)

lemma nil_bind:
  assumes "keeps I m" "\<And>a. nil_only I Q (f a)"
  shows "nil_only I Q (bind m f)"
  unfolding nil_only_def
proof (intro allI impI)
  fix w w'
  assume "I (user w)" "bind m f w = (Ret None, w')"
  then show "Q (user w')"
    by (elim bind_cases) (auto intro: nil_onlyD [OF assms(2)] keepsD [OF assms(1)])
qed

lemma nil_after:
  assumes "nil_only I Q m" "\<And>err. keeps Q (k err)"
  shows "nil_only I Q (bind m (\<lambda>err. bind (k err) (\<lambda>_. ret err)))"
  unfolding nil_only_def
proof (intro allI impI)
  fix w w'
  assume I: "I (user w)" and "bind m (\<lambda>err. bind (k err) (\<lambda>_. ret err)) w = (Ret None, w')"
  then obtain err w1 u where "m w = (Ret err, w1)" "k err w1 = (Ret u, w')" "err = None"
    by (elim bind_cases) auto
  then show "Q (user w')"
    using nil_onlyD [OF assms(1) I] assms(2) unfolding keeps_def by blast
qed

lemma nil_deferred [nil_rules]:
  assumes "nil_only I Q m" "\<And>w. user (cl w) = user w"
  shows "nil_only I Q (deferred cl m)"
  using assms by (auto simp: nil_only_def deferred_def split: prod.splits)

lemma nil_if [nil_rules]: "(P \<Longrightarrow> nil_only I Q a) \<Longrightarrow> (\<not> P \<Longrightarrow> nil_only I Q b) \<Longrightarrow> nil_only I Q (if P then a else b)"
  by simp

text \<open>The hook that runs after a successful attempt respects \<open>Q\<close>.\<close>

definition after_hook_keeps :: "('u \<Rightarrow> bool) \<Rightarrow> ('u, 't) config \<Rightarrow> bool" where
  "after_hook_keeps Q c \<longleftrightarrow>
     (case Instrumenter c of None \<Rightarrow> True
      | Some i \<Rightarrow> \<forall>x s. keeps Q (AfterAttempt i x s) \<and> keeps Q (OnBulkheadFull i x s))"

definition yields :: "('u \<Rightarrow> bool) \<Rightarrow> ('u \<Rightarrow> bool) \<Rightarrow> 'u do_action \<Rightarrow> bool" where
  "yields I Q act \<longleftrightarrow> (\<forall>x st. nil_only I Q (act x st))"

lemma keeps_ret: "keeps Q (ret a)"
  by (simp add: keeps_def)

lemma keeps_instrument:
  "after_hook_keeps Q c \<Longrightarrow> keeps Q (instrument c (\<lambda>i. OnBulkheadFull i x st))"
  by (simp add: after_hook_keeps_def instrument_def keeps_ret split: option.splits)

lemma nil_retry_loop:
  assumes "yields I Q next" "action_relate (user_rel I) next" "hooks_relate (user_rel I) c"
  shows "attempt < MaxAttempts c \<Longrightarrow> nil_only I Q (retry_loop c next x start st attempt errs)"
proof (induction "unat (MaxAttempts c) - unat attempt" arbitrary: attempt errs st)
  case 0
  then show ?case by (simp add: word_less_nat_alt)
next
  case (Suc n)
  have n: "n = unat (MaxAttempts c) - unat (attempt + 1)"
    using Suc.hyps(2) attempt_next [OF Suc.prems] by simp
  let ?m = "\<lambda>t. next x ((attempt_state st attempt errs)\<lparr>TotalDuration := time_Sub t start\<rparr>)"
  let ?more = "retry_loop c next x start (attempt_state st attempt errs) (attempt + 1)"
  note k = user_property.relates_tokens user_property.relates_backoff [OF assms(3)]
  have tail: "nil_only I Q (after_failure c x attempt errs e (?more (errs @ [e])))" for e
  proof (cases "attempt + 1 < MaxAttempts c")
    case True
    then show ?thesis
      using Suc.hyps(1) [OF n] k
      by (auto simp: after_failure_def delay_and_retry_def joined_simps split: option.split bool.split
          intro!: nil_rules nil_bind)
  next
    case False
    then show ?thesis
      using k by (auto simp: after_failure_def delay_and_retry_def joined_simps not_less intro!: nil_rules nil_bind)
  qed
  have "nil_only I Q (\<lambda>w. bind time_Now (\<lambda>t. bind (?m t) (\<lambda>err. case err of
         None \<Rightarrow> bind (success_token c) (\<lambda>_. ret None) | Some e \<Rightarrow> after_failure c x attempt errs e (?more (errs @ [e])))) w)"
    unfolding nil_only_def
  proof (intro allI impI)
    fix w w'
    assume I: "I (user w)" and "bind time_Now (\<lambda>t. bind (?m t) (\<lambda>err. case err of
         None \<Rightarrow> bind (success_token c) (\<lambda>_. ret None) | Some e \<Rightarrow> after_failure c x attempt errs e (?more (errs @ [e])))) w
         = (Ret None, w')"
    from this(2) show "Q (user w')"
      unfolding bind_time_Now
    proof (cases rule: bind_cases)
      case (Ret err w1)
      show ?thesis
      proof (cases err)
        case None
        have "nil_only I Q (?m (now (clock_step w)))" using assms(1) by (simp add: yields_def)
        from nil_onlyD [OF this _ Ret(1) [unfolded None]] have "Q (user w1)" using I by simp
        then show ?thesis using Ret(2) None success_token_Ret [of c w1] by auto
      next
        case (Some e)
        have "keeps I (?m (now (clock_step w)))" using assms(2) by (simp add: action_relate_def)
        from keepsD [OF this Ret(1)] have "I (user w1)" using I by simp
        then show ?thesis using Ret(2) Some nil_onlyD [OF tail] by simp
      qed
    qed simp
  qed
  then show ?case using retry_loop_step [OF Suc.prems] by (simp add: nil_only_def)
qed

lemma yields_mw:
  assumes "yields I Q next" "action_relate (user_rel I) next" "hooks_relate (user_rel I) c"
    "after_hook_keeps Q c" "0 < MaxAttempts c" "m \<noteq> MwFallback"
  shows "yields I Q (apply_mw c m next)"
proof -
  have n: "nil_only I Q (next x st)" for x st using assms(1) by (simp add: yields_def)
  have kb: "keeps Q (case err of Some e \<Rightarrow> if P e then instrument c (\<lambda>i. OnBulkheadFull i x st) else ret () | None \<Rightarrow> ret ())"
    for P err x st
    using keeps_instrument [OF assms(4)] by (auto simp: keeps_ret split: option.split)
  have after: "Instrumenter c = Some i \<Longrightarrow> keeps Q (AfterAttempt i x s)" for i x s
    using assms(4) by (simp add: after_hook_keeps_def)
  have retn: "nil_only I Q (if r \<noteq> None then ret r else b)" if "nil_only I Q b" for r b
    using that by (auto simp: nil_ret_Some)
  have nk: "keeps I (next x st)" for x st using assms(2) by (simp add: action_relate_def)
  have hk: "Instrumenter c = Some i \<Longrightarrow> keeps I (BeforeAttempt i x s)" for i x s
    using assms(3) by (simp add: hooks_relate_def)
  note kq = user_accesses [THEN keeps_quiet] user_property.relates_hook [OF assms(3)] nk
  show ?thesis
  proof (cases m)
    case MwRateLimiter
    then show ?thesis
      using n by (auto simp: yields_def rateLimiterMiddleware_def intro!: nil_rules nil_bind kq split: option.split)
  next
    case MwAdaptiveLimiter
    have inner: "nil_only I Q (bind time_Now (\<lambda>start. bind (next x st) (\<lambda>err.
        bind (bind time_Now (\<lambda>t. adaptive_update r (time_Sub t start))) (\<lambda>_. ret err))))" for x st r
      by (intro nil_bind nil_after n keeps_quiet quiets)
    have "nil_only I Q (AdaptiveLimiter_Execute r (next x st))" for r x st
      unfolding AdaptiveLimiter_Execute_def
      by (rule nil_bind, rule kq, rule nil_deferred, rule nil_bind, rule kq, rule nil_if)
        (rule nil_ret_Some inner [unfolded bind_assoc] leave_user kq)+
    then show ?thesis
      using n MwAdaptiveLimiter by (auto simp: yields_def adaptiveLimiterMiddleware_def split: option.split)
  next
    case MwBulkhead
    have "nil_only I Q (Bulkhead_Execute r x (next x st))" for r x st
      unfolding Bulkhead_Execute_def by (intro nil_bind retn nil_deferred n leave_user kq)
    then show ?thesis
      using n MwBulkhead by (auto simp: yields_def bulkheadMiddleware_def intro!: nil_after kb split: option.split)
  next
    case MwPriorityBulkhead
    have "nil_only I Q (PriorityBulkhead_Execute r x (next x st))" for r x st
      unfolding PriorityBulkhead_Execute_def by (intro nil_bind retn nil_deferred n leave_user kq)
    then show ?thesis
      using n MwPriorityBulkhead
      by (auto simp: yields_def priorityBulkheadMiddleware_def intro!: nil_after kb split: option.split)
  next
    case MwRetry
    then show ?thesis
      using nil_retry_loop [OF assms(1-3)] assms(5)
      by (auto simp: yields_def retryMiddleware_def intro!: nil_bind kq)
  next
    case MwDeadline
    then show ?thesis
      using n by (auto simp: yields_def deadlineMiddleware_def Let_def intro!: nil_rules nil_bind kq split: option.split)
  next
    case (MwTimeout d)
    then show ?thesis using n by (auto simp: yields_def timeoutMiddleware_def intro!: nil_bind kq)
  next
    case MwCircuitBreaker
    have after: "nil_only I Q (bind (next x st) (\<lambda>err. bind (breaker_complete r s err) (\<lambda>_. ret err)))" for x st r s
      by (intro nil_after n keeps_quiet quiets)
    then have "nil_only I Q (case a of Rejected \<Rightarrow> ret (Some ErrCircuitOpen)
        | Admitted s \<Rightarrow> bind (next x st) (\<lambda>err. bind (breaker_complete r s err) (\<lambda>_. ret err)))" for a x st r
      by (cases a) (simp_all add: nil_ret_Some)
    then have "nil_only I Q (Breaker_Execute r x (next x st))" for x st r
      unfolding Breaker_Execute_def ctx_poll_def by (intro nil_bind retn kq user_property.relates_bind user_property.relates_ret)
    then show ?thesis
      using n MwCircuitBreaker by (auto simp: yields_def circuitBreakerMiddleware_def split: option.split)
  next
    case MwInstrumenter
    have "nil_only I Q (bind (BeforeAttempt i x st) (\<lambda>x. bind (next x st) (\<lambda>err.
        bind (AfterAttempt i x (st\<lparr>LastError := err\<rparr>)) (\<lambda>_. ret err))))" if "Instrumenter c = Some i" for i x st
      by (rule nil_bind, rule hk [OF that], rule nil_after) (rule n after [OF that])+
    then show ?thesis
      using n MwInstrumenter by (auto simp: yields_def instrumenterMiddleware_def split: option.split)
  next
    case MwPanicRecovery
    then show ?thesis
      using n by (auto simp: yields_def panicRecoveryMiddleware_def nil_only_def split: prod.splits result.splits)
  next
    case MwChaos
    have "keeps I (inject_latency cfg x)" "keeps I (inject_error cfg)" for cfg x
      by (auto simp: inject_latency_def inject_error_def intro!: user_property.relates_rules split: option.split)
    then have "nil_only I Q (Chaos_Execute i x (next x st))" for i x st
      using n by (auto simp: Chaos_Execute_def intro!: nil_bind nil_rules kq split: option.split)
    then show ?thesis using n MwChaos by (auto simp: yields_def chaosMiddleware_def)
  qed (use assms(6) in simp)
qed

lemma yields_compose:
  "yields I Q t \<Longrightarrow> action_relate (user_rel I) t \<Longrightarrow> hooks_relate (user_rel I) c \<Longrightarrow> after_hook_keeps Q c \<Longrightarrow> 0 < MaxAttempts c \<Longrightarrow> MwFallback \<notin> set ms \<Longrightarrow> yields I Q (compose c ms t)"
  by (induction ms) (auto intro!: yields_mw user_property.relates_compose)

text \<open>A configuration as the package functions and \<open>New\<close> make them.\<close>

definition fresh :: "('u, 't) config \<Rightarrow> bool" where
  "fresh c \<longleftrightarrow> pipeline c = None \<and> composedPipeline c = None"

lemma execute_fresh:
  "fresh c \<Longrightarrow> execute c x a s = compose c (default_middlewares c) (terminalAction a s) x (initial_state c)"
  by (rule execute_default) (simp_all add: fresh_def current_pipeline_def)

lemma default_no_fallback: "MwFallback \<notin> set (default_middlewares c)"
  by (auto simp: default_middlewares_def)

section \<open>Calls with no code of the caller but the action\<close>

definition plain :: "('u, 't) config \<Rightarrow> bool" where
  "plain c \<longleftrightarrow> fresh c \<and> 0 < MaxAttempts c \<and> Instrumenter c = None \<and> (\<exists>r. Backoff c = FullJitter r)
     \<and> Fallback c = NoFallback"

text \<open>
  An invariant of the caller's state that the action keeps is kept by the call, and what the action
  guarantees with a nil result, from states in the invariant, the call guarantees with one.
\<close>

lemma DoErr_plain:
  assumes "plain c" "\<And>x. keeps I (action x)" "\<And>x. nil_only I Q (action x)" "I (user w)"
    "DoErr c x action w = (r, w')"
  shows "I (user w')" and "r = Ret None \<Longrightarrow> Q (user w')"
proof -
  let ?t = "terminalAction (Some (\<lambda>x _. action x)) None"
  have c: "fresh c" "0 < MaxAttempts c" using assms(1) by (simp_all add: plain_def)
  have h: "hooks_relate (user_rel I) c" "after_hook_keeps Q c"
    using assms(1) by (auto simp: plain_def hooks_relate_def after_hook_keeps_def)
  have t: "yields I Q ?t" "action_relate (user_rel I) ?t"
    using assms(2,3) by (simp_all add: yields_def action_relate_def terminalAction_def)
  have e: "execute c x (Some (\<lambda>x _. action x)) None w = (r, w')"
    using assms(1,5) unfolding DoErr_def DoErrState_def error_fallback_def
    by (elim bind_cases) (auto simp: plain_def split: option.splits)
  have "keeps I (execute c x (Some (\<lambda>x _. action x)) None)"
    using assms(2) h(1) by (intro user_property.relates_execute) (auto simp: action_relate_def)
  then show "I (user w')" using keepsD e assms(4) by blast
  have "yields I Q (compose c (default_middlewares c) ?t)"
    using t h c by (intro yields_compose default_no_fallback)
  then show "Q (user w')" if "r = Ret None"
    using e that assms(4) c(1) by (simp add: execute_fresh yields_def nil_only_def)
qed

section \<open>The value of a successful call\<close>

lemma lift_snd: "lift m w = (r, w') \<Longrightarrow> snd (user w') = snd (user w)"
  by (auto simp: lift_def with_user_def split: prod.splits)

lemma lift_config_simps [simp]:
  "MaxAttempts (lift_config c) = MaxAttempts c" "fresh (lift_config c) = fresh c"
  "RateLimiter (lift_config c) = RateLimiter c" "AdaptiveLimiter (lift_config c) = AdaptiveLimiter c"
  "Bulkhead (lift_config c) = Bulkhead c" "PriorityBulkhead (lift_config c) = PriorityBulkhead c"
  by (simp_all add: lift_config_def fresh_def)

lemma lift_hooks_keep: "after_hook_keeps (\<lambda>u. P (snd u)) (lift_config c)"
  by (auto simp: after_hook_keeps_def lift_config_def keeps_def lift_instrumenter_def dest: lift_snd split: option.split)

lemma execute_value_sound:
  fixes c :: "('u, 'a) config" and zero :: 't
  assumes "execute_value c x zero action w = (Ret (v, None), w')" "fresh c" "0 < MaxAttempts c"
  shows "\<exists>x' st w1 w2. action x' st w1 = (Ret (v, None), w2)"
proof -
  let ?P = "\<lambda>v. \<exists>x' st w1 w2. action x' st w1 = (Ret (v, None), w2)"
  let ?c = "lift_config c :: ('u \<times> 't, unit) config"
  obtain w1 where e: "execute ?c x (Some (assigning action)) None (with_user (user w, zero) w) = (Ret None, w1)"
    "v = snd (user w1)"
    using assms(1) by (auto simp: execute_value_def split: prod.splits result.splits)
  have "yields (\<lambda>_. True) (\<lambda>u. ?P (snd u)) (terminalAction (Some (assigning action)) None)"
    by (auto simp: yields_def nil_only_def terminalAction_def assigning_def lift_def split: prod.splits result.splits)
  moreover have "after_hook_keeps (\<lambda>u. ?P (snd u)) ?c" by (rule lift_hooks_keep)
  ultimately
  have "yields (\<lambda>_. True) (\<lambda>u. ?P (snd u)) (compose ?c (default_middlewares ?c) (terminalAction (Some (assigning action)) None))"
    using assms(3) by (intro yields_compose default_no_fallback) simp_all
  then have n: "nil_only (\<lambda>_. True) (\<lambda>u. ?P (snd u)) (execute ?c x (Some (assigning action)) None)"
    using assms(2) by (simp add: yields_def execute_fresh)
  show ?thesis using nil_onlyD [OF n _ e(1)] e(2) by simp
qed

text \<open>A call of the default configuration whose action succeeds at once.\<close>

lemma default_pipeline_lifted:
  "default_middlewares (lift_config (DefaultConfig r)) = [MwRetry, MwDeadline, MwInstrumenter]"
  by (simp add: default_middlewares_def lift_config_def DefaultConfig_def)

lemma fresh_default [simp]: "fresh (DefaultConfig r)" "MaxAttempts (DefaultConfig r) = 5" "Fallback (DefaultConfig r) = NoFallback"
  by (simp_all add: fresh_def DefaultConfig_def)

lemma lifted_default_fields: 
  "Instrumenter (lift_config (DefaultConfig r)) = None" "AdaptiveBucket (lift_config (DefaultConfig r)) = None"
  by (simp_all add: lift_config_def DefaultConfig_def)

lemma execute_value_default_success:
  fixes action :: "ctx \<Rightarrow> retry_state \<Rightarrow> ('u, 't \<times> go_error option) prog"
  assumes "\<And>st w. fst (action Background st w) = Ret (v, None)"
  shows "\<exists>w'. execute_value (DefaultConfig r :: ('u, 'a) config) Background zero action w = (Ret (v, None), w')"
proof -
  have a: "\<exists>w2. assigning action Background st w1 = (Ret None, w2) \<and> snd (user w2) = v" for st w1
    using assms [of st "with_user (fst (user w1)) w1"]
    by (auto simp: assigning_def lift_def split: prod.splits)
  let ?c = "lift_config (DefaultConfig r :: ('u, 'a) config) :: ('u \<times> 't, unit) config"
  have "\<exists>w2. execute ?c Background (Some (assigning action)) None w1 = (Ret None, w2) \<and> snd (user w2) = v" for w1
  proof -
    let ?st = "(attempt_state (initial_state ?c) 0 [])
      \<lparr>TotalDuration := time_Sub (now (clock_step (clock_step w1))) (now (clock_step w1))\<rparr>"
    obtain w2 where "assigning action Background ?st (clock_step (clock_step w1)) = (Ret None, w2)" "snd (user w2) = v"
      using a by blast
    then show ?thesis
      by (simp add: execute_fresh default_pipeline_lifted retryMiddleware_def retry_loop_step deadlineMiddleware_def
          instrumenterMiddleware_def terminalAction_def lifted_default_fields Background_def success_token_def)
  qed
  then obtain w2 where "execute ?c Background (Some (assigning action)) None (with_user (user w, zero) w) = (Ret None, w2)"
    "snd (user w2) = v" by blast
  then show ?thesis by (simp add: execute_value_def)
qed

text \<open>
  C16. A successful call returns a value its action produced: with at least one attempt and no
  fallback, if \<open>DoState\<close> returns a nil error, then its value was returned with a nil error by
  a run of the action, whatever rate limiter, limiter, bulkheads, timeouts, circuit breaker,
  instrumentation, panic recovery and fault injection are configured around it. It is never the zero
  value of the variable or the value of a failed attempt.
\<close>

theorem do_value_comes_from_action:
  assumes "DoState c x zero action w = (Ret (v, None), w')" "fresh c" "0 < MaxAttempts c" "Fallback c = NoFallback"
  shows "\<exists>x' st w1 w2. action x' st w1 = (Ret (v, None), w2)"
proof -
  from assms(1) have "execute_value c x zero action w = (Ret (v, None), w')"
    unfolding DoState_def value_fallback_def by (elim bind_cases) (auto simp: assms(4) split: option.splits)
  then show ?thesis using assms(2,3) by (rule execute_value_sound)
qed

theorem do_value_comes_from_action_witness:
  "\<exists>w'. DoState (DefaultConfig 0 :: (unit, nat) config) Background 0 (\<lambda>x st. ret (42, None)) (calm_world ()) = (Ret (42, None), w')
     \<and> (\<exists>x' st w1 w2. (\<lambda>x st. ret (42 :: nat, None)) x' st (w1 :: unit world) = (Ret (42, None :: go_error option), w2))"
proof -
  obtain w' where "execute_value (DefaultConfig 0 :: (unit, nat) config) Background (0::nat) (\<lambda>x st. ret (42, None)) (calm_world ())
      = (Ret (42, None), w')"
    using execute_value_default_success [of "\<lambda>x st. ret (42, None)"] by fastforce
  then have d: "DoState (DefaultConfig 0 :: (unit, nat) config) Background 0 (\<lambda>x st. ret (42, None)) (calm_world ()) = (Ret (42, None), w')"
    by (simp add: DoState_def value_fallback_def)
  from do_value_comes_from_action [OF this] d show ?thesis by simp
qed

text \<open>
  C2. A transition of the state machine is all or nothing. If \<open>Handle\<close> returns an error, state
  and data are unchanged; if it returns nil and at least one attempt is configured, the new state and
  data are exactly a pair that one run of the transition function, on the old state and data and this
  event, returned without an error: a failed attempt leaves no trace in the machine.
\<close>

theorem state_machine_transition_is_atomic:
  assumes "Handle c zero transition x event sm w = (Ret (err, sm'), w')" "fresh c" "0 < MaxAttempts c"
  shows "(err \<noteq> None \<longrightarrow> sm' = sm) \<and>
    (err = None \<longrightarrow> (\<exists>x' rs w1 w2. transition x' (sm_state sm) (sm_data sm) event rs w1
        = (Ret ((sm_state sm', sm_data sm'), None), w2)))"
proof -
  let ?act = "\<lambda>x rs. bind (transition x (sm_state sm) (sm_data sm) event rs) (\<lambda>(next, err).
               case err of Some e \<Rightarrow> ret (zero, Some e) | None \<Rightarrow> ret (next, None))"
  obtain v e w1 where v: "execute_value c x zero ?act w = (Ret (v, e), w1)"
    "(if e = None then (Ret (None, sm\<lparr>sm_state := fst v, sm_data := snd v\<rparr>), w1) else (Ret (e, sm), w1))
       = (Ret (err, sm'), w')"
    using assms(1) unfolding Handle_def by (elim bind_cases) (auto split: if_splits)
  show ?thesis
  proof (cases e)
    case (Some a)
    then show ?thesis using v(2) by auto
  next
    case None
    with v(1) have "execute_value c x zero ?act w = (Ret (v, None), w1)" by simp
    from execute_value_sound [OF this assms(2,3)]
    obtain x' st w2 w3 where "?act x' st w2 = (Ret (v, None), w3)" by blast
    then have "\<exists>w4. transition x' (sm_state sm) (sm_data sm) event st w2 = (Ret (v, None), w4)"
      by (elim bind_cases) (auto split: option.splits)
    then show ?thesis using v(2) None by (cases v) fastforce
  qed
qed

definition count_up :: "ctx \<Rightarrow> nat \<Rightarrow> nat \<Rightarrow> unit \<Rightarrow> retry_state \<Rightarrow> (unit, (nat \<times> nat) \<times> go_error option) prog" where
  "count_up x s d e rs = ret ((s + 1, d + 10), None)"

theorem state_machine_transition_is_atomic_witness:
  "\<exists>sm' w'. Handle (DefaultConfig 0 :: (unit, nat) config) (0, 0) count_up Background ()
      (NewStateMachine 1 2) (calm_world ()) = (Ret (None, sm'), w')
    \<and> (\<exists>x' rs w1 w2. count_up x' 1 2 () rs w1 = (Ret ((sm_state sm', sm_data sm'), None), w2))"
proof -
  let ?c = "DefaultConfig 0 :: (unit, nat) config"
  let ?act = "\<lambda>x rs. bind (count_up x 1 2 () rs) (\<lambda>(next, err).
               case err of Some e \<Rightarrow> ret ((0, 0), Some e) | None \<Rightarrow> ret (next, None))"
  obtain w' where "execute_value ?c Background (0, 0) ?act (calm_world ()) = (Ret ((2, 12), None), w')"
    using execute_value_default_success [of ?act "(2, 12)" 0 "(0, 0)" "calm_world ()"] by (auto simp: count_up_def)
  then have "Handle ?c (0, 0) count_up Background () (NewStateMachine 1 2) (calm_world ())
      = (Ret (None, \<lparr>sm_state = 2, sm_data = 12\<rparr>), w')"
    by (simp add: Handle_def NewStateMachine_def)
  from state_machine_transition_is_atomic [OF this] this show ?thesis
    by (force simp: NewStateMachine_def)
qed

text \<open>
  C24. With zero attempts the state machine is wiped: \<open>Handle\<close> runs no transition, reports
  success and replaces state and data by the zero values of their types.
\<close>

theorem state_machine_zero_attempts_wipes:
  fixes c :: "('u, 'a) config" and s0 :: 's and d0 :: 'd
  assumes "fresh c" "MaxAttempts c = 0" "RateLimiter c = None" "AdaptiveLimiter c = None"
    "Bulkhead c = None" "PriorityBulkhead c = None"
  shows "fst (Handle c (s0, d0) transition x event sm w) = Ret (None, \<lparr>sm_state = s0, sm_data = d0\<rparr>)"
proof -
  let ?c = "lift_config c :: ('u \<times> 's \<times> 'd, unit) config"
  have "\<exists>ms. default_middlewares ?c = MwRetry # ms" using assms by (simp add: default_middlewares_def)
  then obtain ms where ms: "default_middlewares ?c = MwRetry # ms" by blast
  let ?act = "\<lambda>x rs. bind (transition x (sm_state sm) (sm_data sm) event rs) (\<lambda>(next, err).
               case err of Some e \<Rightarrow> ret ((s0, d0), Some e) | None \<Rightarrow> ret (next, None))"
  let ?w = "with_user (user w, (s0, d0)) w"
  have "execute ?c x (Some (assigning ?act)) None ?w = (Ret None, clock_step ?w)"
    using assms ms by (simp add: execute_fresh retryMiddleware_def retry_loop.simps joined_simps)
  then have "execute_value c x (s0, d0) ?act w = (Ret ((s0, d0), None), with_user (user w) (clock_step ?w))"
    by (simp add: execute_value_def with_user_def)
  then show ?thesis by (simp add: Handle_def)
qed

theorem state_machine_zero_attempts_wipes_witness:
  "fst (Handle ((DefaultConfig 0 :: (unit, nat) config)\<lparr>MaxAttempts := 0\<rparr>) (0, 0) count_up Background ()
      (NewStateMachine 7 8) (calm_world ())) = Ret (None, \<lparr>sm_state = 0, sm_data = 0\<rparr>)"
  by (rule state_machine_zero_attempts_wipes) (simp_all add: DefaultConfig_def fresh_def)

end
