(* ===== verification/Hedging.thy ===== *)
theory Hedging
  imports Pipeline_Facts
begin

text \<open>
  Hedged execution (\<^verbatim>\<open>executeHedged\<close> and the hedged entry points of
  \<^verbatim>\<open>retry.go\<close>): one coordinator and up to \<open>MaxAttempts\<close> goroutines that run
  the attempts of one call at the same time and report on a buffered channel.

  The coordinator is a program counter and its local variables; one pass over the head of its loop
  (\<open>hedge_top\<close>) and the handling of one result (\<open>hedge_receive\<close>) are functions that
  compute. The step relation \<open>hedge_step\<close> adds what the code does not determine: which branch
  of a \<^verbatim>\<open>select\<close> is taken and when, and when which attempt ends. What an attempt may
  end with is the parameter \<open>may\<close>; the entry points instantiate it with the runs of the attempt
  pipeline over all worlds, so with every interference of the attempts with each other.
\<close>

section \<open>The coordinator\<close>

datatype hedge_pc =
    Top
  | Selecting "time option"
  | Returned "go_error option"
  | Crashed panic_value

text \<open>
  \<open>hg_running\<close> holds the goroutines whose action has not ended: when each was started and its
  number; \<open>hg_reporting\<close> holds the results of those that are about to send. \<open>hg_log\<close> is no variable of the code: it records the launches and the failures received.
\<close>

datatype hedge_event = Launched time u64 | Received_failure time

record ('u, 't) hedge =
  hg_pc :: hedge_pc
  hg_start :: time
  hg_started :: u64
  hg_inFlight :: int
  hg_errs :: "go_error list"
  hg_running :: "(time \<times> u64) list"
  hg_reporting :: "go_error option list"
  hg_results :: "go_error option list"
  hg_cancel :: "time option"
  hg_value :: "'t option"
  hg_world :: "'u world"
  hg_log :: "hedge_event list"

definition hedge_init :: "'u world \<Rightarrow> ('u, 't) hedge" where
  "hedge_init w =
     (let w = clock_step w
      in \<lparr>hg_pc = Top, hg_start = now w, hg_started = 0, hg_inFlight = 0, hg_errs = [],
          hg_running = [], hg_reporting = [], hg_results = [], hg_cancel = None, hg_value = None, hg_world = w, hg_log = []\<rparr>)"

definition hedge_state :: "('u, 't) config \<Rightarrow> u64 \<Rightarrow> duration \<Rightarrow> retry_state" where
  "hedge_state c a elapsed =
     \<lparr>rs_Name = Name c, Attempt = a, rs_MaxAttempts = MaxAttempts c, LastError = None,
      TotalDuration = elapsed, NextDelay = HedgingDelay c\<rparr>"

text \<open>A return cancels the context of the attempts: the call is deferred.\<close>

definition hedge_return :: "go_error option \<Rightarrow> ('u, 't) hedge \<Rightarrow> ('u, 't) hedge" where
  "hedge_return err s =
     (let w = clock_step (hg_world s)
      in s\<lparr>hg_pc := Returned err, hg_cancel := Some (now w), hg_world := w\<rparr>)"

definition hedge_launch :: "('u, 't) hedge \<Rightarrow> ('u, 't) hedge" where
  "hedge_launch s =
     (let w = clock_step (hg_world s)
      in s\<lparr>hg_running := hg_running s @ [(now w, hg_started s)], hg_started := hg_started s + 1,
           hg_inFlight := hg_inFlight s + 1, hg_world := w,
           hg_log := hg_log s @ [Launched (now w) (hg_started s)]\<rparr>)"

definition hedge_may_start :: "('u, 't) config \<Rightarrow> ('u, 't) hedge \<Rightarrow> bool result \<times> 'u world" where
  "hedge_may_start c s =
     (if hg_started s > 0 then retry_token c (hg_world s) else ret True (hg_world s))"

definition hedge_start_next :: "('u, 't) config \<Rightarrow> ('u, 't) hedge \<Rightarrow> ('u, 't) hedge" where
  "hedge_start_next c s =
     (if hg_started s < MaxAttempts c then
        (case hedge_may_start c s of (ok, w) \<Rightarrow>
           if ok = Ret True then hedge_launch (s\<lparr>hg_world := w\<rparr>)
           else s\<lparr>hg_world := w, hg_started := MaxAttempts c\<rparr>)
      else s)"

definition hedge_wait :: "('u, 't) config \<Rightarrow> ('u, 't) hedge \<Rightarrow> ('u, 't) hedge" where
  "hedge_wait c s =
     (if hg_started s \<ge> MaxAttempts c \<and> hg_inFlight s = 0 then hedge_return (joined (hg_errs s)) s
      else if hg_started s < MaxAttempts c then
        (let w = clock_step (hg_world s)
         in s\<lparr>hg_pc := Selecting (Some (now w + HedgingDelay c)), hg_world := w\<rparr>)
      else s\<lparr>hg_pc := Selecting None\<rparr>)"

definition hedge_top :: "('u, 't) config \<Rightarrow> ('u, 't) hedge \<Rightarrow> ('u, 't) hedge" where
  "hedge_top c s = hedge_wait c (hedge_start_next c s)"

text \<open>The three checks after a failed attempt, in the order of the code.\<close>

definition hedge_stops :: "('u, 't) config \<Rightarrow> go_error \<Rightarrow> bool" where
  "hedge_stops c e \<longleftrightarrow> errors_Is e ErrCircuitOpen
     \<or> (case errors_As as_retry_after e of Some (_, cancelAll) \<Rightarrow> cancelAll | None \<Rightarrow> False)
     \<or> \<not> shouldRetry (Policy c) (Some e)"

definition hedge_receive :: "('u, 't) config \<Rightarrow> go_error option \<Rightarrow> ('u, 't) hedge \<Rightarrow> ('u, 't) hedge" where
  "hedge_receive c err s =
     (let s = s\<lparr>hg_inFlight := hg_inFlight s - 1\<rparr>
      in case err of
           None \<Rightarrow> (let s = hedge_return None s in s\<lparr>hg_world := snd (success_token c (hg_world s))\<rparr>)
         | Some e \<Rightarrow>
             (let s = s\<lparr>hg_errs := hg_errs s @ [e], hg_log := hg_log s @ [Received_failure (now (hg_world s))]\<rparr>
              in if hedge_stops c e then hedge_return (joined (hg_errs s)) s
                 else s\<lparr>hg_pc := Top\<rparr>))"

declare hedge_return_def [op_defs] hedge_launch_def [op_defs] hedge_start_next_def [op_defs]
  hedge_wait_def [op_defs] hedge_top_def [op_defs] hedge_receive_def [op_defs]

section \<open>The steps\<close>

text \<open>
  An attempt ends in two steps. Its action ends, which keeps the value and fixes what the attempt
  will report; later it sends that on the channel, when there is room, or gives up when its context
  is done. A panic that leaves an attempt ends the process.
\<close>

text \<open>The context of the attempts: cancelled when the coordinator returns.\<close>

definition cancelled_at :: "time option \<Rightarrow> ctx \<Rightarrow> ctx" where
  "cancelled_at k x =
     (case k of None \<Rightarrow> x
      | Some t \<Rightarrow> x\<lparr>ctx_cancel := Some (case ctx_cancel x of None \<Rightarrow> t | Some t' \<Rightarrow> min t' t)\<rparr>)"

text \<open>The first successful attempt keeps its value, the \<^verbatim>\<open>sync.Once\<close> of the entry points.\<close>

definition keep_first :: "'t option \<Rightarrow> 't option \<Rightarrow> 't option" where
  "keep_first old new = (case old of None \<Rightarrow> new | Some v \<Rightarrow> Some v)"

abbreviation at_time :: "time \<Rightarrow> ('u, 't) hedge \<Rightarrow> ('u, 't) hedge" where
  "at_time t s \<equiv> s\<lparr>hg_world := (hg_world s)\<lparr>now := t\<rparr>\<rparr>"

definition crashed :: "('u, 't) hedge \<Rightarrow> bool" where
  "crashed s \<longleftrightarrow> (\<exists>p. hg_pc s = Crashed p)"

inductive hedge_step ::
  "('u, 't) config \<Rightarrow> ctx \<Rightarrow> (ctx \<Rightarrow> retry_state \<Rightarrow> 't option \<Rightarrow> go_error option result \<Rightarrow> bool)
     \<Rightarrow> ('u, 't) hedge \<Rightarrow> ('u, 't) hedge \<Rightarrow> bool"
  for c x may where
  top: "hg_pc s = Top \<Longrightarrow> hedge_step c x may s (hedge_top c s)"
| ctx_done: "hg_pc s = Selecting tm \<Longrightarrow> now (hg_world s) \<le> t \<Longrightarrow> ctx_Err t x = Some e \<Longrightarrow>
     hedge_step c x may s (hedge_return (joined (hg_errs s @ [e])) (at_time t s))"
| result: "hg_pc s = Selecting tm \<Longrightarrow> now (hg_world s) \<le> t \<Longrightarrow> hg_results s = r # rs \<Longrightarrow>
     hedge_step c x may s (hedge_receive c r (at_time t (s\<lparr>hg_results := rs\<rparr>)))"
| timer: "hg_pc s = Selecting (Some f) \<Longrightarrow> now (hg_world s) \<le> t \<Longrightarrow> f \<le> t \<Longrightarrow>
     hedge_step c x may s (at_time t (s\<lparr>hg_pc := Top\<rparr>))"
| resolve: "\<not> crashed s \<Longrightarrow> now (hg_world s) \<le> t \<Longrightarrow> hg_running s = before @ (t0, a) # after \<Longrightarrow> t0 \<le> t1 \<Longrightarrow> t1 \<le> t \<Longrightarrow>
     may (cancelled_at (hg_cancel s) x) (hedge_state c a (time_Sub t1 (hg_start s))) v (Ret err) \<Longrightarrow>
     hedge_step c x may s (at_time t (s\<lparr>hg_running := before @ after, hg_reporting := err # hg_reporting s,
       hg_value := keep_first (hg_value s) v\<rparr>))"
| report: "\<not> crashed s \<Longrightarrow> now (hg_world s) \<le> t \<Longrightarrow> hg_reporting s = before' @ err # after' \<Longrightarrow>
     length (hg_results s) < unat (MaxAttempts c) \<Longrightarrow>
     hedge_step c x may s (at_time t (s\<lparr>hg_reporting := before' @ after', hg_results := hg_results s @ [err]\<rparr>))"
| drop: "\<not> crashed s \<Longrightarrow> now (hg_world s) \<le> t \<Longrightarrow> hg_reporting s = before' @ err # after' \<Longrightarrow>
     ctx_Err t (cancelled_at (hg_cancel s) x) \<noteq> None \<Longrightarrow>
     hedge_step c x may s (at_time t (s\<lparr>hg_reporting := before' @ after'\<rparr>))"
| crash: "\<not> crashed s \<Longrightarrow> now (hg_world s) \<le> t \<Longrightarrow> hg_running s = before @ (t0, a) # after \<Longrightarrow> t0 \<le> t1 \<Longrightarrow> t1 \<le> t \<Longrightarrow>
     may (cancelled_at (hg_cancel s) x) (hedge_state c a (time_Sub t1 (hg_start s))) v (Panic p) \<Longrightarrow>
     hedge_step c x may s (at_time t (s\<lparr>hg_running := before @ after, hg_pc := Crashed p\<rparr>))"

inductive hedge_reach ::
  "('u, 't) config \<Rightarrow> ctx \<Rightarrow> (ctx \<Rightarrow> retry_state \<Rightarrow> 't option \<Rightarrow> go_error option result \<Rightarrow> bool)
     \<Rightarrow> 'u world \<Rightarrow> ('u, 't) hedge \<Rightarrow> bool"
  for c x may w where
  init: "hedge_reach c x may w (hedge_init w)"
| step: "hedge_reach c x may w s \<Longrightarrow> hedge_step c x may s s' \<Longrightarrow> hedge_reach c x may w s'"

section \<open>The invariant\<close>

definition active :: "hedge_pc \<Rightarrow> bool" where
  "active pc \<longleftrightarrow> (case pc of Top \<Rightarrow> True | Selecting _ \<Rightarrow> True | _ \<Rightarrow> False)"

lemma active_simps [simp]:
  "active Top" "active (Selecting f)" "\<not> active (Returned r)" "\<not> active (Crashed p)"
  by (simp_all add: active_def)

lemma active_cases [consumes 1, case_names Top Selecting]: "active pc \<Longrightarrow> (pc = Top \<Longrightarrow> P) \<Longrightarrow> (\<And>f. pc = Selecting f \<Longrightarrow> P) \<Longrightarrow> P"
  by (cases pc) simp_all

text \<open>The goroutines and results that still exist.\<close>

definition pending :: "('u, 't) hedge \<Rightarrow> nat" where
  "pending s = length (hg_running s) + length (hg_reporting s) + length (hg_results s)"

definition counts_ok :: "('u, 't) config \<Rightarrow> ('u, 't) hedge \<Rightarrow> bool" where
  "counts_ok c s \<longleftrightarrow> hg_started s \<le> MaxAttempts c \<and> pending s \<le> unat (hg_started s)
     \<and> distinct (map snd (hg_running s)) \<and> (\<forall>a \<in> snd ` set (hg_running s). a < hg_started s)"

definition active_ok :: "('u, 't) config \<Rightarrow> ctx \<Rightarrow> ('u, 't) hedge \<Rightarrow> bool" where
  "active_ok c x s \<longleftrightarrow> int (pending s) \<le> hg_inFlight s
     \<and> hg_inFlight s + int (length (hg_errs s)) \<le> int (unat (hg_started s))
     \<and> (int (pending s) = hg_inFlight s \<or> (\<exists>t. ctx_Err t x \<noteq> None))
     \<and> hg_cancel s = None \<and> (\<forall>e \<in> set (hg_errs s). \<not> hedge_stops c e)"

definition pc_ok :: "('u, 't) config \<Rightarrow> ('u, 't) hedge \<Rightarrow> bool" where
  "pc_ok c s \<longleftrightarrow> (case hg_pc s of
      Selecting (Some f) \<Rightarrow> hg_started s < MaxAttempts c
    | Selecting None \<Rightarrow> MaxAttempts c \<le> hg_started s \<and> hg_inFlight s \<noteq> 0
    | _ \<Rightarrow> True)"

definition hedge_inv :: "('u, 't) config \<Rightarrow> ctx \<Rightarrow> ('u, 't) hedge \<Rightarrow> bool" where
  "hedge_inv c x s \<longleftrightarrow> counts_ok c s \<and> (active (hg_pc s) \<longrightarrow> active_ok c x s) \<and> pc_ok c s"

lemmas hedge_inv_defs = hedge_inv_def counts_ok_def active_ok_def pc_ok_def pending_def

lemma hedge_inv_init: "hedge_inv c x (hedge_init w)"
  by (simp add: hedge_inv_defs hedge_init_def Let_def)

lemma start_next_ok:
  assumes "counts_ok c s" "active_ok c x s"
  shows "counts_ok c (hedge_start_next c s) \<and> active_ok c x (hedge_start_next c s)"
proof (cases "hg_started s < MaxAttempts c")
  case lt: True
  obtain ok w where m: "hedge_may_start c s = (ok, w)" by fastforce
  note u = attempt_next [OF lt]
  show ?thesis
  proof (cases "ok = Ret True")
    case True
    have "hg_started s + 1 \<le> MaxAttempts c" using lt u by (simp add: word_less_nat_alt word_le_nat_alt)
    moreover have "a < hg_started s + 1" if "a < hg_started s" for a
      using that u by (simp add: word_less_nat_alt)
    moreover have "hg_started s < hg_started s + 1" using u by (simp add: word_less_nat_alt)
    ultimately show ?thesis
      using assms lt True m u
      by (auto simp: hedge_start_next_def hedge_launch_def counts_ok_def active_ok_def pending_def Let_def)
  next
    case False
    have "unat (hg_started s) \<le> unat (MaxAttempts c)" "uint (hg_started s) \<le> uint (MaxAttempts c)"
      using order_less_imp_le [OF lt] by (simp add: word_le_nat_alt, simp add: word_le_def)
    then show ?thesis
      using assms lt False m
      by (auto simp: hedge_start_next_def counts_ok_def active_ok_def pending_def intro: less_trans)
  qed
qed (use assms in \<open>simp add: hedge_start_next_def\<close>)

lemma wait_ok:
  assumes "counts_ok c s" "active_ok c x s"
  shows "hedge_inv c x (hedge_wait c s)"
  using assms by (auto simp: hedge_wait_def hedge_return_def hedge_inv_defs Let_def)

lemma hedge_step_inv: "hedge_step c x may s s' \<Longrightarrow> hedge_inv c x s \<Longrightarrow> hedge_inv c x s'"
proof (induction rule: hedge_step.induct)
  case (top s)
  then have "counts_ok c s" "active_ok c x s" by (simp_all add: hedge_inv_def)
  from start_next_ok [OF this] show ?case by (simp add: hedge_top_def wait_ok)
next
  case (ctx_done s tm t e)
  then show ?case by (auto simp: hedge_return_def hedge_inv_defs Let_def)
next
  case (result s tm t r rs)
  then show ?case
    by (auto simp: hedge_receive_def hedge_return_def hedge_inv_defs Let_def split: option.split)
next
  case (timer s f t)
  then show ?case by (auto simp: hedge_inv_defs)
next
  case (resolve s t before t0 a after t1 v err)
  then show ?case by (cases "hg_pc s") (auto simp: hedge_inv_defs split: option.splits)
next
  case (report s t before' err after')
  then show ?case by (cases "hg_pc s") (auto simp: hedge_inv_defs split: option.splits)
next
  case (drop s t before' err after')
  then show ?case by (cases "hg_pc s") (auto simp: hedge_inv_defs cancelled_at_def split: option.splits)
next
  case (crash s t before t0 a after t1 p)
  then show ?case by (cases "hg_pc s") (auto simp: hedge_inv_defs split: option.splits)
qed

lemma hedge_reach_inv: "hedge_reach c x may w s \<Longrightarrow> hedge_inv c x s"
  by (induction rule: hedge_reach.induct) (auto intro: hedge_inv_init hedge_step_inv)

section \<open>The call ends\<close>

text \<open>Every step brings the coordinator or an attempt closer to its end.\<close>

definition pc_weight :: "('u, 't) config \<Rightarrow> ('u, 't) hedge \<Rightarrow> nat" where
  "pc_weight c s =
     (case hg_pc s of
        Top \<Rightarrow> if hg_started s < MaxAttempts c then 1 else 2
      | Selecting f \<Rightarrow> if hg_started s < MaxAttempts c then 2 else 1
      | _ \<Rightarrow> 0)"

definition hedge_measure :: "('u, 't) config \<Rightarrow> ('u, 't) hedge \<Rightarrow> nat" where
  "hedge_measure c s =
     7 * (unat (MaxAttempts c) - unat (hg_started s)) + 4 * length (hg_running s)
     + 3 * length (hg_reporting s) + 2 * length (hg_results s) + pc_weight c s"

lemma wait_measure:
  "hg_pc s = Top \<Longrightarrow> \<not> hg_started s < MaxAttempts c \<Longrightarrow> hedge_measure c (hedge_wait c s) < hedge_measure c s"
  "hg_pc s = Top \<Longrightarrow> hedge_measure c (hedge_wait c s) \<le> hedge_measure c s + 1"
  by (auto simp: hedge_wait_def hedge_measure_def pc_weight_def hedge_return_def Let_def)

lemma start_next_measure:
  assumes "hg_pc s = Top" "hg_started s < MaxAttempts c"
  shows "hg_pc (hedge_start_next c s) = Top" "hedge_measure c (hedge_start_next c s) + 2 \<le> hedge_measure c s"
proof -
  obtain ok w where m: "hedge_may_start c s = (ok, w)" by fastforce
  have lt: "unat (hg_started s) < unat (MaxAttempts c)" using assms(2) by (simp add: word_less_nat_alt)
  show "hg_pc (hedge_start_next c s) = Top" "hedge_measure c (hedge_start_next c s) + 2 \<le> hedge_measure c s"
    using assms lt m attempt_next [OF assms(2)]
    by (auto simp: hedge_start_next_def hedge_launch_def hedge_measure_def pc_weight_def Let_def)
qed

lemma top_measure:
  assumes "hg_pc s = Top"
  shows "hedge_measure c (hedge_top c s) < hedge_measure c s"
proof (cases "hg_started s < MaxAttempts c")
  case True
  show ?thesis
    using start_next_measure [OF assms True] wait_measure(2) [of "hedge_start_next c s" c] by (simp add: hedge_top_def)
next
  case False
  then show ?thesis using wait_measure(1) [OF assms False] by (simp add: hedge_top_def hedge_start_next_def)
qed

lemma hedge_step_measure:
  "hedge_step c x may s s' \<Longrightarrow> hedge_inv c x s \<Longrightarrow> hedge_measure c s' < hedge_measure c s"
proof (induction rule: hedge_step.induct)
  case (top s)
  then show ?case by (simp add: top_measure)
next
  case (result s tm t r rs)
  then show ?case
    by (auto simp: hedge_receive_def hedge_return_def hedge_measure_def pc_weight_def Let_def split: option.split)
next
  case (timer s f t)
  then show ?case by (simp add: hedge_measure_def pc_weight_def hedge_inv_def pc_ok_def)
qed (auto simp: hedge_measure_def pc_weight_def hedge_return_def Let_def split: hedge_pc.split)

lemma hedge_steps_measure:
  "(hedge_step c x may ^^ n) s s' \<Longrightarrow> hedge_inv c x s \<Longrightarrow> hedge_measure c s' + n \<le> hedge_measure c s \<and> hedge_inv c x s'"
proof (induction n arbitrary: s')
  case (Suc n)
  then obtain s1 where "(hedge_step c x may ^^ n) s s1" and st: "hedge_step c x may s1 s'" by auto
  then have "hedge_measure c s1 + n \<le> hedge_measure c s" "hedge_inv c x s1" using Suc.IH Suc.prems(2) by simp_all
  with hedge_step_measure [OF st] hedge_step_inv [OF st] show ?case by simp
qed simp

text \<open>While something is left to do, some step is possible.\<close>

lemma can_report:
  assumes "hedge_inv c x s" "\<not> crashed s" "hg_reporting s = err # after"
  shows "\<exists>s'. hedge_step c x may s s'"
proof -
  have "length (hg_results s) < unat (hg_started s)" "hg_started s \<le> MaxAttempts c"
    using assms(1,3) by (auto simp: hedge_inv_defs)
  then have "length (hg_results s) < unat (MaxAttempts c)" by (simp add: word_le_nat_alt)
  then show ?thesis using hedge_step.report [of s "now (hg_world s)" "[]" err after c] assms(2,3) by auto
qed

lemma can_resolve:
  assumes "\<not> crashed s" "hg_running s = (t0, a) # after" "\<forall>x st. \<exists>v r. may x st v r"
  shows "\<exists>s'. hedge_step c x may s s'"
proof -
  let ?t = "max t0 (now (hg_world s))"
  obtain v r where m: "may (cancelled_at (hg_cancel s) x) (hedge_state c a (time_Sub t0 (hg_start s))) v r"
    using assms(3) by blast
  show ?thesis
  proof (cases r)
    case (Ret err)
    then show ?thesis
      using hedge_step.resolve [of s ?t "[]" t0 a after t0 may x c v err] m assms(1,2) by auto
  next
    case (Panic p)
    then show ?thesis
      using hedge_step.crash [of s ?t "[]" t0 a after t0 may x c v p] m assms(1,2) by auto
  qed
qed

lemma can_coordinate:
  assumes "hedge_inv c x s" "active (hg_pc s)" "hg_running s = []" "hg_reporting s = []"
  shows "\<exists>s'. hedge_step c x may s s'"
  using assms(2)
proof (cases rule: active_cases)
  case Top
  then show ?thesis by (auto intro: hedge_step.top)
next
  case (Selecting f)
  show ?thesis
  proof (cases f)
    case (Some t)
    then show ?thesis using Selecting hedge_step.timer [of s t "max t (now (hg_world s))" c x may] by auto
  next
    case None
    show ?thesis
    proof (cases "hg_results s")
      case (Cons r rs)
      then show ?thesis using Selecting hedge_step.result [of s f "now (hg_world s)" r rs c x may] by auto
    next
      case Nil
      then have "hg_inFlight s \<noteq> int (pending s)"
        using assms Selecting None by (simp add: hedge_inv_def pc_ok_def pending_def)
      then obtain t e where t: "ctx_Err t x = Some e" using assms(1,2) by (auto simp: hedge_inv_def active_ok_def)
      let ?t = "max t (now (hg_world s))"
      obtain e' where "ctx_Err ?t x = Some e'" using ctx_Err_stable [OF t, of ?t] by auto
      then show ?thesis using Selecting hedge_step.ctx_done [of s f ?t x e' c may] by auto
    qed
  qed
qed

text \<open>
  C11. A hedged call always ends, and leaves nothing behind. No run is longer than seven steps per
  attempt and two more, whatever the schedule; and if every attempt ends at some time, a state in
  which no step is possible is one where an attempt's panic ended the process, or where the call has
  returned and every goroutine it started has finished: none is left waiting on the channel, also
  not those whose result nobody receives.
\<close>

theorem hedged_call_terminates:
  assumes "(hedge_step c x may ^^ n) (hedge_init w) s" "\<forall>x st. \<exists>v r. may x st v r"
  shows "n \<le> 7 * unat (MaxAttempts c) + 2 \<and>
    ((\<nexists>s'. hedge_step c x may s s') \<longrightarrow>
       crashed s \<or> ((\<exists>r. hg_pc s = Returned r) \<and> hg_running s = [] \<and> hg_reporting s = []))"
proof
  have m: "hedge_measure c s + n \<le> hedge_measure c (hedge_init w :: ('a, 'b) hedge)" and i: "hedge_inv c x s"
    using hedge_steps_measure [OF assms(1) hedge_inv_init] by simp_all
  then show "n \<le> 7 * unat (MaxAttempts c) + 2"
    by (simp add: hedge_measure_def pc_weight_def hedge_init_def Let_def split: if_splits)
  show "(\<nexists>s'. hedge_step c x may s s') \<longrightarrow>
     crashed s \<or> ((\<exists>r. hg_pc s = Returned r) \<and> hg_running s = [] \<and> hg_reporting s = [])"
  proof (intro impI)
    assume stuck: "\<nexists>s'. hedge_step c x may s s'"
    show "crashed s \<or> ((\<exists>r. hg_pc s = Returned r) \<and> hg_running s = [] \<and> hg_reporting s = [])"
    proof (cases "crashed s")
      case False
      have "hg_reporting s = []" using stuck can_report [OF i False] by (cases "hg_reporting s") auto
      moreover have "hg_running s = []"
        using stuck can_resolve [OF False _ assms(2), of _ _ _ c x] by (cases "hg_running s") auto
      moreover have "\<not> active (hg_pc s)" using stuck can_coordinate [OF i] calculation by blast
      ultimately show ?thesis using False by (cases "hg_pc s") (auto simp: crashed_def)
    qed simp
  qed
qed

section \<open>The result, and where it comes from\<close>

definition launched :: "hedge_event list \<Rightarrow> u64 list" where
  "launched es = concat (map (\<lambda>e. case e of Launched t a \<Rightarrow> [a] | _ \<Rightarrow> []) es)"

definition delayed :: "duration \<Rightarrow> hedge_event \<Rightarrow> hedge_event \<Rightarrow> bool" where
  "delayed d e e' \<longleftrightarrow> (case (e, e') of (Launched t a, Launched t' b) \<Rightarrow> t + d \<le> t' | _ \<Rightarrow> True)"

definition launches_ok :: "('u, 't) config \<Rightarrow> ('u, 't) hedge \<Rightarrow> bool" where
  "launches_ok c s \<longleftrightarrow> launched (hg_log s) = map word_of_nat [0..<length (launched (hg_log s))]
     \<and> length (launched (hg_log s)) \<le> unat (hg_started s) \<and> (0 < hg_started s \<longrightarrow> launched (hg_log s) \<noteq> [])
     \<and> (hg_started s < MaxAttempts c \<or> AdaptiveBucket c = None \<longrightarrow> length (launched (hg_log s)) = unat (hg_started s))
     \<and> (active (hg_pc s) \<longrightarrow> int (length (launched (hg_log s))) = hg_inFlight s + int (length (hg_errs s)))"

text \<open>When the next attempt may be launched: the time the hedging delay after the last launch ends.\<close>

definition next_launch_after :: "('u, 't) hedge \<Rightarrow> time option" where
  "next_launch_after s =
     (case hg_pc s of Top \<Rightarrow> Some (now (hg_world s)) | Selecting (Some f) \<Rightarrow> Some f | _ \<Rightarrow> None)"

definition pace_ok :: "('u, 't) config \<Rightarrow> ('u, 't) hedge \<Rightarrow> bool" where
  "pace_ok c s \<longleftrightarrow> successively (delayed (HedgingDelay c)) (hg_log s)
     \<and> (\<forall>f t a. next_launch_after s = Some f \<and> hg_log s \<noteq> [] \<and> last (hg_log s) = Launched t a \<longrightarrow> t + HedgingDelay c \<le> f)"

definition outcome_ok ::
  "('u, 't) config \<Rightarrow> ctx \<Rightarrow> (ctx \<Rightarrow> retry_state \<Rightarrow> 't option \<Rightarrow> go_error option result \<Rightarrow> bool) \<Rightarrow> ('u, 't) hedge \<Rightarrow> bool" where
  "outcome_ok c x may s \<longleftrightarrow>
     (case hg_pc s of
        Returned None \<Rightarrow> MaxAttempts c = 0 \<or> (\<exists>x st v. may x st v (Ret None))
      | Returned (Some e) \<Rightarrow>
          (e = JoinErr (hg_errs s) \<and> hg_errs s \<noteq> [] \<and> (\<forall>e' \<in> set (butlast (hg_errs s)). \<not> hedge_stops c e')
             \<and> (hedge_stops c (last (hg_errs s)) \<or> length (hg_errs s) = length (launched (hg_log s)) \<and> hg_started s = MaxAttempts c))
          \<or> (\<exists>e'. e = JoinErr (hg_errs s @ [e']) \<and> (\<forall>e' \<in> set (hg_errs s). \<not> hedge_stops c e')
             \<and> e' \<in> {Canceled, DeadlineExceeded} \<and> done_at x \<noteq> None)
      | _ \<Rightarrow> True)"

text \<open>Values, reported results and collected errors are ones an attempt may end with.\<close>

definition sources_ok ::
  "(ctx \<Rightarrow> retry_state \<Rightarrow> 't option \<Rightarrow> go_error option result \<Rightarrow> bool) \<Rightarrow> ('u, 't) hedge \<Rightarrow> bool" where
  "sources_ok may s \<longleftrightarrow>
     (\<forall>v. hg_value s = Some v \<longrightarrow> (\<exists>x st r. may x st (Some v) r))
     \<and> (\<forall>r \<in> set (hg_reporting s) \<union> set (hg_results s) \<union> Some ` set (hg_errs s). \<exists>x st v. may x st v (Ret r))"

lemmas history_defs = launches_ok_def pace_ok_def outcome_ok_def sources_ok_def

lemma launched_simps [simp]:
  "launched [] = []" "launched (es @ [Launched t a]) = launched es @ [a]"
  "launched (es @ [Received_failure t]) = launched es"
  by (simp_all add: launched_def)

lemma start_next_launches:
  assumes "launches_ok c s" "active (hg_pc s)" "counts_ok c s"
  shows "launches_ok c (hedge_start_next c s) \<and> hg_pc (hedge_start_next c s) = hg_pc s
    \<and> hg_errs (hedge_start_next c s) = hg_errs s"
proof (cases "hg_started s < MaxAttempts c")
  case lt: True
  obtain ok w where m: "hedge_may_start c s = (ok, w)" by fastforce
  note u = attempt_next [OF lt]
  have lt': "unat (hg_started s) < unat (MaxAttempts c)" using lt by (simp add: word_less_nat_alt)
  show ?thesis
  proof (cases "ok = Ret True")
    case True
    have "0 < hg_started s + 1" using u by (simp add: word_less_nat_alt)
    then show ?thesis
      using assms lt True m u
      by (auto simp: hedge_start_next_def hedge_launch_def launches_ok_def Let_def)
  next
    case False
    then have "0 < hg_started s \<and> AdaptiveBucket c \<noteq> None"
      using m by (auto simp: hedge_may_start_def retry_token_def split: if_splits option.splits)
    then show ?thesis
      using assms lt' False m lt
      by (auto simp: hedge_start_next_def launches_ok_def)
  qed
qed (use assms in \<open>simp add: hedge_start_next_def\<close>)

lemma step_launches:
  "hedge_step c x may s s' \<Longrightarrow> hedge_inv c x s \<Longrightarrow> launches_ok c s \<Longrightarrow> launches_ok c s'"
proof (induction rule: hedge_step.induct)
  case (top s)
  then have "launches_ok c (hedge_start_next c s) \<and> hg_pc (hedge_start_next c s) = Top"
    using start_next_launches [of c s] by (simp add: hedge_inv_def)
  then show ?case
    by (auto simp: hedge_top_def hedge_wait_def hedge_return_def launches_ok_def Let_def)
next
  case (result s tm t r rs)
  then show ?case
    by (auto simp: hedge_receive_def hedge_return_def launches_ok_def Let_def split: option.split)
qed (auto simp: hedge_return_def launches_ok_def Let_def)

lemma step_sources:
  "hedge_step c x may s s' \<Longrightarrow> sources_ok may s \<Longrightarrow> sources_ok may s'"
proof (induction rule: hedge_step.induct)
  case (top s)
  obtain ok w where m: "hedge_may_start c s = (ok, w)" by fastforce
  then show ?case
    using top
    by (auto simp: hedge_top_def hedge_start_next_def hedge_launch_def hedge_wait_def hedge_return_def sources_ok_def Let_def)
next
  case (result s tm t r rs)
  then show ?case
    by (auto simp: hedge_receive_def hedge_return_def sources_ok_def Let_def split: option.split)
next
  case (resolve s t before t0 a after t1 v err)
  then show ?case by (auto simp: sources_ok_def keep_first_def split: option.splits)
qed (auto simp: hedge_return_def sources_ok_def Let_def)

lemma joined_Some: "es \<noteq> [] \<Longrightarrow> joined es = Some (JoinErr es)"
  by (simp add: joined_simps)

lemma return_outcome_full:
  assumes "hedge_inv c x s" "launches_ok c s" "active (hg_pc s)" "MaxAttempts c \<le> hg_started s" "hg_inFlight s = 0"
  shows "outcome_ok c x may (hedge_return (joined (hg_errs s)) s)"
proof (cases "hg_errs s")
  case Nil
  then have "launched (hg_log s) = []" using assms by (simp add: launches_ok_def)
  then have "MaxAttempts c = 0" using assms(2,4) by (auto simp: launches_ok_def word_neq_0_conv [symmetric])
  then show ?thesis using Nil by (simp add: outcome_ok_def hedge_return_def joined_simps Let_def)
next
  case (Cons e es)
  have "hg_started s = MaxAttempts c" using assms(1,4) by (auto simp: hedge_inv_defs)
  moreover have "length (hg_errs s) = length (launched (hg_log s))" using assms by (simp add: launches_ok_def)
  moreover have "\<forall>e' \<in> set (butlast (hg_errs s)). \<not> hedge_stops c e'"
    using assms(1,3) by (auto simp: hedge_inv_def active_ok_def dest: in_set_butlastD)
  ultimately show ?thesis
    using Cons by (simp add: outcome_ok_def hedge_return_def joined_Some Let_def)
qed

lemma step_outcome:
  "hedge_step c x may s s' \<Longrightarrow> hedge_inv c x s \<Longrightarrow> launches_ok c s \<Longrightarrow> sources_ok may s \<Longrightarrow> outcome_ok c x may s
     \<Longrightarrow> outcome_ok c x may s'"
proof (induction rule: hedge_step.induct)
  case (top s)
  let ?s = "hedge_start_next c s"
  have i: "counts_ok c ?s" "active_ok c x ?s" "launches_ok c ?s" "hg_pc ?s = Top"
    using top start_next_ok [of c s x] start_next_launches [of c s] by (simp_all add: hedge_inv_def)
  then have "hedge_inv c x ?s" by (simp add: hedge_inv_def pc_ok_def)
  then show ?case
    using return_outcome_full [of c x ?s may] i by (auto simp: hedge_top_def hedge_wait_def outcome_ok_def Let_def)
next
  case (ctx_done s tm t e)
  then have "done_at x \<noteq> None" "e = Canceled \<or> e = DeadlineExceeded"
    using ctx_Err_done [of t x] ctx_Err_values [of t x e] by auto
  then show ?case
    using ctx_done by (simp add: outcome_ok_def hedge_return_def joined_Some hedge_inv_def active_ok_def Let_def)
next
  case (result s tm t r rs)
  have "\<exists>x st v. may x st v (Ret r)" using result by (auto simp: sources_ok_def)
  then show ?case
    using result
    by (auto simp: hedge_receive_def outcome_ok_def hedge_return_def joined_Some hedge_inv_def active_ok_def Let_def
        split: option.split)
qed (auto simp: outcome_ok_def split: hedge_pc.splits option.splits)

lemma start_next_pace:
  assumes "pace_ok c s" "hg_pc s = Top"
  shows "pace_ok c (hedge_wait c (hedge_start_next c s))"
proof -
  obtain ok w where m: "hedge_may_start c s = (ok, w)" by fastforce
  have q: "now (hg_world s) \<le> now w"
    using m quietD [OF quiet_tokens(1), of c "hg_world s" ok w] by (auto simp: hedge_may_start_def split: if_splits)
  let ?L = "Launched (now (clock_step w)) (hg_started s)"
  have le: "t + HedgingDelay c \<le> now (clock_step w)" if "hg_log s \<noteq> []" "last (hg_log s) = Launched t a" for t a
  proof -
    have "t + HedgingDelay c \<le> now (hg_world s)" using assms that by (simp add: pace_ok_def next_launch_after_def)
    then show ?thesis using q clock_step_simps(4) [of w] by linarith
  qed
  then have d: "hg_log s \<noteq> [] \<Longrightarrow> delayed (HedgingDelay c) (last (hg_log s)) ?L"
    by (auto simp: delayed_def split: hedge_event.split)
  have "now (clock_step w) + HedgingDelay c \<le> now (clock_step (clock_step w)) + HedgingDelay c" by simp
  then show ?thesis
    using assms m d
    by (auto simp: pace_ok_def next_launch_after_def hedge_wait_def hedge_start_next_def hedge_launch_def
        hedge_return_def successively_append_iff Let_def)
qed

lemma step_pace:
  "hedge_step c x may s s' \<Longrightarrow> pace_ok c s \<Longrightarrow> pace_ok c s'"
proof (induction rule: hedge_step.induct)
  case (top s)
  then show ?case by (simp add: hedge_top_def start_next_pace)
next
  case (result s tm t r rs)
  then show ?case
    by (auto simp: hedge_receive_def pace_ok_def hedge_return_def next_launch_after_def Let_def
        successively_append_iff delayed_def split: option.split hedge_event.split)
next
  case (timer s f t)
  then show ?case by (force simp: pace_ok_def next_launch_after_def)
next
  case (resolve s t before t0 a after t1 v err)
  then show ?case by (force simp: pace_ok_def next_launch_after_def split: hedge_pc.splits option.splits)
next
  case (report s t before' err after')
  then show ?case by (force simp: pace_ok_def next_launch_after_def split: hedge_pc.splits option.splits)
next
  case (drop s t before' err after')
  then show ?case by (force simp: pace_ok_def next_launch_after_def split: hedge_pc.splits option.splits)
qed (auto simp: hedge_return_def pace_ok_def next_launch_after_def Let_def)

definition hedge_history ::
  "('u, 't) config \<Rightarrow> ctx \<Rightarrow> (ctx \<Rightarrow> retry_state \<Rightarrow> 't option \<Rightarrow> go_error option result \<Rightarrow> bool) \<Rightarrow> ('u, 't) hedge \<Rightarrow> bool" where
  "hedge_history c x may s \<longleftrightarrow>
     hedge_inv c x s \<and> launches_ok c s \<and> sources_ok may s \<and> outcome_ok c x may s \<and> pace_ok c s"

lemma hedge_reach_history: "hedge_reach c x may w s \<Longrightarrow> hedge_history c x may s"
proof (induction rule: hedge_reach.induct)
  case init
  show ?case
    using hedge_inv_init [of c x w] by (simp add: hedge_history_def history_defs hedge_init_def launched_def Let_def)
next
  case (step s s')
  then show ?case
    unfolding hedge_history_def
    using hedge_step_inv step_launches step_sources step_outcome step_pace by metis
qed

text \<open>
  C13. Hedging is bounded and paced. In every reachable state of every schedule at most
  \<open>MaxAttempts\<close> attempts have been launched, numbered from zero in the order of their launches, and
  at most that many goroutines and undelivered results exist at the same time; and two attempts are
  launched at least the hedging delay apart, unless the failure of one was received in between.
\<close>

theorem hedging_is_bounded_and_paced:
  assumes "hedge_reach c x may w s"
  shows "length (launched (hg_log s)) \<le> unat (MaxAttempts c)
    \<and> launched (hg_log s) = map word_of_nat [0..<length (launched (hg_log s))]
    \<and> length (hg_running s) + length (hg_reporting s) + length (hg_results s) \<le> unat (MaxAttempts c)
    \<and> successively (delayed (HedgingDelay c)) (hg_log s)"
proof -
  have h: "hedge_history c x may s" using assms by (rule hedge_reach_history)
  then have "unat (hg_started s) \<le> unat (MaxAttempts c)"
    by (simp add: hedge_history_def hedge_inv_def counts_ok_def word_le_nat_alt)
  then show ?thesis
    using h by (simp add: hedge_history_def hedge_inv_def launches_ok_def counts_ok_def pace_ok_def pending_def)
qed

text \<open>
  C12. What a hedged call returns. Nil comes only from an attempt that may end with nil, or from a
  configuration without attempts. An error is either the join of all failures received so far, none
  of which but the last stops the call, where the last one does stop it or every launched attempt has
  failed and no more may be launched; or that join with the context's error at its end, when the
  context of the call is done. Every failure in it is one an attempt ended with.
\<close>

theorem hedged_result_is_explained:
  assumes "hedge_reach c x may w s" "hg_pc s = Returned r"
  shows "case r of
      None \<Rightarrow> MaxAttempts c = 0 \<or> (\<exists>x' st v. may x' st v (Ret None))
    | Some e \<Rightarrow>
        (\<forall>e' \<in> set (hg_errs s). \<exists>x' st v. may x' st v (Ret (Some e'))) \<and>
        ((e = JoinErr (hg_errs s) \<and> hg_errs s \<noteq> [] \<and> (\<forall>e' \<in> set (butlast (hg_errs s)). \<not> hedge_stops c e')
            \<and> (hedge_stops c (last (hg_errs s))
               \<or> length (hg_errs s) = length (launched (hg_log s)) \<and> hg_started s = MaxAttempts c))
         \<or> (\<exists>e'. e = JoinErr (hg_errs s @ [e']) \<and> (\<forall>e' \<in> set (hg_errs s). \<not> hedge_stops c e')
            \<and> e' \<in> {Canceled, DeadlineExceeded} \<and> done_at x \<noteq> None))"
proof (cases r)
  case None
  then show ?thesis
    using hedge_reach_history [OF assms(1)] assms(2) by (simp add: hedge_history_def outcome_ok_def)
next
  case (Some e)
  then show ?thesis
    using hedge_reach_history [OF assms(1)] assms(2) by (auto simp: hedge_history_def outcome_ok_def sources_ok_def)
qed

section \<open>The value of a hedged call\<close>

text \<open>When nil results come with values, a nil result of the call does too.\<close>

definition value_ok :: "('u, 't) config \<Rightarrow> ('u, 't) hedge \<Rightarrow> bool" where
  "value_ok c s \<longleftrightarrow>
     (None \<in> set (hg_reporting s) \<union> set (hg_results s) \<longrightarrow> hg_value s \<noteq> None) \<and>
     (hg_pc s = Returned None \<longrightarrow> MaxAttempts c = 0 \<or> hg_value s \<noteq> None)"

lemma keep_first_None [simp]: "keep_first a b = None \<longleftrightarrow> a = None \<and> b = None"
  by (auto simp: keep_first_def split: option.split)

lemma start_next_value:
  "hg_value (hedge_start_next c s) = hg_value s" "hg_reporting (hedge_start_next c s) = hg_reporting s"
  "hg_results (hedge_start_next c s) = hg_results s"
  by (auto simp: hedge_start_next_def hedge_launch_def Let_def split: prod.split)

lemma step_value:
  "hedge_step c x may s s' \<Longrightarrow> (\<And>x st v. may x st v (Ret None) \<Longrightarrow> v \<noteq> None) \<Longrightarrow> hedge_inv c x s \<Longrightarrow> launches_ok c s
     \<Longrightarrow> value_ok c s \<Longrightarrow> value_ok c s'"
proof (induction rule: hedge_step.induct)
  case (top s)
  let ?s = "hedge_start_next c s"
  have i: "counts_ok c ?s" "active_ok c x ?s" "launches_ok c ?s" "hg_pc ?s = Top"
    using top start_next_ok [of c s x] start_next_launches [of c s] by (simp_all add: hedge_inv_def)
  then have "hg_inFlight ?s = 0 \<Longrightarrow> hg_errs ?s = [] \<Longrightarrow> MaxAttempts c \<le> hg_started ?s \<Longrightarrow> MaxAttempts c = 0"
    by (auto simp: launches_ok_def word_neq_0_conv [symmetric])
  then show ?case
    using top(5) i(4)
    by (auto simp: hedge_top_def hedge_wait_def hedge_return_def value_ok_def start_next_value joined_simps Let_def)
next
  case (result s tm t r rs)
  then show ?case
    by (auto simp: hedge_receive_def hedge_return_def value_ok_def joined_Some Let_def split: option.split)
qed (auto simp: value_ok_def hedge_return_def joined_Some Let_def)

lemma hedge_reach_value:
  assumes "hedge_reach c x may w s" "\<And>x st v. may x st v (Ret None) \<Longrightarrow> v \<noteq> None"
  shows "value_ok c s"
  using assms(1)
proof (induction rule: hedge_reach.induct)
  case init
  show ?case by (simp add: value_ok_def hedge_init_def Let_def)
next
  case (step s s')
  from hedge_reach_history [OF step.hyps(1)] show ?case
    using step_value [OF step.hyps(2) assms(2)] step.IH by (simp add: hedge_history_def)
qed

text \<open>
  After a failure that does not stop the call the next attempt is launched at once, also while
  other attempts are still in flight: the hedging delay separates attempts only as long as none fails.
\<close>

theorem failure_launches_next_at_once:
  assumes "\<not> hedge_stops c e" "0 < hg_started s" "hg_started s < MaxAttempts c" "AdaptiveBucket c = None"
  shows "hg_pc (hedge_receive c (Some e) s) = Top
    \<and> length (hg_running (hedge_top c (hedge_receive c (Some e) s))) = Suc (length (hg_running s))"
  using assms
  by (auto simp: hedge_receive_def hedge_top_def hedge_start_next_def hedge_may_start_def retry_token_def
      hedge_launch_def hedge_wait_def hedge_return_def Let_def)

section \<open>A run of one attempt\<close>

text \<open>The first attempt ends before the next is due, and its result ends the call.\<close>

lemma first_launch:
  assumes "0 < MaxAttempts c"
  shows "\<exists>s f t. hedge_step c x may (hedge_init w) s \<and> hg_pc s = Selecting f \<and> hg_running s = [(t, 0)]
    \<and> t \<le> now (hg_world s) \<and> hg_reporting s = [] \<and> hg_results s = [] \<and> hg_errs s = [] \<and> hg_value s = None
    \<and> hg_cancel s = None"
proof -
  have "hedge_step c x may (hedge_init w) (hedge_top c (hedge_init w))"
    by (rule hedge_step.top) (simp add: hedge_init_def Let_def)
  then show ?thesis
    using assms clock_step_simps(4)
    by (force simp: hedge_top_def hedge_start_next_def hedge_launch_def hedge_wait_def hedge_may_start_def
        hedge_init_def Let_def)
qed

lemma one_attempt_run:
  assumes "0 < MaxAttempts c" "\<And>st. may x st v (Ret err)" "\<And>e. err = Some e \<Longrightarrow> hedge_stops c e"
  shows "\<exists>s. hedge_reach c x may w s \<and> hg_pc s = Returned (map_option (\<lambda>e. JoinErr [e]) err) \<and> hg_value s = v"
proof -
  obtain s f t where s: "hedge_step c x may (hedge_init w) s" "hg_pc s = Selecting f" "hg_running s = [(t, 0)]"
    "t \<le> now (hg_world s)" "hg_reporting s = []" "hg_results s = []" "hg_errs s = []" "hg_value s = None" "hg_cancel s = None"
    using first_launch [OF assms(1), of x may w] by auto
  have n: "now (hg_world s) \<le> now (hg_world s)" by simp
  let ?s1 = "at_time (now (hg_world s)) (s\<lparr>hg_running := [] @ [], hg_reporting := err # hg_reporting s,
       hg_value := keep_first (hg_value s) v\<rparr>)"
  have s1: "hedge_step c x may s ?s1"
    by (rule hedge_step.resolve [of s "now (hg_world s)" "[]" t 0 "[]" t])
      (use s assms(2) in \<open>simp_all add: crashed_def cancelled_at_def\<close>)
  let ?s2 = "at_time (now (hg_world ?s1)) (?s1\<lparr>hg_reporting := [] @ [], hg_results := hg_results ?s1 @ [err]\<rparr>)"
  have s2: "hedge_step c x may ?s1 ?s2"
    by (rule hedge_step.report) (use s assms(1) in \<open>simp_all add: crashed_def word_less_nat_alt\<close>)
  let ?s3 = "hedge_receive c err (at_time (now (hg_world ?s2)) (?s2\<lparr>hg_results := []\<rparr>))"
  have s3: "hedge_step c x may ?s2 ?s3" by (rule hedge_step.result [of _ f]) (use s in simp_all)
  have "hedge_reach c x may w ?s3" using s1 s2 s3 s(1) by (meson hedge_reach.intros)
  moreover have "hg_pc ?s3 = Returned (map_option (\<lambda>e. JoinErr [e]) err) \<and> hg_value ?s3 = v"
    using s assms(3) by (cases err) (simp_all add: hedge_receive_def hedge_return_def joined_simps keep_first_def Let_def)
  ultimately show ?thesis by blast
qed

text \<open>An attempt that always succeeds with 42, and one that always fails for good.\<close>

definition succeeds :: "ctx \<Rightarrow> retry_state \<Rightarrow> nat option \<Rightarrow> go_error option result \<Rightarrow> bool" where
  "succeeds x st v r \<longleftrightarrow> v = Some 42 \<and> r = Ret None"

definition fails :: "ctx \<Rightarrow> retry_state \<Rightarrow> nat option \<Rightarrow> go_error option result \<Rightarrow> bool" where
  "fails x st v r \<longleftrightarrow> v = None \<and> r = Ret (Some (FatalErr (UserError 1)))"

abbreviation "two_hedged \<equiv> (DefaultConfig 0 :: (unit, nat) config)\<lparr>MaxAttempts := 2, HedgingDelay := Second\<rparr>"

lemma two_hedged_max [simp]: "0 < MaxAttempts two_hedged"
  by simp

theorem hedged_call_terminates_witness:
  "\<exists>s. (hedge_step two_hedged Background succeeds ^^ 1) (hedge_init (calm_world ())) s
     \<and> 1 \<le> 7 * unat (MaxAttempts two_hedged) + 2
     \<and> ((\<nexists>s'. hedge_step two_hedged Background succeeds s s') \<longrightarrow>
          crashed s \<or> ((\<exists>r. hg_pc s = Returned r) \<and> hg_running s = [] \<and> hg_reporting s = []))"
proof -
  obtain s where "hedge_step two_hedged Background succeeds (hedge_init (calm_world ())) s"
    using first_launch [of two_hedged Background succeeds "calm_world ()"] by auto
  then have "(hedge_step two_hedged Background succeeds ^^ 1) (hedge_init (calm_world ())) s" by (simp add: eq_OO)
  moreover from hedged_call_terminates [OF this]
  have "1 \<le> 7 * unat (MaxAttempts two_hedged) + 2
     \<and> ((\<nexists>s'. hedge_step two_hedged Background succeeds s s') \<longrightarrow>
          crashed s \<or> ((\<exists>r. hg_pc s = Returned r) \<and> hg_running s = [] \<and> hg_reporting s = []))"
    by (simp add: succeeds_def)
  ultimately show ?thesis by blast
qed

theorem hedging_is_bounded_and_paced_witness:
  "\<exists>s. hedge_reach two_hedged Background succeeds (calm_world ()) s \<and> hg_value s = Some 42
     \<and> length (launched (hg_log s)) \<le> 2 \<and> successively (delayed Second) (hg_log s)"
proof -
  obtain s where s: "hedge_reach two_hedged Background succeeds (calm_world ()) s" "hg_value s = Some 42"
    using one_attempt_run [of two_hedged succeeds Background "Some 42" None "calm_world ()"] by (auto simp: succeeds_def)
  from hedging_is_bounded_and_paced [OF s(1)] s show ?thesis by auto
qed

theorem hedged_result_is_explained_witness:
  "\<exists>s. hedge_reach two_hedged Background fails (calm_world ()) s
     \<and> hg_pc s = Returned (Some (JoinErr [FatalErr (UserError 1)]))
     \<and> (\<forall>e' \<in> set (hg_errs s). \<exists>x' st v. fails x' st v (Ret (Some e')))"
proof -
  have "hedge_stops two_hedged (FatalErr (UserError 1))"
    using shouldRetry_stops [of "FatalErr (UserError 1)"] by (simp add: hedge_stops_def stops_def isFatal_nodes)
  then obtain s where s: "hedge_reach two_hedged Background fails (calm_world ()) s"
    "hg_pc s = Returned (Some (JoinErr [FatalErr (UserError 1)]))"
    using one_attempt_run [of two_hedged fails Background None "Some (FatalErr (UserError 1))" "calm_world ()"]
    by (auto simp: fails_def)
  from hedged_result_is_explained [OF s] s show ?thesis by auto
qed

end
