(* ===== verification/Hedged_Calls.thy ===== *)
theory Hedged_Calls
  imports Hedging
begin

text \<open>
  The hedged entry points (\<^verbatim>\<open>retry.go\<close>): the pipeline an attempt of
  \<^verbatim>\<open>executeHedged\<close> runs, the coordinator of \<open>Hedging\<close> over the attempts of that
  pipeline, and the functions and methods that call it. A hedged call may end in several ways, so each
  entry point is a relation between the world before, the result and the world after.
\<close>

section \<open>The pipeline of an attempt\<close>

text \<open>The code wraps from the inside outwards; the list is outermost first.\<close>

definition hedged_middlewares :: "('u, 't) config \<Rightarrow> middleware list" where
  "hedged_middlewares c =
     (if Chaos c \<noteq> None then [MwChaos] else []) @
     (if RecoverPanics c then [MwPanicRecovery] else []) @
     [MwInstrumenter] @
     (if CircuitBreaker c \<noteq> None then [MwCircuitBreaker] else []) @
     [MwDeadline] @
     (if Timeout c > 0 then [MwTimeout (Timeout c)] else []) @
     (if PriorityBulkhead c \<noteq> None then [MwPriorityBulkhead] else []) @
     (if Bulkhead c \<noteq> None then [MwBulkhead] else []) @
     (if RateLimiter c \<noteq> None then [MwRateLimiter] else [])"

section \<open>The attempts of a call\<close>

text \<open>The closure of the value-returning entry points: it keeps the value of a successful action.\<close>

definition once_assigning ::
  "(ctx \<Rightarrow> retry_state \<Rightarrow> ('u, 't \<times> go_error option) prog) \<Rightarrow> ('u \<times> 't option) do_action" where
  "once_assigning action x st w =
     (case lift (action x st) w of
        (Ret (v, err), w') \<Rightarrow>
          (Ret err, if err = None then w'\<lparr>user := (fst (user w'), keep_first (snd (user w')) (Some v))\<rparr> else w')
      | (Panic p, w') \<Rightarrow> (Panic p, w'))"

text \<open>What the pipeline of an attempt may end with, over all worlds it may run in.\<close>

definition hedged_attempt ::
  "('u, 'a) config \<Rightarrow> (ctx \<Rightarrow> retry_state \<Rightarrow> ('u, 't \<times> go_error option) prog)
     \<Rightarrow> ctx \<Rightarrow> retry_state \<Rightarrow> 't option \<Rightarrow> go_error option result \<Rightarrow> bool" where
  "hedged_attempt c action x st v r \<longleftrightarrow>
     (\<exists>w w'. snd (user w) = None \<and> snd (user w') = v \<and>
        compose (lift_config c :: ('u \<times> 't option, unit) config) (hedged_middlewares c)
          (terminalAction (Some (once_assigning action)) None) x st w = (r, w'))"

definition hedged_attempt_err ::
  "('u, 'a) config \<Rightarrow> 'u do_action option \<Rightarrow> (ctx \<Rightarrow> ('u, go_error option) prog) option
     \<Rightarrow> ctx \<Rightarrow> retry_state \<Rightarrow> 't option \<Rightarrow> go_error option result \<Rightarrow> bool" where
  "hedged_attempt_err c action simpleAction x st v r \<longleftrightarrow>
     v = None \<and> (\<exists>w w'. compose c (hedged_middlewares c) (terminalAction action simpleAction) x st w = (r, w'))"

text \<open>
  The execution as a relation: the world at its end, and the value kept so far with the error, or
  the panic that ended the process. Goroutines may go on after the return, so a value may still be
  kept before the caller's result is read.
\<close>

definition executeHedged ::
  "('u, 't) config \<Rightarrow> ctx \<Rightarrow> (ctx \<Rightarrow> retry_state \<Rightarrow> 't option \<Rightarrow> go_error option result \<Rightarrow> bool)
     \<Rightarrow> 'u world \<Rightarrow> ('t option \<times> go_error option) result \<Rightarrow> 'u world \<Rightarrow> bool" where
  "executeHedged c x may w out w' \<longleftrightarrow>
     (\<exists>s. hedge_reach c x may w s \<and> w' = hg_world s \<and>
        (case hg_pc s of
           Returned err \<Rightarrow> out = Ret (hg_value s, err)
         | Crashed p \<Rightarrow> out = Panic p
         | _ \<Rightarrow> False))"

lemma executeHedged_cases:
  assumes "executeHedged c x may w out w'"
  obtains (returned) s err where "hedge_reach c x may w s" "hg_pc s = Returned err" "out = Ret (hg_value s, err)"
    | (crashed) s p where "hedge_reach c x may w s" "hg_pc s = Crashed p" "out = Panic p"
proof -
  obtain s where "hedge_reach c x may w s" and
    r: "case hg_pc s of Returned err \<Rightarrow> out = Ret (hg_value s, err) | Crashed p \<Rightarrow> out = Panic p | _ \<Rightarrow> False"
    using assms by (auto simp: executeHedged_def)
  then show ?thesis using that by (cases "hg_pc s") auto
qed

section \<open>The hedged entry points\<close>

definition or_zero :: "'t \<Rightarrow> 't option \<times> go_error option \<Rightarrow> 't \<times> go_error option" where
  "or_zero zero r = (case r of (Some v, err) \<Rightarrow> (v, err) | (None, err) \<Rightarrow> (zero, err))"

definition DoStateHedged ::
  "('u, 't) config \<Rightarrow> ctx \<Rightarrow> 't \<Rightarrow> (ctx \<Rightarrow> retry_state \<Rightarrow> ('u, 't \<times> go_error option) prog)
     \<Rightarrow> 'u world \<Rightarrow> ('t \<times> go_error option) result \<Rightarrow> 'u world \<Rightarrow> bool" where
  "DoStateHedged c x zero action w out w' \<longleftrightarrow>
     (\<exists>o1 w1. executeHedged c x (hedged_attempt c action) w o1 w1 \<and>
        value_fallback c x (\<lambda>_. (map_result (or_zero zero) o1, w1)) w = (out, w'))"

definition DoHedged ::
  "('u, 't) config \<Rightarrow> ctx \<Rightarrow> 't \<Rightarrow> (ctx \<Rightarrow> ('u, 't \<times> go_error option) prog)
     \<Rightarrow> 'u world \<Rightarrow> ('t \<times> go_error option) result \<Rightarrow> 'u world \<Rightarrow> bool" where
  "DoHedged c x zero action = DoStateHedged c x zero (\<lambda>x _. action x)"

definition DoErrStateHedged ::
  "('u, 't) config \<Rightarrow> ctx \<Rightarrow> 'u do_action \<Rightarrow> 'u world \<Rightarrow> go_error option result \<Rightarrow> 'u world \<Rightarrow> bool" where
  "DoErrStateHedged c x action w out w' \<longleftrightarrow>
     (\<exists>o1 w1. executeHedged c x (hedged_attempt_err c (Some action) None) w o1 w1 \<and>
        error_fallback c x (\<lambda>_. (map_result snd o1, w1)) w = (out, w'))"

definition DoErrHedged ::
  "('u, 't) config \<Rightarrow> ctx \<Rightarrow> (ctx \<Rightarrow> ('u, go_error option) prog) \<Rightarrow> 'u world \<Rightarrow> go_error option result \<Rightarrow> 'u world \<Rightarrow> bool" where
  "DoErrHedged c x action = DoErrStateHedged c x (\<lambda>x _. action x)"

definition Config_DoHedged ::
  "('u, 't) config \<Rightarrow> ctx \<Rightarrow> 't \<Rightarrow> (ctx \<Rightarrow> ('u, 't \<times> go_error option) prog)
     \<Rightarrow> 'u world \<Rightarrow> ('t \<times> go_error option) result \<Rightarrow> 'u world \<Rightarrow> bool" where
  "Config_DoHedged c x nil action w out w' \<longleftrightarrow>
     (\<exists>o1 w1. executeHedged c x (hedged_attempt c (\<lambda>x _. action x)) w o1 w1 \<and>
        value_fallback c x (\<lambda>_. (map_result (or_zero nil) o1, w1)) w = (out, w'))"

definition Config_DoErrHedged ::
  "('u, 't) config \<Rightarrow> ctx \<Rightarrow> (ctx \<Rightarrow> ('u, go_error option) prog) \<Rightarrow> 'u world \<Rightarrow> go_error option result \<Rightarrow> 'u world \<Rightarrow> bool" where
  "Config_DoErrHedged c x action w out w' \<longleftrightarrow>
     (\<exists>o1 w1. executeHedged c x (hedged_attempt_err c None (Some action)) w o1 w1 \<and>
        error_fallback c x (\<lambda>_. (map_result snd o1, w1)) w = (out, w'))"

text \<open>
  The pipeline of an attempt has no adaptive limiter, whatever the configuration, and a recovered
  panic passes the circuit breaker and the instrumenter unseen: they are inside the recovery here,
  and outside it in the default pipeline.
\<close>

theorem hedging_ignores_adaptive_limiter: "MwAdaptiveLimiter \<notin> set (hedged_middlewares c)"
  by (auto simp: hedged_middlewares_def)

theorem hedged_recovery_is_outside_the_breaker:
  assumes "RecoverPanics c" "CircuitBreaker c = Some r" "Chaos c = None"
  shows "hd (hedged_middlewares c) = MwPanicRecovery
    \<and> (\<exists>pre post. default_middlewares c = pre @ MwCircuitBreaker # post \<and> MwPanicRecovery \<in> set post)"
proof
  show "hd (hedged_middlewares c) = MwPanicRecovery" using assms by (simp add: hedged_middlewares_def)
  have "default_middlewares c = ((if RateLimiter c \<noteq> None then [MwRateLimiter] else []) @
     (if AdaptiveLimiter c \<noteq> None then [MwAdaptiveLimiter] else []) @
     (if Bulkhead c \<noteq> None then [MwBulkhead] else []) @
     (if PriorityBulkhead c \<noteq> None then [MwPriorityBulkhead] else []) @
     [MwRetry, MwDeadline] @ (if Timeout c > 0 then [MwTimeout (Timeout c)] else []))
     @ MwCircuitBreaker # [MwInstrumenter, MwPanicRecovery]"
    using assms by (simp add: default_middlewares_def)
  moreover have "MwPanicRecovery \<in> set [MwInstrumenter, MwPanicRecovery]" by simp
  ultimately show "\<exists>pre post. default_middlewares c = pre @ MwCircuitBreaker # post \<and> MwPanicRecovery \<in> set post" by blast
qed

section \<open>The value of a hedged call\<close>

lemma hedged_no_fallback: "MwFallback \<notin> set (hedged_middlewares c)"
  by (auto simp: hedged_middlewares_def)

lemma lift_hooks_relate: "hooks_relate (user_rel (\<lambda>u. P (snd u))) (lift_config c)"
  by (cases "Backoff c"; cases "Fallback c")
    (auto simp: hooks_relate_def lift_config_def keeps_def lift_instrumenter_def dest: lift_snd split: option.split)

text \<open>What a kept value is: one a run of the action returned.\<close>

definition produced :: "(ctx \<Rightarrow> retry_state \<Rightarrow> ('u, 't \<times> go_error option) prog) \<Rightarrow> 't \<Rightarrow> bool" where
  "produced action v \<longleftrightarrow> (\<exists>x st w1 w2. action x st w1 = (Ret (v, None), w2))"

lemma once_assigning_keeps:
  "action_relate (user_rel (\<lambda>u. case snd u of None \<Rightarrow> True | Some v \<Rightarrow> produced action v)) (once_assigning action)"
  by (fastforce simp: action_relate_def keeps_def once_assigning_def lift_def with_user_def produced_def keep_first_def
      split: prod.splits result.splits if_splits option.splits)

lemma keep_first_Some [simp]: "\<exists>y. keep_first a (Some b) = Some y"
  by (simp add: keep_first_def split: option.split)

lemma once_assigning_nil: "yields (\<lambda>_. True) (\<lambda>u. snd u \<noteq> None) (once_assigning action)"
  by (auto simp: yields_def nil_only_def once_assigning_def split: prod.splits result.splits if_splits)

lemma terminal_action [simp]: "terminalAction (Some act) None = act"
  by (simp add: terminalAction_def fun_eq_iff)

lemma hedged_attempt_value:
  assumes "hedged_attempt c action x st v r"
  shows "(\<forall>a. v = Some a \<longrightarrow> produced action a) \<and> (r = Ret None \<and> 0 < MaxAttempts c \<longrightarrow> v \<noteq> None)"
proof -
  let ?c = "lift_config c :: ('a \<times> 'c option, unit) config"
  obtain w w' where m: "snd (user w) = None" "snd (user w') = v"
    "compose ?c (hedged_middlewares c) (once_assigning action) x st w = (r, w')"
    using assms by (auto simp: hedged_attempt_def)
  let ?Q = "\<lambda>v. case v of None \<Rightarrow> True | Some v \<Rightarrow> produced action v"
  have "action_relate (user_rel (\<lambda>u. ?Q (snd u))) (compose ?c (hedged_middlewares c) (once_assigning action))"
    by (intro user_property.relates_compose once_assigning_keeps lift_hooks_relate)
  then have "relates (user_rel (\<lambda>u. ?Q (snd u))) (compose ?c (hedged_middlewares c) (once_assigning action) x st)"
    by (simp add: action_relate_def)
  from relatesD [OF this m(3)] have "?Q v" using m(1,2) by (simp add: user_rel_def)
  moreover have "v \<noteq> None" if "r = Ret None" "0 < MaxAttempts c"
  proof -
    have "yields (\<lambda>_. True) (\<lambda>u. snd u \<noteq> None) (compose ?c (hedged_middlewares c) (once_assigning action))"
      using that by (intro yields_compose once_assigning_nil hedged_no_fallback lift_hooks_keep action_relate_True hooks_relate_True) simp
    then show ?thesis using m that by (auto simp: yields_def dest!: nil_onlyD)
  qed
  ultimately show ?thesis by auto
qed

lemma hedged_value_produced:
  assumes "DoStateHedged c x zero action w (Ret (v, None)) w'" "0 < MaxAttempts c" "Fallback c = NoFallback"
  shows "produced action v"
proof -
  obtain o1 w1 where e: "executeHedged c x (hedged_attempt c action) w o1 w1"
    "value_fallback c x (\<lambda>_. (map_result (or_zero zero) o1, w1)) w = (Ret (v, None), w')"
    using assms(1) by (auto simp: DoStateHedged_def)
  from e(2) obtain p where o1: "o1 = Ret p" "or_zero zero p = (v, None)"
    by (cases o1) (auto simp: assms(3) value_fallback_def bind_def split: option.splits prod.splits)
  obtain s where s: "hedge_reach c x (hedged_attempt c action) w s" "hg_pc s = Returned None" "p = (hg_value s, None)"
    using executeHedged_cases [OF e(1)] o1 by (auto simp: or_zero_def split: prod.splits option.splits)
  have "value_ok c s" by (rule hedge_reach_value [OF s(1)]) (use hedged_attempt_value assms(2) in blast)
  then obtain a where a: "hg_value s = Some a" using s(2) assms(2) by (auto simp: value_ok_def)
  then have "v = a" using o1 s(3) by (simp add: or_zero_def)
  moreover have "produced action a"
    using hedge_reach_history [OF s(1)] a hedged_attempt_value by (fastforce simp: hedge_history_def sources_ok_def)
  ultimately show ?thesis by simp
qed

text \<open>
  C10. A successful hedged call returns a value its action produced: if \<open>DoStateHedged\<close> returns
  a nil error, then its value was returned with a nil error by a run of the action in one of the
  attempts, in every schedule of the attempts, however they race for the result, and whatever
  bulkheads, timeout, circuit breaker, instrumentation, panic recovery and fault injection are
  configured. It is never the zero value of the variable or the value of a failed attempt.
\<close>

theorem hedged_value_comes_from_action:
  assumes "DoStateHedged c x zero action w (Ret (v, None)) w'" "0 < MaxAttempts c" "Fallback c = NoFallback"
  shows "\<exists>x' st w1 w2. action x' st w1 = (Ret (v, None), w2)"
  using hedged_value_produced [OF assms] by (simp add: produced_def)

theorem hedged_value_comes_from_action_witness:
  "\<exists>w'. DoStateHedged two_hedged Background 0 (\<lambda>x st. ret (42, None)) (calm_world ()) (Ret (42, None)) w'
     \<and> (\<exists>x' st w1 w2. (\<lambda>x st. ret (42 :: nat, None)) x' st (w1 :: unit world) = (Ret (42, None :: go_error option), w2))"
proof -
  let ?act = "(\<lambda>x st. ret (42, None)) :: ctx \<Rightarrow> retry_state \<Rightarrow> (unit, nat \<times> go_error option) prog"
  have mws: "hedged_middlewares two_hedged = [MwInstrumenter, MwDeadline]"
    by (simp add: hedged_middlewares_def DefaultConfig_def)
  have "hedged_attempt two_hedged ?act Background st (Some 42) (Ret None)" for st
    unfolding hedged_attempt_def mws
    by (rule exI [of _ "calm_world ((), None)"])
      (simp add: instrumenterMiddleware_def deadlineMiddleware_def lift_config_def DefaultConfig_def Background_def
        once_assigning_def lift_def with_user_def keep_first_def)
  then obtain s where s: "hedge_reach two_hedged Background (hedged_attempt two_hedged ?act) (calm_world ()) s"
    "hg_pc s = Returned None" "hg_value s = Some 42"
    using one_attempt_run [of two_hedged "hedged_attempt two_hedged ?act" Background "Some 42" None "calm_world ()"] by auto
  then have "executeHedged two_hedged Background (hedged_attempt two_hedged ?act) (calm_world ()) (Ret (Some 42, None)) (hg_world s)"
    by (auto simp: executeHedged_def)
  then have d: "DoStateHedged two_hedged Background 0 ?act (calm_world ()) (Ret (42, None)) (hg_world s)"
    by (force simp: DoStateHedged_def value_fallback_def bind_def or_zero_def)
  have "\<exists>x' st w1 w2. ?act x' st w1 = (Ret (42, None), w2)"
    by (rule hedged_value_comes_from_action [OF d]) (simp_all add: DefaultConfig_def)
  with d show ?thesis by blast
qed

end
