(* ===== verification/Slot_Balance.thy ===== *)
theory Slot_Balance
  imports Pipeline_Facts
begin

text \<open>
  No call leaks a slot. The occupied slots of all bulkheads and limiters are a relation of
  \<open>Pipeline_Relation\<close>, when nobody else uses them: every bracket gives back what it took, on every
  path, so every middleware, every pipeline and every call does.
\<close>

definition slots :: "shared \<Rightarrow> (nat \<Rightarrow> nat) \<times> (nat \<Rightarrow> nat) \<times> (nat \<Rightarrow> i32)" where
  "slots h = (\<lambda>r. sem_len (bh_semaphore (h_bulkheads h r)), \<lambda>r. sem_len (pb_semaphore (h_priority h r)),
     \<lambda>r. currentConcurrency (h_adaptive h r))"

text \<open>No interference: the other goroutines leave the shared components alone.\<close>

definition alone :: "environment \<Rightarrow> bool" where
  "alone o' \<longleftrightarrow> (\<forall>n h. or_env o' n h = h)"

definition same_slots :: "'u world \<Rightarrow> 'u world \<Rightarrow> bool" where
  "same_slots w w' \<longleftrightarrow> (alone (orc w) \<longrightarrow> orc w' = orc w \<and> slots (heap w') = slots (heap w))"

lemma same_slots_refl: "same_slots w w"
  by (simp add: same_slots_def)

lemma same_slots_trans: "same_slots w w1 \<Longrightarrow> same_slots w1 w2 \<Longrightarrow> same_slots w w2"
  by (simp add: same_slots_def)

lemma heap_interfere [simp]: "alone (orc w) \<Longrightarrow> heap (interfere w) = heap w"
  by (simp add: interfere_def alone_def)

section \<open>The accesses\<close>

text \<open>An access to one component through its reference, in one instant or over several.\<close>

lemma slots_frames [simp]:
  "slots (h\<lparr>h_buckets := b\<rparr>) = slots h" "slots (h\<lparr>h_limiters := l\<rparr>) = slots h"
  "slots (h\<lparr>h_breakers := k\<rparr>) = slots h"
  by (simp_all add: slots_def)

lemma relates_atomic:
  assumes "\<And>t h. slots (snd (f t h)) = slots h"
  shows "relates same_slots (atomic f)"
  using assms by (auto simp: relates_def same_slots_def atomic_def Let_def split: prod.splits) (metis snd_conv)

lemma slots_clock: "relates same_slots time_Now" "relates same_slots (wait_timer x t)" "relates same_slots flip_coin"
  by (auto simp: relates_def same_slots_def time_Now_def wait_timer_def flip_coin_def Let_def split: option.splits if_splits)

lemma slots_random: "relates same_slots rng_Float64" "relates same_slots (jitter_next r a)"
  by (auto simp: relates_def same_slots_def rng_Float64_def jitter_next_def Let_def split: sum.splits)

lemma slots_tokens:
  "relates same_slots (bucket_acquire r)" "relates same_slots (bucket_success r)" "relates same_slots (limiter_acquire r)"
  unfolding bucket_acquire_def bucket_success_def limiter_acquire_def
  by (rule relates_atomic; simp add: split_beta Let_def)+

lemma slots_breaker: "relates same_slots (breaker_admit r)" "relates same_slots (breaker_complete r s err)"
  by (auto simp: relates_def same_slots_def breaker_admit_def breaker_complete_def Let_def split: prod.splits)

lemma slots_adaptive:
  "slots (h\<lparr>h_adaptive := (h_adaptive h)(r := al)\<rparr>) = slots h \<longleftrightarrow> currentConcurrency al = currentConcurrency (h_adaptive h r)"
  by (auto simp: slots_def fun_eq_iff)

lemma update_currentConcurrency: "currentConcurrency (al_update oor rtt t ev al) = currentConcurrency al"
  by simp

lemma slots_update: "relates same_slots (adaptive_update r rtt)"
  by (auto simp: relates_def same_slots_def adaptive_update_def slots_adaptive Let_def)

section \<open>The brackets\<close>

lemma same_slots_bind:
  "relates same_slots m \<Longrightarrow> (\<And>a. relates same_slots (f a)) \<Longrightarrow> relates same_slots (bind m f)"
  by (rule relates_bind_trans) (auto intro: same_slots_trans)

text \<open>
  A bracket: the entry changes the slots by \<open>up\<close>, unless it refuses, the exit by \<open>down\<close>, which
  undoes it, and what runs inside keeps them.
\<close>

lemma relates_bracket:
  assumes "\<And>w w' err. alone (orc w) \<Longrightarrow> enter w = (Ret err, w') \<Longrightarrow>
      orc w' = orc w \<and> slots (heap w') = (if err = None then up (slots (heap w)) else slots (heap w))"
    and "\<And>w p w'. enter w \<noteq> (Panic p, w')"
    and "\<And>w. alone (orc w) \<Longrightarrow> orc (leave w) = orc w \<and> slots (heap (leave w)) = down (slots (heap w))"
    and "\<And>s. down (up s) = s" "relates same_slots act"
  shows "relates same_slots (bind enter (\<lambda>refused. if refused \<noteq> None then ret refused else deferred leave act))"
proof (rule relatesI)
  fix w r w'
  assume m: "bind enter (\<lambda>refused. if refused \<noteq> None then ret refused else deferred leave act) w = (r, w')"
  show "same_slots w w'"
    unfolding same_slots_def
  proof (intro impI)
    assume a: "alone (orc w)"
    from m show "orc w' = orc w \<and> slots (heap w') = slots (heap w)"
    proof (cases rule: bind_cases)
      case (Ret refused w1)
      note e = assms(1) [OF a Ret(1)]
      show ?thesis
      proof (cases refused)
        case (Some e')
        then show ?thesis using Ret(2) e by simp
      next
        case None
        then obtain r2 w2 where i: "act w1 = (r2, w2)" "w' = leave w2"
          using Ret(2) by (auto simp: deferred_def split: prod.splits)
        have k: "orc w2 = orc w" "slots (heap w2) = up (slots (heap w))"
          using relatesD [OF assms(5) i(1)] e a None by (simp_all add: same_slots_def)
        then show ?thesis using assms(3) [of w2] a i(2) assms(4) by simp
      qed
    next
      case (Panic p)
      then show ?thesis using assms(2) by blast
    qed
  qed
qed

lemma slots_bulkhead:
  assumes "relates same_slots act"
  shows "relates same_slots (Bulkhead_Execute r x act)"
  unfolding Bulkhead_Execute_def
proof (rule relates_bracket [where up = "\<lambda>(b, p, a). (b(r := Suc (b r)), p, a)" and down = "\<lambda>(b, p, a). (b(r := b r - 1), p, a)"])
  fix w w' :: "'a world" and err
  assume "alone (orc w)" "bulkhead_enter r x w = (Ret err, w')"
  then show "orc w' = orc w \<and> slots (heap w') = (if err = None then (case slots (heap w) of (b, p, a) \<Rightarrow> (b(r := Suc (b r)), p, a)) else slots (heap w))"
    by (cases err)
      (auto simp: bulkhead_enter_def bind_def flip_coin_def atomic_def Bulkhead_enter_def slots_def Let_def fun_eq_iff alone_def interfere_def
        clock_step_def dest: slot_select_cases split: prod.splits)
qed (auto simp: bulkhead_enter_def bind_def flip_coin_def atomic_def bulkhead_leave_def Bulkhead_leave_def slots_def Let_def fun_eq_iff
    assms split: prod.splits)

lemma slots_priority:
  assumes "relates same_slots act"
  shows "relates same_slots (PriorityBulkhead_Execute r x act)"
proof -
  have "relates same_slots (bind (priority_select r x) (\<lambda>refused. if refused \<noteq> None then ret refused else deferred (priority_leave r) act))"
  proof (rule relates_bracket [where up = "\<lambda>(b, p, a). (b, p(r := Suc (p r)), a)" and down = "\<lambda>(b, p, a). (b, p(r := p r - 1), a)"])
    fix w w' :: "'a world" and err
    assume "alone (orc w)" "priority_select r x w = (Ret err, w')"
    then show "orc w' = orc w \<and> slots (heap w') = (if err = None then (case slots (heap w) of (b, p, a) \<Rightarrow> (b, p(r := Suc (p r)), a)) else slots (heap w))"
      by (cases err)
        (auto simp: priority_select_def bind_def flip_coin_def atomic_def slots_def Let_def fun_eq_iff alone_def interfere_def
          clock_step_def dest: pb_select_cases split: prod.splits)
  qed (auto simp: priority_select_def bind_def flip_coin_def atomic_def priority_leave_def PriorityBulkhead_leave_def slots_def Let_def fun_eq_iff
      assms split: prod.splits)
  moreover have "relates same_slots (priority_check r x)" unfolding priority_check_def by (rule relates_atomic) simp
  moreover have "relates same_slots (ret e)" for e :: "go_error option" by (simp add: relates_def same_slots_refl)
  ultimately show ?thesis unfolding PriorityBulkhead_Execute_def by (intro same_slots_bind) auto
qed

lemma slots_limiter:
  assumes "relates same_slots act"
  shows "relates same_slots (AdaptiveLimiter_Execute r act)"
proof (rule relatesI)
  fix w res w'
  let ?body = "\<lambda>current. bind (atomic (\<lambda>t h. (al_admits current (h_adaptive h r), h))) (\<lambda>admitted.
         if \<not> admitted then ret (Some ErrShedLoad)
         else bind time_Now (\<lambda>start. bind act (\<lambda>err. bind time_Now (\<lambda>t.
              bind (adaptive_update r (time_Sub t start)) (\<lambda>_. ret err)))))"
  have "relates same_slots (ret e)" for e :: "go_error option" by (simp add: relates_def same_slots_refl)
  then have body: "relates same_slots (?body n)" for n
    by (intro same_slots_bind relates_if relates_atomic slots_clock slots_update assms) auto
  assume m: "AdaptiveLimiter_Execute r act w = (res, w')"
  show "same_slots w w'"
    unfolding same_slots_def
  proof (intro impI)
    assume a: "alone (orc w)"
    let ?w1 = "(clock_step (interfere w))\<lparr>heap := (heap w)\<lparr>h_adaptive := (h_adaptive (heap w))
      (r := snd (al_add (h_adaptive (heap w) r)))\<rparr>\<rparr>"
    obtain n where "deferred (adaptive_exit r) (?body n) ?w1 = (res, w')"
      using m a bind_Ret [of "atomic (\<lambda>t h. (let (n, al) = al_add (h_adaptive h r) in (n, h\<lparr>h_adaptive := (h_adaptive h)(r := al)\<rparr>)))"
          w "fst (al_add (h_adaptive (heap w) r))" ?w1 "\<lambda>n. deferred (adaptive_exit r) (?body n)"]
      by (simp add: AdaptiveLimiter_Execute_def atomic_def split_beta Let_def)
    then obtain r2 w2 where i: "?body n ?w1 = (r2, w2)" "w' = adaptive_exit r w2"
      by (auto simp: deferred_def split: prod.splits)
    have "orc w2 = orc w" "slots (heap w2) = slots (heap ?w1)"
      using relatesD [OF body i(1)] a by (simp_all add: same_slots_def)
    then show "orc w' = orc w \<and> slots (heap w') = slots (heap w)"
      using a i(2) by (auto simp: adaptive_exit_def slots_def al_add_def al_exit_def fun_eq_iff Let_def)
  qed
qed

interpretation slot_balance: pipeline_relation same_slots
  by unfold_locales (simp_all add: same_slots_refl slots_clock slots_random slots_tokens slots_breaker
      slots_bulkhead slots_priority slots_limiter, simp add: same_slots_def)

text \<open>
  C5. No call leaks a slot. Whatever pipeline a configuration has, with any bulkheads, priority
  bulkheads and adaptive limiters in any positions, inside or outside the retry loop, the calls inside
  each of them are the same in number before and after an execution: when it succeeds, fails, is
  refused, times out or is cancelled, and when the action, a hook or the backoff panics.
\<close>

theorem no_slot_leaks:
  assumes "execute c x action simpleAction w = (r, w')" "alone (orc w)" "hooks_relate same_slots c"
    "\<And>f. action = Some f \<Longrightarrow> action_relate same_slots f" "\<And>f x. simpleAction = Some f \<Longrightarrow> relates same_slots (f x)"
  shows "slots (heap w') = slots (heap w)"
proof -
  have "relates same_slots (execute c x action simpleAction)"
    using assms(3-5) by (intro slot_balance.relates_execute)
  from relatesD [OF this assms(1)] show ?thesis using assms(2) by (simp add: same_slots_def)
qed

text \<open>A bulkhead around a retried action that panics.\<close>

theorem no_slot_leaks_witness:
  "slots (heap (snd (execute ((DefaultConfig 0 :: (unit, unit) config)\<lparr>Bulkhead := Some 0, AdaptiveLimiter := Some 0\<rparr>)
      Background None (Some (\<lambda>x w. (Panic (PanicValue 7), w))) (calm_world ())))) = slots empty_heap"
proof -
  let ?c = "(DefaultConfig 0 :: (unit, unit) config)\<lparr>Bulkhead := Some 0, AdaptiveLimiter := Some 0\<rparr>"
  let ?act = "(\<lambda>x w. (Panic (PanicValue 7), w)) :: ctx \<Rightarrow> (unit, go_error option) prog"
  obtain r w' where e: "execute ?c Background None (Some ?act) (calm_world ()) = (r, w')" by fastforce
  have "slots (heap w') = slots (heap (calm_world ()))"
    by (rule no_slot_leaks [OF e])
      (auto simp: alone_def calm_def hooks_relate_def DefaultConfig_def relates_def same_slots_refl)
  then show ?thesis using e by simp
qed

end
