(* ===== verification/Protection.thy ===== *)
theory Protection
  imports Slot_Balance
begin

text \<open>
  A call with panic recovery returns. That a program returns (\<open>Returns\<close>) passes through the retry
  loop, so this is the termination of a whole call as well, and through every middleware; panic recovery
  makes any program return, and the code of the caller below it need not. At the end, what a policy
  does with its value fallback.
\<close>

section \<open>Middlewares\<close>

definition action_returns :: "('u, 't) config \<Rightarrow> 'u world \<Rightarrow> 'u do_action \<Rightarrow> bool" where
  "action_returns c w0 act \<longleftrightarrow> (\<forall>x st. returns c w0 (act x st))"

lemma leave_intact [simp]:
  "intact c w0 w \<Longrightarrow> intact c w0 (bulkhead_leave r w)" "intact c w0 w \<Longrightarrow> intact c w0 (priority_leave r w)"
  "intact c w0 w \<Longrightarrow> intact c w0 (adaptive_exit r w)"
  by (simp_all add: bulkhead_leave_def priority_leave_def adaptive_exit_def Let_def)

lemma returns_executes [return_rules]:
  assumes "returns c w0 act"
  shows "returns c w0 (Bulkhead_Execute r x act)" "returns c w0 (PriorityBulkhead_Execute r x act)"
    "returns c w0 (AdaptiveLimiter_Execute r act)" "returns c w0 (Breaker_Execute r x act)" "returns c w0 (Chaos_Execute i x act)"
proof -
  note k = return_rules assms leave_intact
  show "returns c w0 (Bulkhead_Execute r x act)" unfolding Bulkhead_Execute_def by (intro k)
  show "returns c w0 (PriorityBulkhead_Execute r x act)" unfolding PriorityBulkhead_Execute_def by (intro k)
  show "returns c w0 (AdaptiveLimiter_Execute r act)"
    unfolding AdaptiveLimiter_Execute_def by (intro k returns_atomic; simp add: Let_def split_beta)
  have "returns c w0 (case a of Rejected \<Rightarrow> ret (Some ErrCircuitOpen)
        | Admitted s \<Rightarrow> bind act (\<lambda>err. bind (breaker_complete r s err) (\<lambda>_. ret err)))" for a
    by (cases a) (auto intro!: k)
  then show "returns c w0 (Breaker_Execute r x act)" unfolding Breaker_Execute_def ctx_poll_def by (intro k)
  show "returns c w0 (Chaos_Execute i x act)"
    by (cases i) (auto simp: Chaos_Execute_def inject_latency_def inject_error_def intro!: k split: option.split)
qed

text \<open>The caller's hooks return.\<close>

definition hooks_return :: "('u, 't) config \<Rightarrow> 'u world \<Rightarrow> bool" where
  "hooks_return c w0 \<longleftrightarrow>
     (case Instrumenter c of None \<Rightarrow> True
      | Some i \<Rightarrow> \<forall>x s. returns c w0 (BeforeAttempt i x s) \<and> returns c w0 (AfterAttempt i x s)
                     \<and> returns c w0 (OnBulkheadFull i x s) \<and> returns c w0 (OnRateLimitExceeded i x s))"

lemma returns_hook:
  assumes "hooks_return c w0"
  shows "returns c w0 (instrument c (\<lambda>i. OnBulkheadFull i x st))" "returns c w0 (instrument c (\<lambda>i. OnRateLimitExceeded i x st))"
  using assms by (auto simp: hooks_return_def instrument_def returns_ret split: option.splits)

lemma returns_after_failure:
  assumes "backoff_returns c w0" "attempt < MaxAttempts c" "returns c w0 continue"
  shows "returns c w0 (after_failure c x attempt errs e continue)"
  unfolding returns_def
proof (intro allI impI)
  fix w
  assume "intact c w0 w"
  have slept: "returns c w0 (bind (sleep x d) (\<lambda>serr. case serr of Some e' \<Rightarrow> ret (joined (errs @ [e, e'])) | None \<Rightarrow> continue))" for d
    using assms(3) by (auto intro!: returns_bind returns_tokens returns_ret split: option.split)
  have "returns c w0 (case errors_As as_retry_after e of Some (d, True) \<Rightarrow> ret (joined (errs @ [e]))
       | ra \<Rightarrow> bind (case ra of Some (d, _) \<Rightarrow> RetryAfter d | None \<Rightarrow> ret delay) (\<lambda>delay. bind (sleep x delay) (\<lambda>serr.
             case serr of Some e' \<Rightarrow> ret (joined (errs @ [e, e'])) | None \<Rightarrow> continue)))" for delay
    using slept by (auto simp: returns_ret intro: returns_bind [OF returns_tokens(4)] split: option.split bool.split)
  then have "returns c w0 (delay_and_retry c x attempt errs e continue)"
    unfolding delay_and_retry_def by (intro returns_bind returns_backoff assms(1,2))
  then have "returns c w0 (after_failure c x attempt errs e continue)"
    unfolding after_failure_def by (intro return_rules returns_tokens)
  from returnsD [OF this \<open>intact c w0 w\<close>]
  show "\<exists>a w'. after_failure c x attempt errs e continue w = (Ret a, w') \<and> intact c w0 w'" .
qed

lemma returns_retry_loop:
  assumes "action_returns c w0 next" "backoff_returns c w0"
  shows "returns c w0 (retry_loop c next x start st attempt errs)"
proof (induction "unat (MaxAttempts c) - unat attempt" arbitrary: attempt errs st)
  case 0
  then have "\<not> attempt < MaxAttempts c" by (simp add: word_less_nat_alt)
  then show ?case by (simp add: returns_def retry_loop.simps)
next
  case (Suc n)
  then have lt: "attempt < MaxAttempts c" by (simp add: word_less_nat_alt)
  have "n = unat (MaxAttempts c) - unat (attempt + 1)" using Suc.hyps(2) attempt_next [OF lt] by simp
  note more = Suc.hyps(1) [OF this]
  let ?rest = "\<lambda>err. case err of None \<Rightarrow> bind (success_token c) (\<lambda>_. ret None)
       | Some e \<Rightarrow> after_failure c x attempt errs e
           (retry_loop c next x start (attempt_state st attempt errs) (attempt + 1) (errs @ [e]))"
  have "returns c w0 (?rest err)" for err
    by (auto intro!: return_rules returns_tokens returns_after_failure assms(2) lt more split: option.split)
  then have "returns c w0 (bind time_Now (\<lambda>t.
     bind (next x ((attempt_state st attempt errs)\<lparr>TotalDuration := time_Sub t start\<rparr>)) ?rest))"
    using assms(1) by (intro return_rules) (simp_all add: action_returns_def)
  then show ?case by (simp add: returns_def retry_loop_step [OF lt])
qed

text \<open>The simple middlewares and the retry loop pass a return on.\<close>

lemma returns_mw:
  assumes "action_returns c w0 next" "hooks_return c w0" "backoff_returns c w0" "m \<noteq> MwFallback"
  shows "action_returns c w0 (apply_mw c m next)"
proof -
  have n: "returns c w0 (next x st)" for x st using assms(1) by (simp add: action_returns_def)
  have full: "returns c w0 (case err of Some e \<Rightarrow> if P e then instrument c (\<lambda>i. OnBulkheadFull i x st) else ret () | None \<Rightarrow> ret ())"
    for P err x st
    using returns_hook(1) [OF assms(2)] by (auto simp: returns_ret split: option.split)
  have hooks: "returns c w0 (BeforeAttempt i x s)" "returns c w0 (AfterAttempt i x s)" if "Instrumenter c = Some i" for i x s
    using assms(2) that by (simp_all add: hooks_return_def)
  note k = return_rules n full returns_hook [OF assms(2)]
  show ?thesis
  proof (cases m)
    case MwRetry
    have "returns c w0 (bind time_Now (\<lambda>start. retry_loop c next x start st 0 []))" for x st
      by (intro return_rules returns_retry_loop assms(1,3))
    then show ?thesis using MwRetry by (simp add: action_returns_def retryMiddleware_def returns_def)
  next
    case MwPanicRecovery
    have "panicRecoveryMiddleware next x st w = next x st w" if "intact c w0 w" for x st w
      using returnsD [OF n that, of x st] by (auto simp: panicRecoveryMiddleware_def)
    then show ?thesis using n MwPanicRecovery by (simp add: action_returns_def returns_def)
  qed (use assms(4) in \<open>auto simp: action_returns_def rateLimiterMiddleware_def adaptiveLimiterMiddleware_def
      bulkheadMiddleware_def priorityBulkheadMiddleware_def deadlineMiddleware_def timeoutMiddleware_def
      instrumenterMiddleware_def circuitBreakerMiddleware_def chaosMiddleware_def Let_def
      intro!: k hooks split: option.split\<close>)
qed

lemma returns_compose:
  "action_returns c w0 t \<Longrightarrow> hooks_return c w0 \<Longrightarrow> backoff_returns c w0 \<Longrightarrow> MwFallback \<notin> set ms \<Longrightarrow>
     action_returns c w0 (compose c ms t)"
  by (induction ms) (auto intro: returns_mw)

text \<open>Panic recovery turns everything into a return.\<close>

lemma recovery_returns: "action_relate (backoff_kept c) act \<Longrightarrow> action_returns c w0 (panicRecoveryMiddleware act)"
  unfolding action_relate_def action_returns_def returns_def panicRecoveryMiddleware_def
  by (auto intro: intact_relates split: prod.splits result.splits)

lemma kept_bind:
  "relates (backoff_kept c) m \<Longrightarrow> (\<And>a. relates (backoff_kept c) (f a)) \<Longrightarrow> relates (backoff_kept c) (bind m f)"
  by (rule relates_bind_trans) (auto simp: backoff_kept_def intact_def)

lemma kept_deferred:
  "relates (backoff_kept c) m \<Longrightarrow> (\<And>w0 w. intact c w0 w \<Longrightarrow> intact c w0 (cl w)) \<Longrightarrow> relates (backoff_kept c) (deferred cl m)"
  by (auto simp: relates_def backoff_kept_def deferred_def split: prod.splits)

lemma kept_returns:
  fixes c :: "('u, 't) config" and m :: "('u, 'a) prog"
  assumes "\<And>w0. returns c w0 m"
  shows "relates (backoff_kept c) m"
proof (rule relatesI)
  fix w :: "'u world" and r w'
  assume "m w = (r, w')"
  then show "backoff_kept c w w'" using returnsD [OF assms intact_refl, of w] by (auto simp: backoff_kept_def)
qed

lemma kept_jitter:
  fixes c :: "('u, 't) config"
  shows "relates (backoff_kept c) (jitter_next r a)"
proof (rule relatesI)
  fix w :: "'u world" and res w'
  assume "jitter_next r a w = (res, w')"
  moreover have "intact c w ((interfere w)\<lparr>tick := n\<rparr>)" if "jitter_fixed c (orc w)" for n
    using intact_refl [OF that] by simp
  ultimately show "backoff_kept c w w'" by (auto simp: backoff_kept_def jitter_next_def Let_def split: sum.splits)
qed

interpretation backoff_kept: pipeline_relation "backoff_kept c :: 'u world \<Rightarrow> 'u world \<Rightarrow> bool" for c :: "('u, 't) config"
proof
  fix act :: "('u, go_error option) prog" and r x
  assume a: "relates (backoff_kept c) act"
  note k = kept_bind kept_deferred relates_if leave_intact a
  show "relates (backoff_kept c) (Bulkhead_Execute r x act)"
    unfolding Bulkhead_Execute_def by (intro k; (assumption | intro kept_returns return_rules))
  show "relates (backoff_kept c) (PriorityBulkhead_Execute r x act)"
    unfolding PriorityBulkhead_Execute_def by (intro k; (assumption | intro kept_returns return_rules))
  show "relates (backoff_kept c) (AdaptiveLimiter_Execute r act)"
    unfolding AdaptiveLimiter_Execute_def
    by (intro k; (assumption | intro kept_returns return_rules returns_atomic; simp add: Let_def split_beta))
qed (auto simp: backoff_kept_def intact_def intro: kept_returns kept_jitter return_rules)

section \<open>A protected call\<close>

text \<open>
  C4. With panic recovery a call returns. For a configuration made by options, whatever rate
  limiter, bulkheads, limiter, retries, timeout, circuit breaker, hooks and fault injection it has, an
  execution ends after finitely many steps with an error or nil, under all timings, interferences and
  random choices, also when the action panics in any or all of its attempts: no panic of the action
  passes the recovery. What runs outside it must not panic itself: the hooks, and the backoff, which is the
  full jitter with any parameters for which it does not panic, the default ones among them
  (\<open>safe_jitter\<close>), or an implementation of the caller that returns. Nobody but
  \<^verbatim>\<open>NewFullJitter\<close> writes the parameters of the jitter.
\<close>

theorem protected_call_returns:
  assumes "RecoverPanics c" "fresh c" "hooks_return c w" "backoff_returns c w" "hooks_relate (backoff_kept c) c"
    "\<And>f. action = Some f \<Longrightarrow> action_relate (backoff_kept c) f"
    "\<And>f x. simpleAction = Some f \<Longrightarrow> relates (backoff_kept c) (f x)"
  shows "\<exists>err w'. execute c x action simpleAction w = (Ret err, w')"
proof -
  let ?t = "terminalAction action simpleAction"
  let ?chaos = "if Chaos c \<noteq> None then [MwChaos] else []"
  obtain pre where pre: "default_middlewares c = pre @ MwPanicRecovery # ?chaos" "MwFallback \<notin> set pre"
    using assms(1) default_no_fallback [of c] by (auto simp: default_middlewares_def)
  have "action_relate (backoff_kept c) ?t"
    using assms(6,7) backoff_kept.relates_ret by (auto simp: action_relate_def terminalAction_def split: option.split)
  then have "action_relate (backoff_kept c) (compose c ?chaos ?t)"
    using assms(5) by (rule backoff_kept.relates_compose)
  from recovery_returns [OF this]
  have "action_returns c w (compose c pre (panicRecoveryMiddleware (compose c ?chaos ?t)))"
    using assms(3,4) pre(2) by (rule returns_compose)
  then have "action_returns c w (compose c (default_middlewares c) ?t)" by (simp add: pre(1))
  then have "returns c w (compose c (default_middlewares c) ?t x (initial_state c))" by (simp add: action_returns_def)
  moreover have "intact c w w" using assms(4) by (simp add: backoff_returns_def intact_refl)
  ultimately obtain err w' where "compose c (default_middlewares c) ?t x (initial_state c) w = (Ret err, w')"
    using returnsD by blast
  then show ?thesis using assms(2) by (auto simp: execute_fresh)
qed

text \<open>An action that always panics, with the default configuration and its backoff, and three attempts.\<close>

theorem protected_call_returns_witness:
  "\<exists>err w'. execute ((DefaultConfig 0 :: (unit, unit) config)\<lparr>MaxAttempts := 3, RecoverPanics := True\<rparr>)
      Background None (Some (\<lambda>x w. (Panic (PanicValue 7), w))) (calm_world ()) = (Ret err, w')"
proof (rule protected_call_returns)
  let ?c = "(DefaultConfig 0 :: (unit, unit) config)\<lparr>MaxAttempts := 3, RecoverPanics := True\<rparr>"
  show "backoff_returns ?c (calm_world ())"
    by (rule backoff_returns_default [of _ 0]) (simp_all add: empty_heap_def DefaultConfig_def)
  show "relates (backoff_kept ?c) (f x)" if "Some (\<lambda>x w. (Panic (PanicValue 7), w)) = Some f" for f x
    using that by (auto simp: relates_def backoff_kept_def intact_refl)
qed (auto simp: fresh_def DefaultConfig_def hooks_return_def hooks_relate_def)

section \<open>The fallbacks of a policy\<close>

text \<open>
  A policy ignores its value fallback. \<open>Policy.Do\<close> gives the same result with any two value
  fallbacks, so one given by \<open>WithFallback\<close> never runs. The method \<open>Do\<close> of
  \<^verbatim>\<open>Config\<close>, with the same configuration, is that same execution followed by the fallback
  on every error.
\<close>

theorem policy_ignores_value_fallback:
  "Policy_Do (c\<lparr>Fallback := FallbackValue f\<rparr>) x nil action = Policy_Do (c\<lparr>Fallback := FallbackValue g\<rparr>) x nil action
   \<and> Config_Do (c\<lparr>Fallback := FallbackValue f\<rparr>) x nil action
       = bind (Policy_Do (c\<lparr>Fallback := FallbackValue f\<rparr>) x nil action)
           (\<lambda>(v, err). case err of None \<Rightarrow> ret (v, None) | Some e \<Rightarrow> f x e)"
proof
  show "Policy_Do (c\<lparr>Fallback := FallbackValue f\<rparr>) x nil action = Policy_Do (c\<lparr>Fallback := FallbackValue g\<rparr>) x nil action"
    by (simp add: Policy_Do_def execute_value_def [abs_def] lift_config_def)
  have "(\<lambda>(v, err). case (err, FallbackValue f) of (Some e, FallbackValue f) \<Rightarrow> f x e | _ \<Rightarrow> ret (v, err))
      = (\<lambda>(v, err). case err of None \<Rightarrow> ret (v, None) | Some e \<Rightarrow> f x e)"
    by (auto simp: fun_eq_iff split: option.split)
  then show "Config_Do (c\<lparr>Fallback := FallbackValue f\<rparr>) x nil action
       = bind (Policy_Do (c\<lparr>Fallback := FallbackValue f\<rparr>) x nil action)
           (\<lambda>(v, err). case err of None \<Rightarrow> ret (v, None) | Some e \<Rightarrow> f x e)"
    by (simp add: Config_Do_def Policy_Do_def value_fallback_def)
qed

end
