(* ===== verification/Telemetry.thy ===== *)
theory Telemetry
  imports Pipeline_Facts
begin

text \<open>
  The two instrumenters of the repository: structured logging
  (\<^verbatim>\<open>telemetry/resileslog/slog.go\<close>) and tracing
  (\<^verbatim>\<open>telemetry/resileotel/otel.go\<close>). What they call, the standard logger and the
  OpenTelemetry API, is outside the repository; a hook's effect is therefore the sequence of its calls,
  which the first component of the user state collects. Texts the callee makes from an error or a
  duration stay symbolic (\<open>attr_value\<close>). A span is known by its number in the order of the starts.
\<close>

section \<open>Calls\<close>

datatype attr_value =
    AInt int
  | AUint u64
  | AStr string
  | ADur duration
  | AErrText go_error
  | AErrType "go_error option"

type_synonym attrs = "(string \<times> attr_value) list"

definition emit :: "'x \<Rightarrow> ('x list \<times> 'v, unit) prog" where
  "emit e w = (Ret (), w\<lparr>user := (fst (user w) @ [e], snd (user w))\<rparr>)"

definition calls :: "('x list \<times> 'v) world \<Rightarrow> 'x list" where
  "calls w = fst (user w)"

lemma calls_emit [simp]: "emit e w = (r, w') \<Longrightarrow> calls w' = calls w @ [e] \<and> r = Ret ()"
  by (auto simp: emit_def calls_def)

section \<open>Structured logging\<close>

record slog_record =
  slog_level :: int
  slog_msg :: string
  slog_attrs :: attrs

definition LevelWarn :: int where "LevelWarn = 4"

definition slog_BeforeAttempt :: "ctx \<Rightarrow> retry_state \<Rightarrow> (slog_record list \<times> 'v, ctx) prog" where
  "slog_BeforeAttempt x st = ret x"

definition slog_AfterAttempt :: "ctx \<Rightarrow> retry_state \<Rightarrow> (slog_record list \<times> 'v, unit) prog" where
  "slog_AfterAttempt x st =
     (case LastError st of
        None \<Rightarrow> ret ()
      | Some e \<Rightarrow>
          (let attrs = [(''retry.attempt'', AUint (Attempt st)),
                        (''retry.total_duration'', ADur (TotalDuration st)),
                        (''error.message'', AErrText e)];
               attrs = (if rs_Name st \<noteq> '''' then attrs @ [(''retry.name'', AStr (rs_Name st))] else attrs);
               attrs = (if NextDelay st > 0 then attrs @ [(''retry.next_delay'', ADur (NextDelay st))] else attrs)
           in emit \<lparr>slog_level = LevelWarn, slog_msg = ''retry attempt failed'', slog_attrs = attrs\<rparr>))"

definition slog_OnBulkheadFull :: "ctx \<Rightarrow> retry_state \<Rightarrow> (slog_record list \<times> 'v, unit) prog" where
  "slog_OnBulkheadFull x st =
     emit \<lparr>slog_level = LevelWarn, slog_msg = ''resile bulkhead capacity reached'',
           slog_attrs = [(''resile.name'', AStr (rs_Name st))]\<rparr>"

definition slog_OnRateLimitExceeded :: "ctx \<Rightarrow> retry_state \<Rightarrow> (slog_record list \<times> 'v, unit) prog" where
  "slog_OnRateLimitExceeded x st =
     emit \<lparr>slog_level = LevelWarn, slog_msg = ''resile rate limit exceeded'',
           slog_attrs = [(''resile.name'', AStr (rs_Name st))]\<rparr>"

definition slog_New :: "(slog_record list \<times> 'v) instrumenter" where
  "slog_New = \<lparr>BeforeAttempt = slog_BeforeAttempt, AfterAttempt = slog_AfterAttempt,
     OnBulkheadFull = slog_OnBulkheadFull, OnRateLimitExceeded = slog_OnRateLimitExceeded\<rparr>"

section \<open>Tracing\<close>

datatype span_status = StatusError | StatusOk

datatype otel_call =
    SpanStart nat string attrs
  | SpanSetStatus nat span_status attr_value
  | SpanRecordError nat go_error
  | SpanSetAttributes nat attrs
  | SpanEnd nat
  | CounterAdd int attrs

definition is_start :: "otel_call \<Rightarrow> bool" where
  "is_start c = (case c of SpanStart _ _ _ \<Rightarrow> True | _ \<Rightarrow> False)"

definition started_spans :: "otel_call list \<Rightarrow> nat" where
  "started_spans es = length (filter is_start es)"

definition tracer_Start :: "string \<Rightarrow> attrs \<Rightarrow> (otel_call list \<times> 'v, nat) prog" where
  "tracer_Start name attrs w =
     (let i = started_spans (calls w) in bind (emit (SpanStart i name attrs)) (\<lambda>_. ret i) w)"

text \<open>\<^verbatim>\<open>SpanFromContext\<close>: a context without a span gives one whose methods do nothing.\<close>

definition on_span :: "ctx \<Rightarrow> (nat \<Rightarrow> otel_call) \<Rightarrow> (otel_call list \<times> 'v, unit) prog" where
  "on_span x f = (case ctx_span x of None \<Rightarrow> ret () | Some i \<Rightarrow> emit (f i))"

definition otel_BeforeAttempt :: "ctx \<Rightarrow> retry_state \<Rightarrow> (otel_call list \<times> 'v, ctx) prog" where
  "otel_BeforeAttempt x st =
     (let spanName = (if rs_Name st \<noteq> '''' then ''retry.attempt: '' @ rs_Name st else ''retry.attempt'')
      in bind (tracer_Start spanName
                 [(''retry.num'', AInt (sint (Attempt st))), (''retry.name'', AStr (rs_Name st))]) (\<lambda>i.
         bind (if Attempt st > 0
               then emit (CounterAdd 1
                      ([(''retry_num'', AInt (sint (Attempt st))), (''error_type'', AErrType (LastError st))]
                       @ (if rs_Name st \<noteq> '''' then [(''retry_name'', AStr (rs_Name st))] else [])))
               else ret ()) (\<lambda>_.
         ret (x\<lparr>ctx_span := Some i\<rparr>))))"

definition otel_AfterAttempt :: "ctx \<Rightarrow> retry_state \<Rightarrow> (otel_call list \<times> 'v, unit) prog" where
  "otel_AfterAttempt x st =
     deferred (\<lambda>w. snd (on_span x SpanEnd w))
      (bind (case LastError st of
               Some e \<Rightarrow>
                 bind (on_span x (\<lambda>i. SpanRecordError i e)) (\<lambda>_.
                 bind (on_span x (\<lambda>i. SpanSetStatus i StatusError (AErrText e))) (\<lambda>_.
                 on_span x (\<lambda>i. SpanSetAttributes i [(''error.type'', AErrType (Some e))])))
             | None \<Rightarrow> on_span x (\<lambda>i. SpanSetStatus i StatusOk (AStr ''success'')))
        (\<lambda>_. if NextDelay st > 0
              then on_span x (\<lambda>i. SpanSetAttributes i [(''retry.backoff_duration'', ADur (NextDelay st))])
              else ret ()))"

definition otel_refused :: "string \<Rightarrow> string \<Rightarrow> retry_state \<Rightarrow> (otel_call list \<times> 'v, unit) prog" where
  "otel_refused name description st =
     bind (tracer_Start name [(''resile.name'', AStr (rs_Name st))]) (\<lambda>i.
     bind (emit (SpanSetStatus i StatusError (AStr description))) (\<lambda>_. emit (SpanEnd i)))"

definition otel_OnBulkheadFull :: "ctx \<Rightarrow> retry_state \<Rightarrow> (otel_call list \<times> 'v, unit) prog" where
  "otel_OnBulkheadFull x st = otel_refused ''resile.bulkhead_full'' ''bulkhead capacity reached'' st"

definition otel_OnRateLimitExceeded :: "ctx \<Rightarrow> retry_state \<Rightarrow> (otel_call list \<times> 'v, unit) prog" where
  "otel_OnRateLimitExceeded x st = otel_refused ''resile.rate_limit_exceeded'' ''rate limit exceeded'' st"

definition otel_instrumenter :: "(otel_call list \<times> 'v) instrumenter" where
  "otel_instrumenter = \<lparr>BeforeAttempt = otel_BeforeAttempt, AfterAttempt = otel_AfterAttempt,
     OnBulkheadFull = otel_OnBulkheadFull, OnRateLimitExceeded = otel_OnRateLimitExceeded\<rparr>"

text \<open>
  The constructor: the providers, their defaults and the making of the counter are the library's, so
  they are arguments; the calls of the hooks go to the tracer provider and the counter it returns.
\<close>

definition otel_New ::
  "'tp \<Rightarrow> 'mp \<Rightarrow> ('mp \<Rightarrow> go_error + 'counter) \<Rightarrow> 'tp option \<Rightarrow> 'mp option
     \<Rightarrow> go_error + 'tp \<times> 'counter \<times> (otel_call list \<times> 'v) instrumenter" where
  "otel_New global_tp global_mp Int64Counter tp mp =
     (let tp = (case tp of None \<Rightarrow> global_tp | Some p \<Rightarrow> p);
          mp = (case mp of None \<Rightarrow> global_mp | Some p \<Rightarrow> p)
      in case Int64Counter mp of
           Inl err \<Rightarrow> Inl (WrapErr 0 err)
         | Inr counter \<Rightarrow> Inr (tp, counter, otel_instrumenter))"

lemmas slog_defs = slog_New_def slog_BeforeAttempt_def slog_AfterAttempt_def slog_OnBulkheadFull_def slog_OnRateLimitExceeded_def
lemmas otel_defs = otel_instrumenter_def otel_BeforeAttempt_def otel_AfterAttempt_def otel_OnBulkheadFull_def
  otel_OnRateLimitExceeded_def otel_refused_def tracer_Start_def on_span_def

declare slog_defs [op_defs] otel_defs [op_defs]

section \<open>The life of a span\<close>

text \<open>The spans that have been started and not ended.\<close>

fun open_spans :: "otel_call list \<Rightarrow> nat set" where
  "open_spans [] = {}"
| "open_spans (SpanStart i _ _ # es) = (if SpanEnd i \<in> set es then {} else {i}) \<union> open_spans es"
| "open_spans (_ # es) = open_spans es"

text \<open>The calls of an attempt on its span, by its result.\<close>

definition attempt_calls :: "nat \<Rightarrow> retry_state \<Rightarrow> go_error option \<Rightarrow> otel_call list" where
  "attempt_calls i st err =
     (case err of
        Some e \<Rightarrow> [SpanRecordError i e, SpanSetStatus i StatusError (AErrText e), SpanSetAttributes i [(''error.type'', AErrType (Some e))]]
      | None \<Rightarrow> [SpanSetStatus i StatusOk (AStr ''success'')])
     @ (if NextDelay st > 0 then [SpanSetAttributes i [(''retry.backoff_duration'', ADur (NextDelay st))]] else [])
     @ [SpanEnd i]"

text \<open>Logs of calls that can arise: a span is ended after its start, and numbers are not reused.\<close>

definition log_ok :: "otel_call list \<Rightarrow> bool" where
  "log_ok es \<longleftrightarrow> (\<forall>i. SpanEnd i \<in> set es \<longrightarrow> i < started_spans es) \<and> (\<forall>i \<in> open_spans es. i < started_spans es)"

lemma started_append [simp]: "started_spans (es @ es') = started_spans es + started_spans es'"
  by (simp add: started_spans_def)

lemma open_append:
  "open_spans (es @ es') = {i \<in> open_spans es. SpanEnd i \<notin> set es'} \<union> open_spans es'"
  by (induction es rule: open_spans.induct) auto

lemma otel_before:
  assumes "otel_BeforeAttempt x st w = (r, w')"
  shows "\<exists>pre. r = Ret (x\<lparr>ctx_span := Some (started_spans (calls w))\<rparr>) \<and> calls w' = calls w @ pre
    \<and> open_spans pre = {started_spans (calls w)} \<and> started_spans pre = 1 \<and> (\<forall>i. SpanEnd i \<notin> set pre)"
  using assms
  by (auto simp: otel_BeforeAttempt_def tracer_Start_def bind_def emit_def calls_def started_spans_def is_start_def Let_def
      split: if_splits)

lemma otel_after:
  assumes "otel_AfterAttempt x st w = (r, w')" "ctx_span x = Some i"
  shows "r = Ret () \<and> calls w' = calls w @ attempt_calls i st (LastError st)"
  using assms
  by (auto simp: otel_AfterAttempt_def deferred_def on_span_def bind_def emit_def calls_def attempt_calls_def
      split: option.splits if_splits)

lemma attempt_calls_span:
  "open_spans (attempt_calls i st err) = {}" "SpanEnd j \<in> set (attempt_calls i st err) \<longleftrightarrow> j = i"
  by (auto simp: attempt_calls_def split: option.split)

text \<open>
  C38. Every attempt that ends is traced by one span, which is ended. Under the tracing
  instrumenter an attempt, of an action that does no tracing of its own, starts one new span; if it
  returns, the span gets the status of the result and is ended after it, so no span stays open, but
  an attempt that panics leaves its span open for ever.
\<close>

theorem otel_attempt_ends_its_span:
  assumes "instrumenterMiddleware c next x st w = (r, w')" "Instrumenter c = Some otel_instrumenter" "log_ok (calls w)"
    "\<forall>x' w1 r1 w2. next x' st w1 = (r1, w2) \<longrightarrow> calls w2 = calls w1"
  shows "\<exists>pre. started_spans pre = 1 \<and>
    (case r of
       Ret err \<Rightarrow> calls w' = calls w @ pre @ attempt_calls (started_spans (calls w)) st err
         \<and> open_spans (calls w') = open_spans (calls w)
     | Panic p \<Rightarrow> calls w' = calls w @ pre
         \<and> open_spans (calls w') = insert (started_spans (calls w)) (open_spans (calls w)))"
proof -
  let ?i = "started_spans (calls w)"
  let ?x = "x\<lparr>ctx_span := Some ?i\<rparr>"
  have fresh_i: "?i \<notin> open_spans (calls w)" using assms(3) by (auto simp: log_ok_def)
  obtain w1 r0 where b: "otel_BeforeAttempt x st w = (r0, w1)" by fastforce
  from otel_before [OF this] obtain pre where pre: "r0 = Ret ?x" "calls w1 = calls w @ pre" "open_spans pre = {?i}"
    "started_spans pre = 1" "\<forall>i. SpanEnd i \<notin> set pre" by blast
  obtain r2 w2 where n: "next ?x st w1 = (r2, w2)" by fastforce
  then have c2: "calls w2 = calls w @ pre" using assms(4) pre(2) by simp
  have m: "bind (next ?x st) (\<lambda>err. bind (otel_AfterAttempt ?x (st\<lparr>LastError := err\<rparr>)) (\<lambda>_. ret err)) w1 = (r, w')"
    using assms(1,2) b pre(1) by (simp add: instrumenterMiddleware_def otel_instrumenter_def)
  show ?thesis
  proof (cases r2)
    case (Panic p)
    then have "r = Panic p" "w' = w2" using m n by simp_all
    then show ?thesis using pre c2 by (auto simp: open_append)
  next
    case (Ret err)
    obtain r3 w3 where a: "otel_AfterAttempt ?x (st\<lparr>LastError := err\<rparr>) w2 = (r3, w3)" by fastforce
    with otel_after [OF a, of ?i] have "r3 = Ret ()" "calls w3 = calls w2 @ attempt_calls ?i (st\<lparr>LastError := err\<rparr>) err" by simp_all
    moreover from this have "r = Ret err" "w' = w3" using m n Ret a by simp_all
    moreover have "attempt_calls ?i (st\<lparr>LastError := err\<rparr>) err = attempt_calls ?i st err" by (simp add: attempt_calls_def)
    ultimately show ?thesis
      using pre c2 fresh_i by (intro exI [of _ pre]) (auto simp: open_append attempt_calls_span)
  qed
qed

theorem otel_attempt_ends_its_span_witness:
  "\<exists>r w'. instrumenterMiddleware ((DefaultConfig 0 :: (otel_call list \<times> unit, unit) config)\<lparr>Instrumenter := Some otel_instrumenter\<rparr>)
      (\<lambda>x st. ret None) Background (initial_state (DefaultConfig 0 :: (unit, unit) config)) (calm_world ([], ())) = (r, w')
     \<and> (\<exists>pre. started_spans pre = 1 \<and>
        (case r of Ret err \<Rightarrow> calls w' = pre @ attempt_calls 0 (initial_state (DefaultConfig 0 :: (unit, unit) config)) err
              \<and> open_spans (calls w') = {}
         | Panic p \<Rightarrow> calls w' = pre \<and> open_spans (calls w') = {0}))"
proof -
  let ?c = "(DefaultConfig 0 :: (otel_call list \<times> unit, unit) config)\<lparr>Instrumenter := Some otel_instrumenter\<rparr>"
  let ?st = "initial_state (DefaultConfig 0 :: (unit, unit) config)"
  obtain r w' where m: "instrumenterMiddleware ?c (\<lambda>x st. ret None) Background ?st (calm_world ([], ())) = (r, w')" by fastforce
  have "\<exists>pre. started_spans pre = 1 \<and>
        (case r of Ret err \<Rightarrow> calls w' = [] @ pre @ attempt_calls (started_spans []) ?st err \<and> open_spans (calls w') = open_spans []
         | Panic p \<Rightarrow> calls w' = [] @ pre \<and> open_spans (calls w') = insert (started_spans []) (open_spans []))"
    using otel_attempt_ends_its_span [OF m] by (cases r) (simp_all add: log_ok_def calls_def started_spans_def)
  with m show ?thesis by (auto simp: started_spans_def split: result.splits)
qed

section \<open>What is logged\<close>

text \<open>
  The logger reports every failed attempt, the first one too, and only failed ones; the delay in
  front of the next attempt is never part of a record of the retry loop, which leaves
  \<open>NextDelay\<close> at zero.
\<close>

theorem slog_reports_each_failure:
  assumes "slog_AfterAttempt x st w = (r, w')"
  shows "r = Ret () \<and> (case LastError st of
      None \<Rightarrow> calls w' = calls w
    | Some e \<Rightarrow> \<exists>rec. calls w' = calls w @ [rec] \<and> slog_level rec = LevelWarn
        \<and> (''retry.attempt'', AUint (Attempt st)) \<in> set (slog_attrs rec) \<and> (''error.message'', AErrText e) \<in> set (slog_attrs rec))"
  using assms by (auto simp: slog_AfterAttempt_def emit_def calls_def Let_def split: option.splits)

lemma attempt_state_NextDelay [simp]: "NextDelay (attempt_state st a errs) = NextDelay st"
  by (simp add: attempt_state_def Let_def)

theorem retry_loop_announces_no_delay:
  "retry_loop c (\<lambda>x s. next x (s\<lparr>NextDelay := NextDelay st\<rparr>)) x start st attempt errs w
     = retry_loop c next x start st attempt errs w"
proof (induction "unat (MaxAttempts c) - unat attempt" arbitrary: attempt errs st w)
  case 0
  then have "\<not> attempt < MaxAttempts c" by (simp add: word_less_nat_alt)
  then show ?case by (simp add: retry_loop.simps)
next
  case (Suc n)
  then have lt: "attempt < MaxAttempts c" by (simp add: word_less_nat_alt)
  have "n = unat (MaxAttempts c) - unat (attempt + 1)" using Suc.hyps(2) attempt_next [OF lt] by simp
  from Suc.hyps(1) [OF this, of "attempt_state st attempt errs"]
  have more: "retry_loop c (\<lambda>x s. next x (s\<lparr>NextDelay := NextDelay st\<rparr>)) x start (attempt_state st attempt errs) (attempt + 1) es
      = retry_loop c next x start (attempt_state st attempt errs) (attempt + 1) es" for es
    by (simp add: fun_eq_iff)
  have same: "s\<lparr>TotalDuration := d, NextDelay := NextDelay st\<rparr> = s\<lparr>TotalDuration := d\<rparr>" if "NextDelay s = NextDelay st" for s d
    using that by simp
  show ?case by (simp add: retry_loop_step lt more same cong: option.case_cong)
qed

end
