(* ===== verification/Propagation.thy ===== *)
theory Propagation
  imports Decimal_Text Go_Context Float64
begin

text \<open>
  Deadline propagation (\<^verbatim>\<open>propagation.go\<close>): the remaining time of a context as a
  header value, in milliseconds or in the gRPC timeout format. What the code does with the header,
  a caller's implementation of an interface, is at most one call of \<^verbatim>\<open>Set\<close>, which
  \<open>InjectDeadlineHeader\<close> returns.

  \<open>grpc_value\<close> is the reading of the format in the gRPC specification the code cites: a
  decimal number followed by the letter of its unit.
\<close>

section \<open>Durations as floats\<close>

text \<open>\<^verbatim>\<open>Duration.Seconds\<close>, \<^verbatim>\<open>Minutes\<close> and \<^verbatim>\<open>Hours\<close> of package \<^verbatim>\<open>time\<close>.\<close>

definition in_units :: "int \<Rightarrow> duration \<Rightarrow> f64" where
  "in_units unit d = f64_of_int (d sdiv unit) + f64_of_int (d smod unit) / f64_of_int unit"

section \<open>The operations\<close>

definition formatGRPCTimeout :: "(f64 \<Rightarrow> int) \<Rightarrow> duration \<Rightarrow> string" where
  "formatGRPCTimeout oor d =
     (if d \<le> 0 then ''0n''
      else if d < Microsecond then show_int d @ ''n''
      else if d < Millisecond then show_int (d sdiv 1000) @ ''u''
      else if d < Second then show_int (d sdiv 1000000) @ ''m''
      else if d < Minute then show_int (f64_to_int 64 oor (in_units Second d)) @ ''S''
      else if d < Hour then show_int (f64_to_int 64 oor (in_units Minute d)) @ ''M''
      else show_int (f64_to_int 64 oor (in_units Hour d)) @ ''H'')"

definition InjectDeadlineHeader ::
  "(f64 \<Rightarrow> int) \<Rightarrow> time \<Rightarrow> ctx \<Rightarrow> string \<Rightarrow> (string \<times> string) option" where
  "InjectDeadlineHeader oor now c key =
     (case ctx_deadline c of
        None \<Rightarrow> None
      | Some deadline \<Rightarrow>
          (let remaining = time_Sub deadline now
           in if remaining \<le> 0 then None
              else if key = ''Grpc-Timeout'' then Some (key, formatGRPCTimeout oor remaining)
              else Some (key, show_int (remaining sdiv 1000000))))"

declare formatGRPCTimeout_def [op_defs] InjectDeadlineHeader_def [op_defs]

section \<open>What a receiver reads\<close>

fun unit_of :: "char \<Rightarrow> duration option" where
  "unit_of c =
     (if c = CHR ''H'' then Some Hour else if c = CHR ''M'' then Some Minute
      else if c = CHR ''S'' then Some Second else if c = CHR ''m'' then Some Millisecond
      else if c = CHR ''u'' then Some Microsecond else if c = CHR ''n'' then Some Nanosecond else None)"

definition grpc_value :: "string \<Rightarrow> duration option" where
  "grpc_value s =
     (if s = [] then None
      else case (read_nat (butlast s), unit_of (last s)) of
             (Some n, Some u) \<Rightarrow> Some (int n * u) | _ \<Rightarrow> None)"

lemma grpc_value_show:
  "0 \<le> i \<Longrightarrow> unit_of c = Some u \<Longrightarrow> grpc_value (show_int i @ [c]) = Some (i * u)"
  by (simp add: grpc_value_def show_int_def del: unit_of.simps)

lemma sdiv_pos: "0 \<le> (a::int) \<Longrightarrow> 0 < b \<Longrightarrow> a sdiv b = a div b"
  "0 \<le> a \<Longrightarrow> 0 < b \<Longrightarrow> a smod b = a mod b"
  by (auto simp: signed_divide_int_def signed_modulo_int_def sgn_if minus_div_mult_eq_mod)

text \<open>The float detour is exact: a quotient below 2048 and a remainder below the unit do not round up.\<close>

lemma in_units_exact:
  assumes "0 \<le> d" "0 < u" "u \<le> 3600000000000" "d div u < 2048"
  shows "f64_to_int 64 oor (in_units u d) = d div u"
proof -
  define s n where "s = d div u" and "n = d mod u"
  have s: "0 \<le> s" "s < 2048" and n: "0 \<le> n" "n < u" using assms by (simp_all add: s_def n_def pos_imp_zdiv_nonneg_iff)
  have f: "f64_of_int i = Fin (of_int i)" if "0 \<le> i" "i \<le> 3600000000000" for i
    using that by (intro f64_of_int_exact) simp
  let ?B = "of_int (2 ^ 42 - 1) / 2 ^ 42 :: rat"
  have rep: "representable (of_int i / 2 ^ 42)" if "\<bar>i\<bar> < 2 ^ 53" for i
  proof (rule representable_dyadic [of _ i "- 42"])
    show "of_int i / 2 ^ 42 = of_int i * (2::rat) powi - 42" by (simp add: power_int_minus)
    have "\<bar>of_int i :: rat\<bar> < 2 ^ 53" using that by (metis of_int_abs of_int_less_iff of_int_numeral of_int_power)
    then have "\<bar>of_int i / 2 ^ 42 :: rat\<bar> < 2 powi 11" by (simp add: field_simps)
    also have "(2::rat) powi 11 < 2 powi 1024" by (simp only: powi_2_less_iff)
    finally show "\<bar>of_int i / 2 ^ 42 :: rat\<bar> < 2 powi 1024" .
  qed (use that in auto)
  have "n * 2 ^ 42 \<le> (2 ^ 42 - 1) * u" using n assms(3) by simp
  then have "(of_int (n * 2 ^ 42) :: rat) \<le> of_int ((2 ^ 42 - 1) * u)" by (simp only: of_int_le_iff)
  then have q: "of_int n / of_int u \<le> ?B" using assms(2) by (simp add: field_simps)
  have q0: "(0::rat) \<le> of_int n / of_int u" using n assms(2) by simp
  obtain y where y: "rnd (of_int n / of_int u) = Fin y" "0 \<le> y" "y \<le> ?B"
    using rnd_bounds [of 0 ?B "of_int n / of_int u"] q q0 rep [of "2 ^ 42 - 1"] rep [of 0] by auto
  have lo: "(of_int (s * 2 ^ 42) / 2 ^ 42 :: rat) \<le> of_int s + y" using y by simp
  have hi: "of_int s + y \<le> of_int (s * 2 ^ 42 + (2 ^ 42 - 1)) / (2 ^ 42 :: rat)" using y by (simp add: field_simps)
  obtain z where z: "rnd (of_int s + y) = Fin z" "of_int (s * 2 ^ 42) / 2 ^ 42 \<le> z"
    "z \<le> of_int (s * 2 ^ 42 + (2 ^ 42 - 1)) / 2 ^ 42"
    using rnd_bounds [OF rep rep lo hi] s by auto
  have "of_int s \<le> z" "z < of_int s + 1" using z by (simp_all add: field_simps)
  then have fl: "\<lfloor>z\<rfloor> = s" by (intro floor_unique)
  have z0: "0 \<le> z" using \<open>of_int s \<le> z\<close> s by (meson of_int_0_le_iff order_trans)
  have "in_units u d = Fin z"
    using z(1) y(1) f [of s] f [of n] f [of u] s n assms
    by (simp add: in_units_def sdiv_pos s_def [symmetric] n_def [symmetric])
  then show ?thesis using fl z0 s by (simp add: trunc_rat_def Let_def s_def)
qed

text \<open>The unit of the header for a remaining time: the largest one that fits into it.\<close>

definition grpc_unit :: "duration \<Rightarrow> duration" where
  "grpc_unit d =
     (if d < Microsecond then Nanosecond else if d < Millisecond then Microsecond
      else if d < Second then Millisecond else if d < Minute then Second
      else if d < Hour then Minute else Hour)"

lemma grpc_unit_fits: "0 < d \<Longrightarrow> 0 < grpc_unit d \<and> grpc_unit d \<le> d"
  by (simp add: grpc_unit_def duration_units)

text \<open>
  C26. Below 2048 hours the gRPC timeout is the remaining time, rounded down to its unit. For a
  remaining time of at least a nanosecond and less than 2048 hours, the receiver decodes the header
  to the greatest multiple of the unit that is not above the remaining time, where the unit is the
  largest of the six that fits into it; so it is less than one unit, and less than half of the
  remaining time, too short, and never too long. The float arithmetic of seconds, minutes and hours
  does not round up.
\<close>

theorem grpc_timeout_roundtrip:
  assumes "0 < d" "d < 2048 * Hour"
  shows "\<exists>v. grpc_value (formatGRPCTimeout oor d) = Some v \<and> v = d div grpc_unit d * grpc_unit d
    \<and> v \<le> d \<and> d < v + grpc_unit d \<and> d < 2 * v"
proof -
  let ?u = "grpc_unit d" and ?v = "d div grpc_unit d * grpc_unit d"
  have u: "0 < ?u" "?u \<le> d" using grpc_unit_fits [OF assms(1)] by simp_all
  then have q: "0 < d div ?u" by (simp add: pos_imp_zdiv_pos_iff)
  then have "0 \<le> d div ?u" "?u \<le> ?v" using u by simp_all
  moreover have "d = ?v + d mod ?u" "0 \<le> d mod ?u" "d mod ?u < ?u" using u by simp_all
  ultimately have v: "?v \<le> d" "d < ?v + ?u" "d < 2 * ?v" by linarith+
  have show_unit: "grpc_value (show_int (d div ?u) @ [c]) = Some ?v" if "unit_of c = Some ?u" for c
    using grpc_value_show [OF \<open>0 \<le> d div ?u\<close> that] .
  have "grpc_value (formatGRPCTimeout oor d) = Some ?v"
  proof -
    note duration_units [simp]
    consider "d < 1000" | "1000 \<le> d" "d < 1000000" | "1000000 \<le> d" "d < Second" | "Second \<le> d" "d < Minute"
      | "Minute \<le> d" "d < Hour" | "Hour \<le> d" by linarith
    then show ?thesis
    proof cases
      case 1
      then show ?thesis using assms show_unit [of "CHR ''n''"] by (simp add: formatGRPCTimeout_def grpc_unit_def)
    next
      case 2
      then show ?thesis
        using show_unit [of "CHR ''u''"] by (simp add: formatGRPCTimeout_def grpc_unit_def sdiv_pos)
    next
      case 3
      then show ?thesis
        using show_unit [of "CHR ''m''"] by (simp add: formatGRPCTimeout_def grpc_unit_def sdiv_pos)
    next
      case 4
      then show ?thesis
        using show_unit [of "CHR ''S''"] in_units_exact [of d Second oor] by (simp add: formatGRPCTimeout_def grpc_unit_def)
    next
      case 5
      then show ?thesis
        using show_unit [of "CHR ''M''"] in_units_exact [of d Minute oor] by (simp add: formatGRPCTimeout_def grpc_unit_def)
    next
      case 6
      then show ?thesis
        using assms show_unit [of "CHR ''H''"] in_units_exact [of d Hour oor] by (simp add: formatGRPCTimeout_def grpc_unit_def)
    qed
  qed
  with v show ?thesis by simp
qed

text \<open>Ninety and a half seconds become one minute, ten and a half become ten.\<close>

lemma grpc_timeout_roundtrip_witness:
  "grpc_value (formatGRPCTimeout (\<lambda>_. 0) (10500 * Millisecond)) = Some (10 * Second)
   \<and> grpc_value (formatGRPCTimeout (\<lambda>_. 0) (90500 * Millisecond)) = Some Minute"
  using grpc_timeout_roundtrip [of "10500 * Millisecond" "\<lambda>_. 0"] grpc_timeout_roundtrip [of "90500 * Millisecond" "\<lambda>_. 0"]
  by (simp add: duration_units grpc_unit_def)

text \<open>
  Beyond 2048 hours the rounding goes the other way: one nanosecond before 4097 hours the header
  promises the receiver all of the 4097 hours.
\<close>

theorem grpc_timeout_can_overestimate:
  "grpc_value (formatGRPCTimeout oor (4097 * Hour - 1)) = Some (4097 * Hour)"
  by code_simp

end
