(* ===== verification/Range_Requests.thy ===== *)
theory Range_Requests
  imports Decimal_Text Go_Errors "HOL-Library.Sublist"
begin

text \<open>
  Range requests (\<^verbatim>\<open>examples/http_resume_stream/main.go\<close>): the request header the
  client writes and the server reads, the server's handler with the connection drops it simulates,
  and the contract between the two (locale \<open>range_server\<close>): what a reply's status says about the
  bytes in its body.

  What a handler leaves to chance and to the network is an argument: the random draws and the result
  of every write. \<^verbatim>\<open>Int64N(n)\<close> is a draw below \<open>n\<close>. The handler's reply is what it
  wrote and whether it came to its end; a hijacked connection is cut without one.
\<close>

section \<open>The header\<close>

definition range_header :: "int \<Rightarrow> string" where
  "range_header n = ''bytes='' @ show_int n @ ''-''"

text \<open>A header that is missing reads as the empty string.\<close>

definition requested_range :: "string \<Rightarrow> int \<times> bool" where
  "requested_range rangeHeader =
     (if rangeHeader \<noteq> [] \<and> strings_HasPrefix rangeHeader ''bytes=''
      then (let parts = strings_Split CHR ''-'' (strings_TrimPrefix rangeHeader ''bytes='')
            in if length parts > 0 \<and> parts ! 0 \<noteq> []
               then (case strconv_ParseInt (parts ! 0) of
                       Some s \<Rightarrow> (s, True)
                     | None \<Rightarrow> (0, False))
               else (0, False))
      else (0, False))"

lemma requested_range_header:
  assumes "0 \<le> n" "n \<le> max_int64"
  shows "requested_range (range_header n) = (n, True)"
  using assms
  by (simp add: requested_range_def range_header_def show_int_def strings_HasPrefix_def
      strings_TrimPrefix_def Split_at ParseInt_show)

lemma requested_range_none [simp]: "requested_range [] = (0, False)"
  by (simp add: requested_range_def)

section \<open>The server\<close>

type_synonym byte = "8 word"

record reply =
  rp_status :: nat
  rp_range :: "(int \<times> int \<times> int) option"
  rp_body :: "byte list"
  rp_end :: bool

text \<open>
  The chances of one exchange. For the server: whether it simulates a drop, where, and which write
  fails after how many bytes. For the client: whether the request fails, where the connection breaks
  in the body of the reply, whether the file can be opened, and where writing to it fails.
\<close>

record exchange =
  ex_drop :: bool
  ex_draw :: nat
  ex_writes :: "int \<Rightarrow> nat option"
  ex_request :: "go_error option"
  ex_cut :: "nat option"
  ex_open :: "go_error option"
  ex_disk :: "nat option"
  ex_error :: go_error

text \<open>The chunks of the body, from the number \<open>written\<close> of bytes on.\<close>

function send_loop ::
  "byte list \<Rightarrow> int \<Rightarrow> int \<Rightarrow> int \<Rightarrow> (int \<Rightarrow> nat option) \<Rightarrow> int \<Rightarrow> byte list \<times> bool" where
  "send_loop content start remaining failAfter writes written =
     (if \<not> written < remaining then ([], True)
      else if failAfter \<noteq> - 1 \<and> written \<ge> failAfter then ([], False)
      else (let toWrite = (if 1024 > remaining - written then remaining - written else 1024);
                chunk = take (nat toWrite) (drop (nat (start + written)) content)
            in case writes written of
                 Some n \<Rightarrow> (take n chunk, False)
               | None \<Rightarrow>
                   (let (body, ended) = send_loop content start remaining failAfter writes (written + toWrite)
                    in (chunk @ body, ended))))"
  by pat_completeness auto
termination
  by (relation "measure (\<lambda>(content, start, remaining, failAfter, writes, written). nat (remaining - written))") auto

declare send_loop.simps [simp del]

definition serve_file :: "byte list \<Rightarrow> string \<Rightarrow> exchange \<Rightarrow> reply" where
  "serve_file content rangeHeader e =
     (let fileSize = int (length content);
          (start, isPartial) = requested_range rangeHeader
      in if start \<ge> fileSize
         then \<lparr>rp_status = 416, rp_range = None, rp_body = [], rp_end = True\<rparr>
         else (let remaining = fileSize - start;
                   failAfter = (if ex_drop e \<and> remaining > 1024
                                then int (ex_draw e mod nat (remaining - 512)) + 512 else - 1);
                   (body, ended) = send_loop content start remaining failAfter (ex_writes e) 0
               in \<lparr>rp_status = (if isPartial then 206 else 200),
                   rp_range = (if isPartial then Some (start, fileSize - 1, fileSize) else None),
                   rp_body = body, rp_end = ended\<rparr>))"

section \<open>The contract\<close>

text \<open>
  \<open>part_of rest r\<close>: the body of the reply is a prefix of \<open>rest\<close>, and all of it if the reply came
  to its end.
\<close>

definition part_of :: "byte list \<Rightarrow> reply \<Rightarrow> bool" where
  "part_of rest r \<longleftrightarrow> prefix (rp_body r) rest \<and> (rp_end r \<longrightarrow> rp_body r = rest)"

text \<open>
  What the client relies on. A reply with status 200 carries the content from its start; one with
  status 206 carries it from the byte asked for, and is never given to a request without a range.
\<close>

locale range_server =
  fixes content :: "byte list" and serve :: "string \<Rightarrow> exchange \<Rightarrow> reply"
  assumes whole: "rp_status (serve h e) = 200 \<Longrightarrow> part_of content (serve h e)"
    and partial: "0 < n \<Longrightarrow> n \<le> max_int64 \<Longrightarrow> rp_status (serve (range_header n) e) = 206 \<Longrightarrow>
      part_of (drop (nat n) content) (serve (range_header n) e)"
    and unasked: "rp_status (serve [] e) \<noteq> 206"

lemma prefix_append_drop: "prefix b (drop n xs) \<Longrightarrow> prefix (take n xs @ b) xs"
  by (metis append_take_drop_id same_prefix_prefix)

lemma send_loop_body:
  assumes "remaining = int (length content) - start" "0 \<le> start" "0 \<le> written" "written \<le> remaining"
    "send_loop content start remaining failAfter writes written = (body, ended)"
  shows "prefix body (drop (nat (start + written)) content)
    \<and> (ended \<longrightarrow> body = drop (nat (start + written)) content)"
  using assms
proof (induction content start remaining failAfter writes written arbitrary: body ended rule: send_loop.induct)
  case (1 content start remaining failAfter writes written)
  let ?rest = "drop (nat (start + written)) content"
  show ?case
  proof (cases "written < remaining \<and> \<not> (failAfter \<noteq> - 1 \<and> written \<ge> failAfter)")
    case False
    then show ?thesis
      using "1.prems" by (subst (asm) send_loop.simps) (auto split: if_splits)
  next
    case go: True
    define toWrite where "toWrite = (if 1024 > remaining - written then remaining - written else 1024)"
    let ?chunk = "take (nat toWrite) ?rest"
    have w: "0 < toWrite" "written + toWrite \<le> remaining" using go by (auto simp: toWrite_def)
    have tail: "drop (nat (start + (written + toWrite))) content = drop (nat toWrite) ?rest"
      using "1.prems"(2,3) w by (simp add: nat_add_distrib add_ac)
    show ?thesis
    proof (cases "writes written")
      case (Some n)
      then have "body = take n ?chunk" "\<not> ended"
        using "1.prems"(5) go by (subst (asm) send_loop.simps, auto simp: Let_def toWrite_def)+
      then show ?thesis by (simp add: take_is_prefix)
    next
      case None
      then obtain b where b: "send_loop content start remaining failAfter writes (written + toWrite) = (b, ended)"
        "body = ?chunk @ b"
        using "1.prems"(5) go
        by (subst (asm) send_loop.simps) (auto simp: Let_def toWrite_def split: prod.splits)
      have "prefix b (drop (nat toWrite) ?rest) \<and> (ended \<longrightarrow> b = drop (nat toWrite) ?rest)"
        using "1.IH" [OF _ _ toWrite_def refl None "1.prems"(1,2) _ w(2) b(1)] go "1.prems"(3) w(1)
        unfolding tail by auto
      then show ?thesis
        unfolding b(2) using prefix_append_drop by (metis append_take_drop_id)
    qed
  qed
qed

text \<open>The example's server keeps the contract, whatever its draws and whatever the network does.\<close>

lemma requested_range_nonneg: "0 \<le> fst (requested_range h)"
proof -
  have "CHR ''-'' \<notin> set (strings_Split CHR ''-'' s ! 0)" for s
    by (induction s) (auto split: list.split)
  moreover have "0 \<le> i" if "strconv_ParseInt p = Some i" "CHR ''-'' \<notin> set p" for p i
    using that by (auto simp: strconv_ParseInt_def Let_def split: list.splits option.splits if_splits)
  ultimately show ?thesis
    by (auto simp: requested_range_def Let_def split: option.split)
qed

lemma serve_file_part:
  assumes "rp_status (serve_file content h e) \<noteq> 416"
  shows "part_of (drop (nat (fst (requested_range h))) content) (serve_file content h e)"
    and "rp_status (serve_file content h e) = (if snd (requested_range h) then 206 else 200)"
proof -
  obtain start isPartial where r: "requested_range h = (start, isPartial)" by fastforce
  have start: "0 \<le> start" using requested_range_nonneg [of h] r by simp
  have lt: "start < int (length content)"
  proof (rule ccontr)
    assume "\<not> start < int (length content)"
    then show False using assms r by (simp add: serve_file_def Let_def)
  qed
  let ?rem = "int (length content) - start"
  let ?fail = "if ex_drop e \<and> ?rem > 1024 then int (ex_draw e mod nat (?rem - 512)) + 512 else - 1"
  obtain body ended where s: "send_loop content start ?rem ?fail (ex_writes e) 0 = (body, ended)" by fastforce
  have "prefix body (drop (nat (start + 0)) content) \<and> (ended \<longrightarrow> body = drop (nat (start + 0)) content)"
    using send_loop_body [OF refl start _ _ s] lt by simp
  then show "part_of (drop (nat (fst (requested_range h))) content) (serve_file content h e)"
    and "rp_status (serve_file content h e) = (if snd (requested_range h) then 206 else 200)"
    using r lt s by (simp_all add: serve_file_def part_of_def Let_def)
qed

lemma requested_range_whole: "\<not> snd (requested_range h) \<Longrightarrow> fst (requested_range h) = 0"
  by (auto simp: requested_range_def Let_def split: if_splits option.splits)

interpretation example: range_server content "serve_file content" for content
proof
  fix h e n
  show "part_of content (serve_file content h e)" if "rp_status (serve_file content h e) = 200"
    using serve_file_part [of content h e] requested_range_whole [of h] that by (simp split: if_splits)
  show "part_of (drop (nat n) content) (serve_file content (range_header n) e)"
    if "0 < n" "n \<le> max_int64" "rp_status (serve_file content (range_header n) e) = 206"
    using serve_file_part [of content "range_header n" e] that
    by (simp add: requested_range_header)
  show "rp_status (serve_file content [] e) \<noteq> 206"
    using serve_file_part(2) [of content "[]" e] by fastforce
qed

end
