(* ===== verification/Retry_Runs.thy ===== *)
theory Retry_Runs
  imports Entry_Points Slot_Balance
begin

text \<open>
  A calculus for what a program does when nobody else touches the shared components, whatever the
  clock does: preconditions and postconditions over the caller's state and the heap (\<open>run\<close>), with
  rules for the retry loop, one for each way an attempt can end, and for the entry points. The
  programs of \<^verbatim>\<open>examples\<close> are verified with it.
\<close>

section \<open>Undisturbed worlds\<close>

text \<open>
  \<open>r\<close> is the reference of the backoff of the call. A good jitter does not panic in the first 1024
  attempts.
\<close>

definition good_jitter :: "full_jitter \<Rightarrow> bool" where
  "good_jitter f \<longleftrightarrow> 0 \<le> fj_base f \<and> fj_base f < 2 ^ 53 \<and> 0 \<le> fj_cap f \<and> fj_cap f < 2 ^ 53"

definition undisturbed :: "nat \<Rightarrow> 'u world \<Rightarrow> bool" where
  "undisturbed r w \<longleftrightarrow> alone (orc w) \<and> good_jitter (h_jitters (heap w) r)"

lemma good_jitter_Next:
  assumes "good_jitter f" "a < 1024"
  shows "\<exists>d. fullJitter_Next oor f a draw = Inr d"
proof (cases "fj_base f = 0")
  case True
  have "rnd (0 * 2 ^ unat a) = Fin 0" by simp
  then have m: "max_delay f a \<le> Fin 0"
    using True assms f64_of_small [of "fj_cap f"] f64_of_small [of 0]
    by (auto simp: max_delay_def pow2_float_def good_jitter_def Let_def)
  then show ?thesis by (simp add: fullJitter_Next_def)
next
  case False
  have "f = NewFullJitter (fj_base f) (fj_cap f)" by (simp add: NewFullJitter_def)
  then show ?thesis
    using fullJitter_capped [of "fj_base f" "fj_cap f" oor a draw] assms False by (auto simp: good_jitter_def)
qed

section \<open>The triples\<close>

definition run ::
  "nat \<Rightarrow> ('u \<Rightarrow> shared \<Rightarrow> bool) \<Rightarrow> ('u, 'a) prog \<Rightarrow> ('a result \<Rightarrow> 'u \<Rightarrow> shared \<Rightarrow> bool) \<Rightarrow> bool" where
  "run r P m R \<longleftrightarrow> (\<forall>w. undisturbed r w \<and> P (user w) (heap w) \<longrightarrow>
     (\<exists>a w'. m w = (a, w') \<and> undisturbed r w' \<and> R a (user w') (heap w')))"

lemma runI:
  "(\<And>w. undisturbed r w \<Longrightarrow> P (user w) (heap w) \<Longrightarrow>
      \<exists>a w'. m w = (a, w') \<and> undisturbed r w' \<and> R a (user w') (heap w')) \<Longrightarrow> run r P m R"
  by (simp add: run_def)

lemma runE:
  assumes "run r P m R" "undisturbed r w" "P (user w) (heap w)"
  obtains a w' where "m w = (a, w')" "undisturbed r w'" "R a (user w') (heap w')"
  using assms by (auto simp: run_def)

lemma runD:
  assumes "run r P m R" "undisturbed r w" "P (user w) (heap w)" "m w = (a, w')"
  shows "R a (user w') (heap w')"
  using assms by (elim runE [where w = w]) auto

text \<open>The common form of a postcondition: a result, and a condition on the state.\<close>

definition returning :: "'a result \<Rightarrow> ('u \<Rightarrow> shared \<Rightarrow> bool) \<Rightarrow> 'a result \<Rightarrow> 'u \<Rightarrow> shared \<Rightarrow> bool" where
  "returning v Q = (\<lambda>a u h. a = v \<and> Q u h)"

lemma returning_apply [simp]: "returning v Q a u h \<longleftrightarrow> a = v \<and> Q u h"
  by (simp add: returning_def)

lemma run_weaken:
  "run r P' m R' \<Longrightarrow> (\<And>u h. P u h \<Longrightarrow> P' u h) \<Longrightarrow> (\<And>a u h. R' a u h \<Longrightarrow> R a u h) \<Longrightarrow> run r P m R"
  unfolding run_def by blast

lemma run_ret: "run r P (ret a) (returning (Ret a) P)"
  by (simp add: run_def)

lemma run_bind:
  assumes "run r P m (returning (Ret a) Q)" "run r Q (f a) R"
  shows "run r P (bind m f) R"
proof (rule runI)
  fix w :: "'a world"
  assume "undisturbed r w" "P (user w) (heap w)"
  with assms(1) obtain w1 where "m w = (Ret a, w1)" "undisturbed r w1" "Q (user w1) (heap w1)" by (auto elim: runE)
  with assms(2) show "\<exists>b w'. bind m f w = (b, w') \<and> undisturbed r w' \<and> R b (user w') (heap w')"
    by (auto elim: runE)
qed

text \<open>A step whose value decides how the rest goes, one whose value does not matter, and a panic.\<close>

lemma run_bind_value:
  assumes "run r P m (\<lambda>a u h. \<exists>v. a = Ret v \<and> Q v u h)" "\<And>v. run r (Q v) (f v) R"
  shows "run r P (bind m f) R"
proof (rule runI)
  fix w :: "'a world"
  assume "undisturbed r w" "P (user w) (heap w)"
  with assms(1) obtain v w1 where a: "m w = (Ret v, w1)" "undisturbed r w1" "Q v (user w1) (heap w1)" by (auto elim: runE)
  from runE [OF assms(2) a(2,3)] show "\<exists>b w'. bind m f w = (b, w') \<and> undisturbed r w' \<and> R b (user w') (heap w')"
    using a(1) by (metis bind_Ret)
qed

lemma run_bind_any:
  assumes "run r P m (\<lambda>a u h. (\<exists>v. a = Ret v) \<and> Q u h)" "\<And>a. run r Q (f a) R"
  shows "run r P (bind m f) R"
  by (rule run_bind_value [where Q = "\<lambda>_. Q"]) (use assms in simp_all)

lemma run_bind_panic:
  assumes "run r P m (returning (Panic p) Q)"
  shows "run r P (bind m f) (returning (Panic p) Q)"
proof (rule runI)
  fix w :: "'a world"
  assume "undisturbed r w" "P (user w) (heap w)"
  with assms(1) obtain w1 where "m w = (Panic p, w1)" "undisturbed r w1" "Q (user w1) (heap w1)" by (auto elim: runE)
  then show "\<exists>b w'. bind m f w = (b, w') \<and> undisturbed r w' \<and> returning (Panic p) Q b (user w') (heap w')" by simp
qed

lemma undisturbed_clock [simp]: "undisturbed r (clock_step w) = undisturbed r w"
  by (simp add: undisturbed_def)

lemma undisturbed_tick [simp]: "undisturbed r (w\<lparr>tick := n\<rparr>) = undisturbed r w" "undisturbed r (w\<lparr>now := t\<rparr>) = undisturbed r w"
  by (simp_all add: undisturbed_def)

lemma undisturbed_interfere [simp]: "undisturbed r w \<Longrightarrow> undisturbed r (interfere w)" "undisturbed r w \<Longrightarrow> heap (interfere w) = heap w"
  by (simp_all add: undisturbed_def)

lemma run_time_Now: "run r P time_Now (\<lambda>a u h. (\<exists>v. a = Ret v) \<and> P u h)"
  by (simp add: run_def time_Now_def Let_def)

lemma run_sleep:
  assumes "done_at x = None"
  shows "run r P (sleep x d) (returning (Ret None) P)"
  by (rule runI) (auto simp: sleep_def wait_timer_def assms Let_def)

lemma run_jitter: "a < 1024 \<Longrightarrow> run r P (backoff_Next (FullJitter r) a) (\<lambda>v u h. (\<exists>d. v = Ret d) \<and> P u h)"
proof (rule runI)
  fix w :: "'a world"
  assume "a < 1024" "undisturbed r w" "P (user w) (heap w)"
  moreover then obtain d where "fullJitter_Next (or_conv (orc w)) (h_jitters (heap w) r) a (or_draw (orc w) (Suc (tick w))) = Inr d"
    using good_jitter_Next undisturbed_def by metis
  ultimately show "\<exists>v w'. backoff_Next (FullJitter r) a w = (v, w') \<and> undisturbed r w' \<and> (\<exists>d. v = Ret d) \<and> P (user w') (heap w')"
    by (simp add: jitter_next_def interfere_def undisturbed_def alone_def Let_def)
qed

section \<open>The retry loop\<close>

text \<open>An error the loop retries, after the delay of its backoff or the one the error asks for.\<close>

definition retryable :: "('u, 't) config \<Rightarrow> go_error \<Rightarrow> bool" where
  "retryable c e \<longleftrightarrow> \<not> errors_Is e ErrCircuitOpen \<and> shouldRetry (Policy c) (Some e)
     \<and> (\<forall>d. errors_As as_retry_after e \<noteq> Some (d, True))"

lemma retryable_UserError [simp]: "Policy c = default_policy \<Longrightarrow> retryable c (UserError n)"
  by (simp add: retryable_def shouldRetry_default stops_def isFatal_def)

lemma run_start_value:
  assumes "\<And>t. run r P (act x ((attempt_state st attempt errs)\<lparr>TotalDuration := t\<rparr>)) (\<lambda>a u h. \<exists>err. a = Ret err \<and> Q err u h)"
    "attempt < MaxAttempts c"
    "\<And>err. run r (Q err) (case err of None \<Rightarrow> bind (success_token c) (\<lambda>_. ret None)
       | Some e \<Rightarrow> after_failure c x attempt errs e
           (retry_loop c act x start (attempt_state st attempt errs) (attempt + 1) (errs @ [e]))) R"
  shows "run r P (retry_loop c act x start st attempt errs) R"
proof -
  have "run r P (bind time_Now (\<lambda>t.
     bind (act x ((attempt_state st attempt errs)\<lparr>TotalDuration := time_Sub t start\<rparr>)) (\<lambda>err.
       case err of
         None \<Rightarrow> bind (success_token c) (\<lambda>_. ret None)
       | Some e \<Rightarrow> after_failure c x attempt errs e
           (retry_loop c act x start (attempt_state st attempt errs) (attempt + 1) (errs @ [e]))))) R"
    by (intro run_bind_any [OF run_time_Now] run_bind_value [OF assms(1)] assms(3))
  then show ?thesis by (simp add: run_def retry_loop_step [OF assms(2)])
qed

lemma run_start:
  assumes "\<And>t. run r P (act x ((attempt_state st attempt errs)\<lparr>TotalDuration := t\<rparr>)) (returning (Ret err) Q)"
    "attempt < MaxAttempts c"
    "run r Q (case err of None \<Rightarrow> bind (success_token c) (\<lambda>_. ret None)
       | Some e \<Rightarrow> after_failure c x attempt errs e
           (retry_loop c act x start (attempt_state st attempt errs) (attempt + 1) (errs @ [e]))) R"
  shows "run r P (retry_loop c act x start st attempt errs) R"
proof (rule run_start_value [where Q = "\<lambda>err' u h. err' = err \<and> Q u h"])
  show "run r P (act x ((attempt_state st attempt errs)\<lparr>TotalDuration := t\<rparr>)) (\<lambda>a u h. \<exists>err'. a = Ret err' \<and> err' = err \<and> Q u h)" for t
    by (rule run_weaken [OF assms(1)]) auto
qed (use assms(2,3) in \<open>auto simp: run_def\<close>)

lemma run_retry_success:
  assumes "\<And>st'. Attempt st' = attempt \<Longrightarrow> run r P (act x st') (returning (Ret None) Q)"
    "attempt < MaxAttempts c" "run r Q (success_token c) (returning (Ret ()) Q')"
  shows "run r P (retry_loop c act x start st attempt errs) (returning (Ret None) Q')"
proof (rule run_start [where err = None and Q = Q])
  show "run r Q (case None of None \<Rightarrow> bind (success_token c) (\<lambda>_. ret None) | Some e \<Rightarrow> F e) (returning (Ret None) Q')" for F
    unfolding option.case by (rule run_bind [OF assms(3) run_ret])
qed (use assms in \<open>auto simp: attempt_state_def Let_def\<close>)

lemma run_retry_panic:
  assumes "\<And>st'. Attempt st' = attempt \<Longrightarrow> run r P (act x st') (returning (Panic p) Q)" "attempt < MaxAttempts c"
  shows "run r P (retry_loop c act x start st attempt errs) (returning (Panic p) Q)"
proof (rule runI)
  fix w :: "'a world"
  assume w: "undisturbed r w" "P (user w) (heap w)"
  let ?st = "(attempt_state st attempt errs)\<lparr>TotalDuration := time_Sub (now (clock_step w)) start\<rparr>"
  have "Attempt ?st = attempt" by (simp add: attempt_state_def Let_def)
  from assms(1) [OF this] obtain w1 where "act x ?st (clock_step w) = (Panic p, w1)" "undisturbed r w1" "Q (user w1) (heap w1)"
    using w by (auto elim: runE [where w = "clock_step w"])
  then show "\<exists>a w'. retry_loop c act x start st attempt errs w = (a, w') \<and> undisturbed r w'
      \<and> returning (Panic p) Q a (user w') (heap w')"
    by (simp add: retry_loop_step [OF assms(2)])
qed

text \<open>The failure that ends the call.\<close>

lemma run_retry_last:
  assumes "\<And>st'. Attempt st' = attempt \<Longrightarrow> run r P (act x st') (returning (Ret (Some e)) Q)"
    "attempt < MaxAttempts c"
    "errors_Is e ErrCircuitOpen \<or> \<not> shouldRetry (Policy c) (Some e) \<or> MaxAttempts c \<le> attempt + 1"
  shows "run r P (retry_loop c act x start st attempt errs) (returning (Ret (Some (JoinErr (errs @ [e])))) Q)"
proof (rule run_start [where err = "Some e" and Q = Q])
  show "run r Q (case Some e of None \<Rightarrow> G | Some e \<Rightarrow> after_failure c x attempt errs e (F e))
      (returning (Ret (Some (JoinErr (errs @ [e])))) Q)" for F G
    using assms(3) run_ret [of r Q "joined (errs @ [e])"] by (auto simp: after_failure_def joined_simps)
qed (use assms in \<open>auto simp: attempt_state_def Let_def\<close>)

text \<open>A failure after which the loop goes on, with \<open>go\<close>.\<close>

lemma run_after_failure:
  assumes "attempt + 1 < MaxAttempts c" "attempt < 1023" "retryable c e" "done_at x = None" "Backoff c = FullJitter r"
    "run r Q (retry_token c) (returning (Ret True) Q')" "run r Q' go R"
  shows "run r Q (after_failure c x attempt errs e go) R"
proof -
  have a: "attempt < 1024" using assms(2) by (simp add: word_less_nat_alt)
  have d: "run r Q' (delay_and_retry c x attempt errs e go) R"
    unfolding delay_and_retry_def assms(5)
  proof (rule run_bind_any [OF run_jitter [OF a]])
    let ?go = "\<lambda>serr. case serr of Some e' \<Rightarrow> ret (joined (errs @ [e, e'])) | None \<Rightarrow> go"
    have "run r Q' (?go None) R" using assms(7) by simp
    note slept = run_bind [where f = ?go, OF run_sleep [OF assms(4)] this]
    have ask: "run r Q' (RetryAfter d) (\<lambda>a u h. (\<exists>v. a = Ret v) \<and> Q' u h)" for d
      by (cases d) (auto simp: RetryAfter_def run_def)
    show "run r Q' (case errors_As as_retry_after e of Some (d, True) \<Rightarrow> ret (joined (errs @ [e]))
       | ra \<Rightarrow> bind (case ra of Some (d, _) \<Rightarrow> RetryAfter d | None \<Rightarrow> ret delay) (\<lambda>delay. bind (sleep x delay) ?go)) R" for delay
      using assms(3) run_bind_any [OF ask slept] slept by (auto simp: retryable_def split: option.split bool.split)
  qed
  have "run r Q (bind (retry_token c) (\<lambda>paid. if \<not> paid then ret (joined (errs @ [e])) else delay_and_retry c x attempt errs e go)) R"
    by (rule run_bind [OF assms(6)]) (simp add: d)
  then show ?thesis using assms(1,3) by (auto simp: after_failure_def retryable_def simp flip: not_less)
qed

lemma attempt_below: "(attempt :: u64) + 1 < m \<Longrightarrow> attempt < 1023 \<Longrightarrow> attempt < m"
proof -
  assume "attempt + 1 < m" "attempt < 1023"
  moreover then have "unat (attempt + 1) = Suc (unat attempt)" by (intro unat_add_one) (simp add: word_less_nat_alt)
  ultimately show ?thesis by (simp add: word_less_nat_alt)
qed

lemma run_retry_again:
  assumes "\<And>st'. Attempt st' = attempt \<Longrightarrow> run r P (act x st') (returning (Ret (Some e)) Q)"
    "attempt + 1 < MaxAttempts c" "attempt < 1023" "retryable c e" "done_at x = None" "Backoff c = FullJitter r"
    "run r Q (retry_token c) (returning (Ret True) Q')"
    "\<And>st'. run r Q' (retry_loop c act x start st' (attempt + 1) (errs @ [e])) R"
  shows "run r P (retry_loop c act x start st attempt errs) R"
proof (rule run_start [where err = "Some e" and Q = Q])
  show "attempt < MaxAttempts c" using assms(2,3) by (rule attempt_below)
qed (use assms(1) run_after_failure [OF assms(2-8)] in \<open>auto simp: attempt_state_def Let_def\<close>)

text \<open>The tokens of a call without a bucket.\<close>

lemma run_no_bucket:
  "AdaptiveBucket c = None \<Longrightarrow> run r P (retry_token c) (returning (Ret True) P)"
  "AdaptiveBucket c = None \<Longrightarrow> run r P (success_token c) (returning (Ret ()) P)"
  by (simp_all add: retry_token_def success_token_def run_ret)

section \<open>The entry points\<close>

text \<open>
  A call whose configuration has only the retry loop in front of a chain of middlewares; the
  deadline check passes a context without deadline on, and there is no instrumenter.
\<close>

lemma run_time_prefix: "run r P m R \<Longrightarrow> run r P (bind time_Now (\<lambda>_. m)) R"
  by (rule run_bind_any [OF run_time_Now])

lemma run_retry:
  assumes "\<And>start. run r P (retry_loop c act x start st 0 []) R"
  shows "run r P (retryMiddleware c act x st) R"
  unfolding retryMiddleware_def by (rule run_bind_any [OF run_time_Now assms])

text \<open>
  A call whose attempts all fail. The condition before the \<open>k\<close>-th attempt is \<open>P k\<close>, the one
  after it \<open>F k\<close>, and the retry token leads from that to \<open>P (Suc k)\<close>.
\<close>

lemma run_exhausts_loop:
  assumes "\<And>k st'. k < unat (MaxAttempts c) \<Longrightarrow> run r (P k) (act x st') (returning (Ret (Some e)) (F k))"
    "\<And>k. Suc k < unat (MaxAttempts c) \<Longrightarrow> run r (F k) (retry_token c) (returning (Ret True) (P (Suc k)))"
    "MaxAttempts c < 1024" "retryable c e" "done_at x = None" "Backoff c = FullJitter r"
    "unat attempt + Suc n = unat (MaxAttempts c)"
  shows "run r (P (unat attempt)) (retry_loop c act x start st attempt errs)
    (returning (Ret (Some (JoinErr (errs @ replicate (Suc n) e)))) (F (unat (MaxAttempts c) - 1)))"
  using assms(7)
proof (induction n arbitrary: attempt st errs)
  case 0
  then have lt: "attempt < MaxAttempts c" by (simp add: word_less_nat_alt)
  then have "unat (attempt + 1) = unat (MaxAttempts c)" using 0 attempt_next [OF lt] by simp
  then have "MaxAttempts c \<le> attempt + 1" by (simp add: word_le_nat_alt)
  then have "run r (P (unat attempt)) (retry_loop c act x start st attempt errs)
      (returning (Ret (Some (JoinErr (errs @ [e])))) (F (unat attempt)))"
    using assms(1) [of "unat attempt"] lt 0 by (intro run_retry_last) simp_all
  moreover have "unat (MaxAttempts c) - 1 = unat attempt" "replicate (Suc 0) e = [e]" using 0 by simp_all
  ultimately show ?case by (simp only:)
next
  case (Suc n)
  then have lt: "attempt < MaxAttempts c" by (simp add: word_less_nat_alt)
  have n: "unat (attempt + 1) = Suc (unat attempt)" using attempt_next [OF lt] .
  have more: "attempt + 1 < MaxAttempts c" using Suc.prems n by (simp add: word_less_nat_alt)
  have small: "unat (MaxAttempts c) < 1024" using assms(3) by (simp add: word_less_nat_alt)
  show ?case
  proof (rule run_retry_again [where e = e and Q = "F (unat attempt)" and Q' = "P (Suc (unat attempt))"])
    show "attempt < 1023" using Suc.prems small by (simp add: word_less_nat_alt)
    show "run r (P (Suc (unat attempt))) (retry_loop c act x start st' (attempt + 1) (errs @ [e]))
      (returning (Ret (Some (JoinErr (errs @ replicate (Suc (Suc n)) e)))) (F (unat (MaxAttempts c) - 1)))" for st'
    proof -
      have "unat (attempt + 1) + Suc n = unat (MaxAttempts c)" "(errs @ [e]) @ replicate (Suc n) e = errs @ replicate (Suc (Suc n)) e"
        using Suc.prems n by simp_all
      then show ?thesis using Suc.IH [of "attempt + 1" st' "errs @ [e]"] n by (simp only:)
    qed
  qed (use assms more Suc.prems in simp_all)
qed

lemma run_exhausts:
  assumes "\<And>k st'. k < unat (MaxAttempts c) \<Longrightarrow> run r (P k) (act x st') (returning (Ret (Some e)) (F k))"
    "\<And>k. Suc k < unat (MaxAttempts c) \<Longrightarrow> run r (F k) (retry_token c) (returning (Ret True) (P (Suc k)))"
    "0 < MaxAttempts c" "MaxAttempts c < 1024" "retryable c e" "done_at x = None" "Backoff c = FullJitter r"
  shows "run r (P 0) (retryMiddleware c act x st)
    (returning (Ret (Some (JoinErr (replicate (unat (MaxAttempts c)) e)))) (F (unat (MaxAttempts c) - 1)))"
proof -
  obtain n where n: "unat (MaxAttempts c) = Suc n"
    using assms(3) by (metis Suc_pred unat_gt_0 word_greater_zero_iff)
  show ?thesis
    using run_exhausts_loop [where attempt = 0 and errs = "[]" and n = n and P = P and F = F and e = e and c = c and r = r and act = act and x = x, OF assms(1,2,4-7)] n
    by (intro run_retry) simp
qed

text \<open>
  A call whose attempts succeed or fail as chance has it: with one of the errors of \<open>E\<close>, and
  \<open>P k\<close> after \<open>k\<close> failures.
\<close>

lemma run_mixed_loop:
  assumes act: "\<And>k st'. k < unat (MaxAttempts c) \<Longrightarrow> run r (P k) (act x st') (\<lambda>a u h. \<exists>err. a = Ret err
      \<and> (err = None \<and> Q u h \<or> (\<exists>e \<in> E. err = Some e \<and> P (Suc k) u h)))"
    and c: "AdaptiveBucket c = None" "MaxAttempts c < 1024" "\<And>e. e \<in> E \<Longrightarrow> retryable c e" "done_at x = None" "Backoff c = FullJitter r"
    and n: "unat attempt + Suc n = unat (MaxAttempts c)"
  shows "run r (P (unat attempt)) (retry_loop c act x start st attempt errs) (\<lambda>a u h. a = Ret None \<and> Q u h
    \<or> (\<exists>es. a = Ret (Some (JoinErr (errs @ es))) \<and> length es = Suc n \<and> set es \<subseteq> E \<and> P (unat (MaxAttempts c)) u h))"
  using n
proof (induction n arbitrary: attempt st errs)
  case 0
  then have lt: "attempt < MaxAttempts c" by (simp add: word_less_nat_alt)
  have "MaxAttempts c \<le> attempt + 1" using 0 attempt_next [OF lt] by (simp add: word_le_nat_alt)
  then have stop: "after_failure c x attempt errs e go = ret (joined (errs @ [e]))" for e go
    by (simp add: after_failure_def del: ret_apply)
  let ?Q = "\<lambda>err u h. err = None \<and> Q u h \<or> (\<exists>e \<in> E. err = Some e \<and> P (Suc (unat attempt)) u h)"
  show ?case
  proof (rule run_start_value [where Q = ?Q], rule act, rule lt [unfolded word_less_nat_alt], rule lt)
    show "run r (?Q err) (case err of None \<Rightarrow> bind (success_token c) (\<lambda>_. ret None)
       | Some e \<Rightarrow> after_failure c x attempt errs e (retry_loop c act x start (attempt_state st attempt errs) (attempt + 1) (errs @ [e])))
      (\<lambda>a u h. a = Ret None \<and> Q u h \<or> (\<exists>es. a = Ret (Some (JoinErr (errs @ es))) \<and> length es = Suc 0 \<and> set es \<subseteq> E
        \<and> P (unat (MaxAttempts c)) u h))" for err
      using 0 by (cases err) (auto simp: run_def stop joined_simps success_token_def c(1) intro!: exI [of _ "[the err]"])
  qed
next
  case (Suc n)
  then have lt: "attempt < MaxAttempts c" by (simp add: word_less_nat_alt)
  have next1: "unat (attempt + 1) = Suc (unat attempt)" using attempt_next [OF lt] .
  have more: "attempt + 1 < MaxAttempts c" using Suc.prems next1 by (simp add: word_less_nat_alt)
  have small: "attempt < 1023" using c(2) Suc.prems by (simp add: word_less_nat_alt)
  let ?R = "\<lambda>a u h. a = Ret None \<and> Q u h \<or> (\<exists>es. a = Ret (Some (JoinErr (errs @ es))) \<and> length es = Suc (Suc n) \<and> set es \<subseteq> E
    \<and> P (unat (MaxAttempts c)) u h)"
  let ?go = "\<lambda>e. retry_loop c act x start (attempt_state st attempt errs) (attempt + 1) (errs @ [e])"
  have failed: "run r (P (Suc (unat attempt))) (after_failure c x attempt errs e (?go e)) ?R" if e: "e \<in> E" for e
  proof (rule run_after_failure [OF more small c(3) [OF e] c(4,5) run_no_bucket(1) [OF c(1)]])
    have "unat (attempt + 1) + Suc n = unat (MaxAttempts c)" using Suc.prems next1 by simp
    from Suc.IH [OF this, of "attempt_state st attempt errs" "errs @ [e]"]
    show "run r (P (Suc (unat attempt))) (?go e) ?R"
      unfolding next1 by (rule run_weaken) (use e in \<open>auto intro: exI [of _ "e # _"]\<close>)
  qed
  let ?Q = "\<lambda>err u h. err = None \<and> Q u h \<or> (\<exists>e \<in> E. err = Some e \<and> P (Suc (unat attempt)) u h)"
  show ?case
  proof (rule run_start_value [where Q = ?Q], rule act, rule lt [unfolded word_less_nat_alt], rule lt)
    show "run r (?Q err) (case err of None \<Rightarrow> bind (success_token c) (\<lambda>_. ret None)
       | Some e' \<Rightarrow> after_failure c x attempt errs e' (?go e')) ?R" for err
      using failed by (cases err) (auto simp: run_def success_token_def c(1))
  qed
qed

lemma run_mixed_any:
  assumes "\<And>k st'. k < unat (MaxAttempts c) \<Longrightarrow> run r (P k) (act x st') (\<lambda>a u h. \<exists>err. a = Ret err
      \<and> (err = None \<and> Q u h \<or> (\<exists>e \<in> E. err = Some e \<and> P (Suc k) u h)))"
    "AdaptiveBucket c = None" "MaxAttempts c < 1024" "\<And>e. e \<in> E \<Longrightarrow> retryable c e" "done_at x = None" "Backoff c = FullJitter r"
    "0 < MaxAttempts c"
  shows "run r (P 0) (retryMiddleware c act x st) (\<lambda>a u h. a = Ret None \<and> Q u h
    \<or> (\<exists>es. a = Ret (Some (JoinErr es)) \<and> length es = unat (MaxAttempts c) \<and> set es \<subseteq> E \<and> P (unat (MaxAttempts c)) u h))"
proof -
  obtain n where n: "unat (MaxAttempts c) = Suc n"
    using assms(7) by (metis Suc_pred unat_gt_0 word_greater_zero_iff)
  have "run r (P (unat (0 :: u64))) (retry_loop c act x start st 0 []) (\<lambda>a u h. a = Ret None \<and> Q u h
    \<or> (\<exists>es. a = Ret (Some (JoinErr ([] @ es))) \<and> length es = Suc n \<and> set es \<subseteq> E \<and> P (unat (MaxAttempts c)) u h))" for start
    by (rule run_mixed_loop [where attempt = 0 and errs = "[]" and P = P and act = act and x = x and Q = Q and E = E and c = c and r = r])
      (use assms n in simp_all)
  then show ?thesis using n by (intro run_retry) simp
qed

lemma run_mixed:
  assumes "\<And>st'. run r P (act x st') (\<lambda>a u h. \<exists>err. a = Ret err \<and> (err = None \<and> Q u h \<or> err = Some e \<and> P u h))"
    "AdaptiveBucket c = None" "MaxAttempts c < 1024" "retryable c e" "done_at x = None" "Backoff c = FullJitter r" "0 < MaxAttempts c"
  shows "run r P (retryMiddleware c act x st) (\<lambda>a u h. a = Ret None \<and> Q u h
    \<or> a = Ret (Some (JoinErr (replicate (unat (MaxAttempts c)) e))) \<and> P u h)"
proof (rule run_weaken [OF run_mixed_any [where P = "\<lambda>_. P" and Q = Q and E = "{e}"]])
  show "a = Ret None \<and> Q u h \<or> (\<exists>es. a = Ret (Some (JoinErr es)) \<and> length es = unat (MaxAttempts c) \<and> set es \<subseteq> {e} \<and> P u h) \<Longrightarrow>
      a = Ret None \<and> Q u h \<or> a = Ret (Some (JoinErr (replicate (unat (MaxAttempts c)) e))) \<and> P u h" for a u h
    by (metis insert_iff replicate_eqI singletonD subsetD)
qed (use assms in simp_all)

text \<open>A call that succeeds at the third attempt.\<close>

lemma run_third_time:
  assumes "\<And>st'. Attempt st' = 0 \<Longrightarrow> run r P (act x st') (returning (Ret (Some e)) P1)"
    "\<And>st'. Attempt st' = 1 \<Longrightarrow> run r P1 (act x st') (returning (Ret (Some e')) P2)"
    "\<And>st'. Attempt st' = 2 \<Longrightarrow> run r P2 (act x st') (returning (Ret None) Q)"
    "2 < MaxAttempts c" "retryable c e" "retryable c e'" "done_at x = None" "Backoff c = FullJitter r" "AdaptiveBucket c = None"
  shows "run r P (retryMiddleware c act x st) (returning (Ret None) Q)"
proof (rule run_retry, rule run_retry_again)
  have m: "2 < unat (MaxAttempts c)" using assms(4) by (simp add: word_less_nat_alt)
  then show "(0 :: u64) + 1 < MaxAttempts c" by (simp add: word_less_nat_alt)
  show "run r P1 (retry_loop c act x start st' (0 + 1) ([] @ [e])) (returning (Ret None) Q)" for st' start
  proof (rule run_retry_again)
    show "(0 + 1 :: u64) + 1 < MaxAttempts c" using assms(4) by simp
    show "run r P2 (retry_loop c act x start st' (0 + 1 + 1) (([] @ [e]) @ [e'])) (returning (Ret None) Q)" for st'
      by (rule run_retry_success [where Q = Q]) (use assms in \<open>auto intro: run_no_bucket\<close>)
  qed (use assms in \<open>auto intro: run_no_bucket simp: word_less_nat_alt\<close>)
qed (use assms in \<open>auto intro: run_no_bucket simp: word_less_nat_alt\<close>)

lemma error_fallback_none: "Fallback c = NoFallback \<Longrightarrow> error_fallback c x m = m"
  by (auto simp: error_fallback_def fun_eq_iff bind_def split: option.split prod.split result.split)

lemma value_fallback_none: "Fallback c = NoFallback \<Longrightarrow> value_fallback c x m = m"
  by (auto simp: value_fallback_def fun_eq_iff bind_def split: option.split prod.split result.split)

lemma run_DoErr:
  assumes "fresh c" "Fallback c = NoFallback"
    "run r P (compose c (default_middlewares c) (terminalAction (Some (\<lambda>x _. action x)) None) x (initial_state c)) R"
  shows "run r P (DoErr c x action) R"
  using assms(3) by (simp add: DoErr_def DoErrState_def error_fallback_none [OF assms(2)] execute_fresh [OF assms(1)])

text \<open>The execution of a policy, whose pipeline was recorded by its options.\<close>

lemma execute_recorded:
  assumes "pipeline c = Some ms" "composedPipeline c = None" "ms \<noteq> []"
  shows "execute c x a s = compose c ms (terminalAction a s) x (initial_state c)"
proof -
  have g: "getComposedPipeline c = (ms, c\<lparr>pipeline := Some ms, composedPipeline := Some ms\<rparr>)"
    using assms by (simp add: getComposedPipeline_def current_pipeline_def Let_def)
  show ?thesis
    unfolding execute_def g Let_def prod.case by (simp only: compose_pipeline) (simp add: initial_state_def)
qed

text \<open>A value-returning call, over the pair of the caller's state and the variable.\<close>

lemma run_lift:
  assumes "run r P m R"
  shows "run r (\<lambda>u h. P (fst u) h \<and> snd u = v) (lift m) (\<lambda>a u h. R a (fst u) h \<and> snd u = v)"
proof (rule runI)
  fix w :: "('a \<times> 'c) world"
  assume w: "undisturbed r w" "P (fst (user w)) (heap w) \<and> snd (user w) = v"
  let ?w = "with_user (fst (user w)) w"
  have "undisturbed r ?w" "P (user ?w) (heap ?w)" using w by (simp_all add: undisturbed_def with_user_def)
  with assms obtain a w' where "m ?w = (a, w')" "undisturbed r w'" "R a (user w') (heap w')" by (rule runE)
  then show "\<exists>a w'. lift m w = (a, w') \<and> undisturbed r w' \<and> R a (fst (user w')) (heap w') \<and> snd (user w') = v"
    using w by (simp add: lift_def with_user_def undisturbed_def)
qed

lemma run_assigning_any:
  assumes "run r P (action x st) (\<lambda>a u h. \<exists>v err. a = Ret (v, err) \<and> Q v err u h)"
  shows "run r (\<lambda>u h. P (fst u) h) (assigning action x st) (\<lambda>a u h. \<exists>err. a = Ret err \<and> Q (snd u) err (fst u) h)"
proof (rule runI)
  fix w :: "('a \<times> 'b) world"
  assume w: "undisturbed r w" "P (fst (user w)) (heap w)"
  from runE [OF run_lift [OF assms] w(1), of "snd (user w)"] w(2)
  obtain v err w' where "lift (action x st) w = (Ret (v, err), w')" "undisturbed r w'" "Q v err (fst (user w')) (heap w')" by blast
  then show "\<exists>a w'. assigning action x st w = (a, w') \<and> undisturbed r w' \<and> (\<exists>err. a = Ret err \<and> Q (snd (user w')) err (fst (user w')) (heap w'))"
    by (simp add: assigning_def undisturbed_def)
qed

lemma run_assigning:
  assumes "run r P (action x st) (returning (Ret (v, err)) Q)"
  shows "run r (\<lambda>u h. P (fst u) h) (assigning action x st) (returning (Ret err) (\<lambda>u h. Q (fst u) h \<and> snd u = v))"
proof -
  have "run r (\<lambda>u h. P (fst u) h) (assigning action x st) (\<lambda>a u h. \<exists>e. a = Ret e \<and> (snd u = v \<and> e = err \<and> Q (fst u) h))"
    by (rule run_assigning_any [where Q = "\<lambda>v' e u h. v' = v \<and> e = err \<and> Q u h"]) (rule run_weaken [OF assms], auto)
  then show ?thesis by (rule run_weaken) auto
qed

lemma run_assigning_err:
  "run r P (action x st) (returning (Ret (v, Some e)) Q) \<Longrightarrow>
     run r (\<lambda>u. P (fst u)) (assigning action x st) (returning (Ret (Some e)) (\<lambda>u. Q (fst u)))"
  by (rule run_weaken [OF run_assigning [where P = P and Q = Q and v = v and err = "Some e"]]) auto

lemma run_assigning_panic:
  assumes "run r P (action x st) (returning (Panic p) Q)"
  shows "run r (\<lambda>u h. P (fst u) h) (assigning action x st) (returning (Panic p) (\<lambda>u h. Q (fst u) h))"
proof (rule runI)
  fix w :: "('a \<times> 'b) world"
  assume w: "undisturbed r w" "P (fst (user w)) (heap w)"
  from runE [OF run_lift [OF assms] w(1), of "snd (user w)"] w(2)
  obtain a w' where "lift (action x st) w = (a, w')" "undisturbed r w'"
    "returning (Panic p) Q a (fst (user w')) (heap w') \<and> snd (user w') = snd (user w)" by blast
  then show "\<exists>a w'. assigning action x st w = (a, w') \<and> undisturbed r w'
      \<and> returning (Panic p) (\<lambda>u h. Q (fst u) h) a (user w') (heap w')"
    by (simp add: assigning_def undisturbed_def)
qed

lemma run_execute_value_any:
  fixes c :: "('u, 'a) config" and zero :: 't
  assumes "fresh c" "run r (\<lambda>u h. P (fst u) h \<and> snd u = zero)
    (compose (lift_config c :: ('u \<times> 't, unit) config) (default_middlewares (lift_config c :: ('u \<times> 't, unit) config))
       (terminalAction (Some (assigning action)) None) x (initial_state (lift_config c :: ('u \<times> 't, unit) config)))
    (\<lambda>a u h. \<exists>err. a = Ret err \<and> Q (snd u) err (fst u) h)"
  shows "run r P (execute_value c x zero action) (\<lambda>a u h. \<exists>v err. a = Ret (v, err) \<and> Q v err u h)"
proof (rule runI)
  fix w :: "'u world"
  assume w: "undisturbed r w" "P (user w) (heap w)"
  let ?w = "with_user (user w, zero) w"
  have "undisturbed r ?w" "P (fst (user ?w)) (heap ?w) \<and> snd (user ?w) = zero" using w by (simp_all add: undisturbed_def with_user_def)
  with assms(2) obtain err w' where "execute (lift_config c :: ('u \<times> 't, unit) config) x (Some (assigning action)) None ?w = (Ret err, w')"
    "undisturbed r w'" "Q (snd (user w')) err (fst (user w')) (heap w')"
    using assms(1) by (auto simp: execute_fresh elim!: runE)
  then show "\<exists>a w'. execute_value c x zero action w = (a, w') \<and> undisturbed r w' \<and> (\<exists>v err. a = Ret (v, err) \<and> Q v err (user w') (heap w'))"
    by (simp add: execute_value_def undisturbed_def with_user_def)
qed

lemma run_execute_value:
  fixes c :: "('u, 'a) config" and zero :: 't
  assumes "fresh c" "run r (\<lambda>u h. P (fst u) h)
    (compose (lift_config c :: ('u \<times> 't, unit) config) (default_middlewares (lift_config c :: ('u \<times> 't, unit) config))
       (terminalAction (Some (assigning action)) None) x (initial_state (lift_config c :: ('u \<times> 't, unit) config)))
    (returning (Ret err) (\<lambda>u h. Q (fst u) h \<and> snd u = v))"
  shows "run r P (execute_value c x zero action) (returning (Ret (v, err)) Q)"
proof -
  have "run r P (execute_value c x zero action) (\<lambda>a u h. \<exists>v' e. a = Ret (v', e) \<and> (v' = v \<and> e = err \<and> Q u h))"
    by (rule run_execute_value_any [OF assms(1)], rule run_weaken [OF assms(2)]) auto
  then show ?thesis by (rule run_weaken) auto
qed

text \<open>The value fallback is consulted after a failure.\<close>

lemma run_DoState_ok:
  assumes "run r P (execute_value c x zero action) (returning (Ret (v, None)) Q)"
  shows "run r P (DoState c x zero action) (returning (Ret (v, None)) Q)"
  unfolding DoState_def value_fallback_def by (rule run_bind [OF assms]) (simp add: run_ret)

lemma run_DoState_fallback:
  assumes "run r P (execute_value c x zero action) (returning (Ret (v, Some e)) Q)" "Fallback c = FallbackValue f" "run r Q (f x e) R"
  shows "run r P (DoState c x zero action) R"
  unfolding DoState_def value_fallback_def by (rule run_bind [OF assms(1)]) (simp add: assms)

lemma run_DoErr_fallback:
  assumes "fresh c" "Fallback c = FallbackErr f"
    "run r P (compose c (default_middlewares c) (terminalAction (Some (\<lambda>x _. action x)) None) x (initial_state c))
       (returning (Ret (Some e)) Q)"
    "run r Q (f x e) R"
  shows "run r P (DoErr c x action) R"
  unfolding DoErr_def DoErrState_def error_fallback_def execute_fresh [OF assms(1)]
  by (rule run_bind [OF assms(3)]) (simp add: assms)

text \<open>In front of the action, under the background context and without an instrumenter.\<close>

lemma plain_chain [simp]:
  "deadlineMiddleware c act Background st = act Background st"
  "Instrumenter c = None \<Longrightarrow> instrumenterMiddleware c act x st = act x st"
  by (simp_all add: deadlineMiddleware_def Background_def instrumenterMiddleware_def)

lemma terminalAction_simps [simp]:
  "terminalAction (Some act) None = act" "terminalAction None (Some f) x st = f x"
  by (simp_all add: terminalAction_def fun_eq_iff)

lemma done_at_Background [simp]: "done_at Background = None"
  by (simp add: done_at_def Background_def)

lemma lift_config_fields [simp]:
  "Instrumenter (lift_config c) = map_option lift_instrumenter (Instrumenter c)" "Backoff (lift_config c) = lift_backoff (Backoff c)"
  "Policy (lift_config c) = Policy c" "AdaptiveBucket (lift_config c) = AdaptiveBucket c"
  "CircuitBreaker (lift_config c) = CircuitBreaker c" "RecoverPanics (lift_config c) = RecoverPanics c"
  "Timeout (lift_config c) = Timeout c" "Chaos (lift_config c) = Chaos c" "Bulkhead (lift_config c) = Bulkhead c"
  by (simp_all add: lift_config_def)

lemma default_lift [simp]: "default_middlewares (lift_config c) = default_middlewares c"
  by (simp add: default_middlewares_def)

text \<open>
  A value-returning call that succeeds at the third attempt, for any chain \<open>ms\<close> behind the
  retries and the deadline check.
\<close>

lemma retryable_lift_config [simp]: "retryable (lift_config c) e = retryable c e"
  by (simp add: retryable_def)

lemma run_value_chain_third_time:
  fixes c :: "('u, 'a) config" and zero :: 't
  defines "c' \<equiv> lift_config c :: ('u \<times> 't, unit) config"
  assumes "fresh c" "default_middlewares c = MwRetry # MwDeadline # ms"
    "Backoff c = FullJitter r" "AdaptiveBucket c = None" "2 < MaxAttempts c" "retryable c e" "retryable c e'"
    "\<And>st'. Attempt st' = 0 \<Longrightarrow> run r (\<lambda>u. P (fst u)) (compose c' ms (assigning action) Background st')
       (returning (Ret (Some e)) (\<lambda>u. P1 (fst u)))"
    "\<And>st'. Attempt st' = 1 \<Longrightarrow> run r (\<lambda>u. P1 (fst u)) (compose c' ms (assigning action) Background st')
       (returning (Ret (Some e')) (\<lambda>u. P2 (fst u)))"
    "\<And>st'. Attempt st' = 2 \<Longrightarrow> run r (\<lambda>u. P2 (fst u)) (compose c' ms (assigning action) Background st')
       (returning (Ret None) (\<lambda>u h. Q (fst u) h \<and> snd u = v))"
  shows "run r P (execute_value c Background zero action) (returning (Ret (v, None)) Q)"
proof (rule run_execute_value [OF assms(2)], unfold default_lift assms(3))
  have "run r (\<lambda>u. P (fst u)) (retryMiddleware c' (deadlineMiddleware c' (compose c' ms (assigning action))) Background st)
      (returning (Ret None) (\<lambda>u h. Q (fst u) h \<and> snd u = v))" for st
    by (rule run_third_time [where e = e and e' = e' and ?P1.0 = "\<lambda>u. P1 (fst u)" and ?P2.0 = "\<lambda>u. P2 (fst u)"])
      (use assms(4-11) in \<open>simp_all add: c'_def\<close>)
  then show "run r (\<lambda>u. P (fst u)) (compose (lift_config c :: ('u \<times> 't, unit) config) (MwRetry # MwDeadline # ms)
      (terminalAction (Some (assigning action)) None) Background (initial_state (lift_config c :: ('u \<times> 't, unit) config)))
      (returning (Ret None) (\<lambda>u h. Q (fst u) h \<and> snd u = v))" by (simp add: c'_def)
qed

text \<open>Under the default pipeline.\<close>

lemma run_value_third_time:
  fixes c :: "('u, 'a) config" and zero :: 't
  assumes "fresh c" "default_middlewares c = [MwRetry, MwDeadline, MwInstrumenter]" "Instrumenter c = None"
    "Backoff c = FullJitter r" "AdaptiveBucket c = None" "2 < MaxAttempts c" "Policy c = default_policy"
    "\<And>st'. Attempt st' = 0 \<Longrightarrow> run r P (action Background st') (returning (Ret (v1, Some (UserError n))) P1)"
    "\<And>st'. Attempt st' = 1 \<Longrightarrow> run r P1 (action Background st') (returning (Ret (v2, Some (UserError m))) P2)"
    "\<And>st'. Attempt st' = 2 \<Longrightarrow> run r P2 (action Background st') (returning (Ret (v, None)) Q)"
  shows "run r P (execute_value c Background zero action) (returning (Ret (v, None)) Q)"
proof (rule run_value_chain_third_time [where e = "UserError n" and e' = "UserError m" and ?P1.0 = P1 and ?P2.0 = P2, OF assms(1,2)])
  let ?act = "\<lambda>st. compose (lift_config c :: ('u \<times> 't, unit) config) [MwInstrumenter] (assigning action) Background st"
  fix st' :: retry_state
  show "run r (\<lambda>u. P (fst u)) (?act st') (returning (Ret (Some (UserError n))) (\<lambda>u. P1 (fst u)))" if "Attempt st' = 0"
    using run_assigning_err [where P = P and Q = P1 and action = action, OF assms(8) [OF that]] assms(3) by simp
  show "run r (\<lambda>u. P1 (fst u)) (?act st') (returning (Ret (Some (UserError m))) (\<lambda>u. P2 (fst u)))" if "Attempt st' = 1"
    using run_assigning_err [where P = P1 and Q = P2 and action = action, OF assms(9) [OF that]] assms(3) by simp
  show "run r (\<lambda>u. P2 (fst u)) (?act st') (returning (Ret None) (\<lambda>u h. Q (fst u) h \<and> snd u = v))" if "Attempt st' = 2"
    using run_assigning [where P = P2 and Q = Q and action = action, OF assms(10) [OF that]] assms(3) by simp
qed (use assms(4-7) in simp_all)

text \<open>A value-returning call under the default pipeline whose attempts all fail.\<close>

lemma run_value_exhausts:
  fixes c :: "('u, 'a) config" and zero :: 't
  assumes "fresh c" "default_middlewares c = [MwRetry, MwDeadline, MwInstrumenter]" "Instrumenter c = None"
    "Backoff c = FullJitter r" "AdaptiveBucket c = None" "0 < MaxAttempts c" "MaxAttempts c < 1024" "retryable c e"
    "\<And>st'. run r P (action Background st') (returning (Ret (v, Some e)) P)"
  shows "run r P (execute_value c Background zero action)
    (returning (Ret (v, Some (JoinErr (replicate (unat (MaxAttempts c)) e)))) P)"
proof (rule run_execute_value [OF assms(1)], unfold default_lift assms(2))
  let ?c = "lift_config c :: ('u \<times> 't, unit) config"
  let ?F = "\<lambda>(k :: nat) u h. P (fst u) h \<and> snd u = v"
  have a: "run r (\<lambda>u. P (fst u)) (assigning action Background st') (returning (Ret (Some e)) (?F k))" for st' and k :: nat
    using run_assigning [where P = P and Q = P and action = action, OF assms(9)] .
  have "run r (\<lambda>u. P (fst u)) (retryMiddleware ?c (deadlineMiddleware ?c (instrumenterMiddleware ?c (assigning action))) Background st)
      (returning (Ret (Some (JoinErr (replicate (unat (MaxAttempts ?c)) e)))) (?F (unat (MaxAttempts ?c) - 1)))" for st
  proof (rule run_exhausts [where P = "\<lambda>_ u. P (fst u)" and F = ?F])
    show "run r (?F k) (retry_token ?c) (returning (Ret True) (\<lambda>u. P (fst u)))" for k :: nat
      using run_weaken [OF run_no_bucket(1) [of ?c r "?F k"], of "?F k" "returning (Ret True) (\<lambda>u. P (fst u))"] assms(5) by simp
  qed (use a assms(3-8) in simp_all)
  then show "run r (\<lambda>u. P (fst u)) (compose ?c [MwRetry, MwDeadline, MwInstrumenter]
      (terminalAction (Some (assigning action)) None) Background (initial_state ?c))
      (returning (Ret (Some (JoinErr (replicate (unat (MaxAttempts c)) e)))) (\<lambda>u h. P (fst u) h \<and> snd u = v))" by simp
qed

text \<open>A recovered panic is the error of the attempt.\<close>

lemma run_recovered:
  "run r P (act x st) (returning (Panic p) Q) \<Longrightarrow>
     run r P (panicRecoveryMiddleware act x st) (returning (Ret (Some (PanicError p))) Q)"
  "run r P (act x st) (returning (Ret e) Q) \<Longrightarrow> run r P (panicRecoveryMiddleware act x st) (returning (Ret e) Q)"
  by (fastforce simp: run_def panicRecoveryMiddleware_def)+

lemma retryable_PanicError [simp]: "Policy c = default_policy \<Longrightarrow> retryable c (PanicError p)"
  by (simp add: retryable_def shouldRetry_default stops_def isFatal_def)

text \<open>A call through the circuit breaker at \<open>k\<close> that is admitted in the closed state.\<close>

lemma run_breaker:
  assumes "\<And>u h. P u h \<Longrightarrow> state (h_breakers h k) = StateClosed"
    "run r P action (returning (Ret e) Q)"
    "\<And>u h clk. Q u h \<Longrightarrow> Q' u (h\<lparr>h_breakers := (h_breakers h)(k := complete clk StateClosed e (h_breakers h k))\<rparr>)"
  shows "run r P (Breaker_Execute k Background action) (returning (Ret e) Q')"
proof -
  have poll: "run r P (ctx_poll Background) (returning (Ret None) P)"
    by (simp add: run_def ctx_poll_def time_Now_def bind_def Let_def)
  have adm: "run r P (breaker_admit k) (returning (Ret (Admitted StateClosed)) P)"
    using assms(1) by (auto simp: run_def breaker_admit_def admit_def reset_due_def Let_def undisturbed_def)
  have comp: "run r Q (breaker_complete k StateClosed e) (returning (Ret ()) Q')"
    using assms(3) by (auto simp: run_def breaker_complete_def Let_def undisturbed_def)
  show ?thesis
    unfolding Breaker_Execute_def
    by (rule run_bind [OF poll], simp, rule run_bind [OF adm], simp, rule run_bind [OF assms(2)], rule run_bind [OF comp run_ret])
qed

text \<open>The bulkhead middleware without an instrumenter.\<close>

lemma bulkhead_plain:
  "Bulkhead c = Some k \<Longrightarrow> Instrumenter c = None \<Longrightarrow> bulkheadMiddleware c act x st = Bulkhead_Execute k x (act x st)"
  by (auto simp: bulkheadMiddleware_def instrument_def bind_def fun_eq_iff split: option.split prod.split result.split)

text \<open>A call through a bulkhead that has room, with \<open>P\<close> about the rest of the state.\<close>

abbreviation bulkhead_is :: "nat \<Rightarrow> bulkhead \<Rightarrow> ('u \<Rightarrow> bool) \<Rightarrow> 'u \<Rightarrow> shared \<Rightarrow> bool" where
  "bulkhead_is k b P u h \<equiv> h_bulkheads h k = b \<and> P u"

definition entered :: "bulkhead \<Rightarrow> bulkhead" where
  "entered b = b\<lparr>bh_semaphore := (bh_semaphore b)\<lparr>sem_len := Suc (sem_len (bh_semaphore b))\<rparr>\<rparr>"

lemma leave_entered [simp]: "Bulkhead_leave (entered b) = b"
  by (simp add: entered_def Bulkhead_leave_def slot_release_def)

lemma run_bulkhead:
  assumes "sem_len (bh_semaphore b) < sem_cap (bh_semaphore b)"
    "run r (bulkhead_is k (entered b) P) action (\<lambda>a u h. h_bulkheads h k = entered b \<and> R a u)"
  shows "run r (bulkhead_is k b P) (Bulkhead_Execute k Background action) (\<lambda>a u h. h_bulkheads h k = b \<and> R a u)"
proof (rule runI)
  fix w :: "'a world"
  assume w: "undisturbed r w" "bulkhead_is k b P (user w) (heap w)"
  have "\<exists>w1. bulkhead_enter k Background w = (Ret None, w1) \<and> undisturbed r w1 \<and> user w1 = user w \<and> h_bulkheads (heap w1) k = entered b"
    using w assms(1)
    by (simp add: bulkhead_enter_def bind_def flip_coin_def atomic_def Bulkhead_enter_def slot_select_def entered_def Let_def undisturbed_def
        interfere_def alone_def)
  then obtain w1 where e: "bulkhead_enter k Background w = (Ret None, w1)" "undisturbed r w1" "bulkhead_is k (entered b) P (user w1) (heap w1)"
    using w by auto
  from runE [OF assms(2) e(2,3)] obtain a w2 where a: "action w1 = (a, w2)" "undisturbed r w2" "h_bulkheads (heap w2) k = entered b" "R a (user w2)" by blast
  then show "\<exists>a w'. Bulkhead_Execute k Background action w = (a, w') \<and> undisturbed r w' \<and> h_bulkheads (heap w') k = b \<and> R a (user w')"
    using e(1) by (simp add: Bulkhead_Execute_def deferred_def bulkhead_leave_def Let_def undisturbed_def)
qed

text \<open>A value-returning call under the default pipeline that succeeds at once.\<close>

lemma run_value_first_time:
  fixes c :: "('u, 'a) config" and zero :: 't
  assumes "fresh c" "default_middlewares c = [MwRetry, MwDeadline, MwInstrumenter]" "Instrumenter c = None"
    "AdaptiveBucket c = None" "0 < MaxAttempts c"
    "\<And>st'. Attempt st' = 0 \<Longrightarrow> run r P (action Background st') (returning (Ret (v, None)) Q)"
  shows "run r P (execute_value c Background zero action) (returning (Ret (v, None)) Q)"
proof (rule run_execute_value [OF assms(1)], unfold default_lift assms(2))
  let ?c = "lift_config c :: ('u \<times> 't, unit) config"
  have a: "run r (\<lambda>u. P (fst u)) (deadlineMiddleware ?c (instrumenterMiddleware ?c (assigning action)) Background st')
      (returning (Ret None) (\<lambda>u h. Q (fst u) h \<and> snd u = v))" if "Attempt st' = 0" for st'
    using run_assigning [where P = P and Q = Q and action = action, OF assms(6) [OF that]] assms(3) by simp
  have "run r (\<lambda>u. P (fst u)) (retryMiddleware ?c (deadlineMiddleware ?c (instrumenterMiddleware ?c (assigning action)))
      Background st) (returning (Ret None) (\<lambda>u h. Q (fst u) h \<and> snd u = v))" for st
    by (rule run_retry, rule run_retry_success [where Q = "\<lambda>u h. Q (fst u) h \<and> snd u = v"])
      (use a assms(4,5) in \<open>auto intro: run_no_bucket\<close>)
  then show "run r (\<lambda>u. P (fst u)) (compose ?c [MwRetry, MwDeadline, MwInstrumenter]
      (terminalAction (Some (assigning action)) None) Background (initial_state ?c))
      (returning (Ret None) (\<lambda>u h. Q (fst u) h \<and> snd u = v))" by simp
qed

end
