(* ===== verification/Resumed_Download.thy ===== *)
theory Resumed_Download
  imports Range_Requests Retry_Runs
begin

text \<open>
  A download that is resumed by retries (\<^verbatim>\<open>examples/http_resume_stream/main.go\<close>): the action
  that asks for the missing bytes and appends them to a local file, the call of \<open>DoErr\<close> around it,
  and the verification of the file at the end. The client's lemmas are proved once against the
  contract of a server of ranges, and hold for the example's server by its interpretation.

  The number of bytes received and the file are the caller's state, the only one the action changes.
  The file is \<^term>\<open>None\<close> until it is created. The exchanges are numbered, and \<open>net\<close> gives the
  chances of each.
\<close>

section \<open>The client\<close>

record download =
  bytesReceived :: int
  local_file :: "byte list option"
  requests :: nat

definition start_download :: download where
  "start_download = \<lparr>bytesReceived = 0, local_file = None, requests = 0\<rparr>"

text \<open>
  \<^verbatim>\<open>io.Copy\<close> writes what it reads and stops at the first error; reading ends without one
  only if the reply came to its end and the connection held.
\<close>

definition io_Copy :: "exchange \<Rightarrow> reply \<Rightarrow> byte list \<times> go_error option" where
  "io_Copy e rep =
     (let (arrived, rerr) =
            (case ex_cut e of
               Some k \<Rightarrow> (take k (rp_body rep), Some (ex_error e))
             | None \<Rightarrow> (rp_body rep, if rp_end rep then None else Some (ex_error e)))
      in case ex_disk e of
           Some k \<Rightarrow> if k < length arrived then (take k arrived, Some (ex_error e)) else (arrived, rerr)
         | None \<Rightarrow> (arrived, rerr))"

text \<open>\<^verbatim>\<open>O_TRUNC\<close> or \<^verbatim>\<open>O_APPEND\<close>, both with \<^verbatim>\<open>O_CREATE\<close>.\<close>

definition opened :: "bool \<Rightarrow> byte list option \<Rightarrow> byte list" where
  "opened trunc f = (if trunc then [] else case f of None \<Rightarrow> [] | Some bs \<Rightarrow> bs)"

definition download_step :: "(string \<Rightarrow> exchange \<Rightarrow> reply) \<Rightarrow> exchange \<Rightarrow> download \<Rightarrow> go_error option \<times> download" where
  "download_step serve e d =
     (let d = d\<lparr>requests := Suc (requests d)\<rparr>
      in if ex_request e \<noteq> None then (ex_request e, d)
         else (let rep = serve (if bytesReceived d > 0 then range_header (bytesReceived d) else []) e;
                   d = (if rp_status rep = 200 then (if bytesReceived d > 0 then d\<lparr>bytesReceived := 0\<rparr> else d) else d)
               in if rp_status rep \<noteq> 200 \<and> rp_status rep \<noteq> 206 then (Some (UserError (rp_status rep)), d)
                  else if ex_open e \<noteq> None then (ex_open e, d)
                  else (let f = opened (rp_status rep = 200) (local_file d);
                            (got, err) = io_Copy e rep
                        in (err, d\<lparr>local_file := Some (f @ got), bytesReceived := bytesReceived d + int (length got)\<rparr>))))"

definition download_action ::
  "(string \<Rightarrow> exchange \<Rightarrow> reply) \<Rightarrow> (nat \<Rightarrow> exchange) \<Rightarrow> ctx \<Rightarrow> (download, go_error option) prog" where
  "download_action serve net x w =
     (let w = clock_step w; (err, d) = download_step serve (net (requests (user w))) (user w)
      in (Ret err, w\<lparr>user := d\<rparr>))"

section \<open>The whole program\<close>

definition download_options :: "nat \<Rightarrow> (download, 't) opt list" where
  "download_options r = [WithName ''http-resume'', WithMaxAttempts 15, WithBackoff (FullJitter r)]"

datatype verdict = DownloadFailed go_error | ReadError | SizeMismatch | ContentMismatch | IntegrityVerified

definition verify_download :: "byte list \<Rightarrow> go_error option \<Rightarrow> download \<Rightarrow> verdict" where
  "verify_download content err d =
     (case err of
        Some e \<Rightarrow> DownloadFailed e
      | None \<Rightarrow>
          (case local_file d of
             None \<Rightarrow> ReadError
           | Some downloaded \<Rightarrow>
               if length downloaded \<noteq> length content then SizeMismatch
               else if downloaded \<noteq> content then ContentMismatch
               else IntegrityVerified))"

definition download_main ::
  "byte list \<Rightarrow> (string \<Rightarrow> exchange \<Rightarrow> reply) \<Rightarrow> (nat \<Rightarrow> exchange) \<Rightarrow> (download, 't) config \<Rightarrow> (download, verdict) prog" where
  "download_main content serve net c =
     bind (DoErr c Background (download_action serve net)) (\<lambda>err w.
       (Ret (verify_download content err (user w)), w))"

text \<open>The file of the example.\<close>

definition fileContent :: "byte list" where
  "fileContent = map (\<lambda>i. of_nat (i mod 256)) [0..<50 * 1024]"

section \<open>The invariant of the client\<close>

text \<open>What the client believes to have is what it has: the file is the received part of the content.\<close>

definition progress :: "byte list \<Rightarrow> download \<Rightarrow> bool" where
  "progress content d \<longleftrightarrow> 0 \<le> bytesReceived d \<and> bytesReceived d \<le> int (length content)
     \<and> (0 < bytesReceived d \<longrightarrow> local_file d = Some (take (nat (bytesReceived d)) content))"

definition complete_copy :: "byte list \<Rightarrow> download \<Rightarrow> bool" where
  "complete_copy content d \<longleftrightarrow> local_file d = Some content"

lemma io_Copy_prefix:
  assumes "io_Copy e rep = (got, err)"
  shows "prefix got (rp_body rep) \<and> (err = None \<longrightarrow> got = rp_body rep \<and> rp_end rep)"
proof -
  have "prefix (take k (take j bs)) bs" for k j and bs :: "byte list"
    using take_is_prefix by (metis take_take)
  then show ?thesis
    using assms by (auto simp: io_Copy_def Let_def take_is_prefix split: option.splits if_splits prod.splits)
qed

lemma append_prefix_drop:
  assumes "prefix got (drop n content)" "n \<le> length content"
  shows "take n content @ got = take (n + length got) content" "n + length got \<le> length content"
proof -
  obtain more where "drop n content = got @ more" using assms(1) by (auto simp: prefix_def)
  then have c: "content = take n content @ got @ more" by (metis append_take_drop_id)
  have l: "length (take n content) = n" using assms(2) by simp
  show "n + length got \<le> length content" using arg_cong [OF c, of length] l by simp
  show "take n content @ got = take (n + length got) content"
    using l by (subst (2) c) (simp only: take_append diff_add_inverse, simp)
qed

text \<open>The reply an attempt gets, and what it does with one it can use.\<close>

definition reply_to :: "(string \<Rightarrow> exchange \<Rightarrow> reply) \<Rightarrow> exchange \<Rightarrow> download \<Rightarrow> reply" where
  "reply_to serve e d = serve (if bytesReceived d > 0 then range_header (bytesReceived d) else []) e"

lemma download_step_cases:
  assumes "download_step serve e d = (err, d')" "0 \<le> bytesReceived d"
  obtains (failed) x n where "err = Some x" "d' = d\<lparr>requests := Suc (requests d), bytesReceived := n\<rparr>"
      "n = bytesReceived d \<or> rp_status (reply_to serve e d) = 200 \<and> n = 0"
    | (copied) got where "io_Copy e (reply_to serve e d) = (got, err)"
      "rp_status (reply_to serve e d) = 200 \<or> rp_status (reply_to serve e d) = 206"
      "d' = d\<lparr>requests := Suc (requests d),
             local_file := Some (opened (rp_status (reply_to serve e d) = 200) (local_file d) @ got),
             bytesReceived := (if rp_status (reply_to serve e d) = 200 then 0 else bytesReceived d) + int (length got)\<rparr>"
proof -
  define rep where "rep = reply_to serve e d"
  have rep: "serve (if bytesReceived (d\<lparr>requests := Suc (requests d)\<rparr>) > 0
      then range_header (bytesReceived (d\<lparr>requests := Suc (requests d)\<rparr>)) else []) e = rep"
    by (simp add: rep_def reply_to_def)
  obtain got cerr where g: "io_Copy e rep = (got, cerr)" by fastforce
  show thesis
    using assms copied [folded rep_def, of got] failed [folded rep_def, of "the err" "bytesReceived d'"]
    unfolding download_step_def Let_def rep g prod.case
    by (cases "ex_request e"; cases "ex_open e"; cases err; auto simp: g split: if_splits)
qed

context range_server
begin

text \<open>One attempt keeps the invariant, and succeeds only with the complete file.\<close>

lemma progress_step:
  assumes "download_step serve e d = (err, d')" "progress content d" "int (length content) \<le> max_int64"
  shows "progress content d' \<and> (err = None \<longrightarrow> complete_copy content d')"
proof -
  have "0 \<le> bytesReceived d" using assms(2) by (simp add: progress_def)
  with assms(1) show ?thesis
  proof (cases rule: download_step_cases)
    case (failed x n)
    then show ?thesis using assms(2) by (auto simp: progress_def)
  next
    case (copied got)
    let ?rep = "reply_to serve e d"
    note p = io_Copy_prefix [OF copied(1)]
    show ?thesis
    proof (cases "rp_status ?rep = 200")
      case True
      then have "part_of content ?rep" unfolding reply_to_def by (rule whole)
      then have "prefix got content" "err = None \<Longrightarrow> got = content"
        using p by (auto simp: part_of_def intro: prefix_order.trans)
      then show ?thesis
        using True copied(3) append_prefix_drop [of got 0 content]
        by (auto simp: opened_def progress_def complete_copy_def)
    next
      case False
      then have s: "rp_status ?rep = 206" using copied(2) by simp
      have n: "0 < bytesReceived d" using s unasked by (auto simp: reply_to_def split: if_splits)
      let ?n = "nat (bytesReceived d)"
      have d: "local_file d = Some (take ?n content)" "bytesReceived d \<le> int (length content)"
        using assms(2) n by (simp_all add: progress_def)
      have "part_of (drop ?n content) ?rep"
        using s n d(2) assms(3) by (auto simp: reply_to_def intro: partial)
      then have g: "prefix got (drop ?n content)" "err = None \<Longrightarrow> got = drop ?n content"
        using p by (auto simp: part_of_def intro: prefix_order.trans)
      have "?n \<le> length content" using n d(2) by simp
      note append_prefix_drop [OF g(1) this]
      then show ?thesis
        using s n d g(2) copied(3) by (auto simp: opened_def progress_def complete_copy_def nat_add_distrib)
    qed
  qed
qed

lemma action_keeps_progress:
  assumes "int (length content) \<le> max_int64"
  shows "keeps (progress content) (download_action serve net x)"
    and "nil_only (progress content) (complete_copy content) (download_action serve net x)"
  using progress_step [OF _ _ assms]
  by (fastforce simp: keeps_def nil_only_def download_action_def Let_def split: prod.splits)+

end

section \<open>The program against the example's server\<close>

text \<open>
  C17. A resumed download is never corrupted. Whatever the server's draws, lost connections, failing
  requests and failing file operations, whatever bulkheads, limiters, timeouts, breakers and faults
  the call is configured with, at its end the file is the part of the content the client has counted;
  and the verification at the end of the program finds the complete, correct file or the call has
  returned an error: it never reports a wrong size, a wrong content or a missing file.
\<close>

theorem resumed_download_is_correct:
  assumes "plain c" "int (length content) \<le> max_int64" "progress content (user w)"
    "download_main content (serve_file content) net c w = (Ret v, w')"
  shows "progress content (user w') \<and>
    (v = IntegrityVerified \<and> local_file (user w') = Some content \<or> (\<exists>e. v = DownloadFailed e))"
proof -
  obtain err where e: "DoErr c Background (download_action (serve_file content) net) w = (Ret err, w')"
    "v = verify_download content err (user w')"
    using assms(4) unfolding download_main_def by (elim bind_cases) auto
  note r = DoErr_plain [OF assms(1) example.action_keeps_progress [OF assms(2)] assms(3) e(1)]
  show ?thesis using r e(2) by (cases err) (simp_all add: verify_download_def complete_copy_def)
qed

text \<open>A small file, an exchange that breaks after two bytes, and one that ends well.\<close>

definition good_exchange :: exchange where
  "good_exchange = \<lparr>ex_drop = False, ex_draw = 0, ex_writes = (\<lambda>_. None), ex_request = None, ex_cut = None,
     ex_open = None, ex_disk = None, ex_error = UserError 0\<rparr>"

definition broken_once :: "nat \<Rightarrow> nat \<Rightarrow> exchange" where
  "broken_once k n = (if n = 0 then good_exchange\<lparr>ex_cut := Some k\<rparr> else good_exchange)"

definition download_config :: "(download, unit) config" where
  "download_config = cfg (New_config (download_options 0) empty_heap 0 0)"

lemma download_config_simps [simp]:
  "plain download_config" "fresh download_config" "Fallback download_config = NoFallback"
  "default_middlewares download_config = [MwRetry, MwDeadline, MwInstrumenter]" "MaxAttempts download_config = 15"
  "Instrumenter download_config = None" "AdaptiveBucket download_config = None"
  "Backoff download_config = FullJitter 0" "Policy download_config = default_policy"
  by (simp_all add: download_config_def New_config_def start_builder_def alloc_def apply_options_def
      download_options_def WithName_def WithMaxAttempts_def WithBackoff_def add_mw_def DefaultConfig_def plain_def
      fresh_def default_middlewares_def)

definition half_done :: download where
  "half_done = \<lparr>bytesReceived = 2, local_file = Some [1, 2], requests = 1\<rparr>"

lemma small_steps:
  "download_step (serve_file [1, 2, 3]) (broken_once 2 0) start_download = (Some (UserError 0), half_done)"
  "download_step (serve_file [1, 2, 3]) (broken_once 2 1) half_done
     = (None, \<lparr>bytesReceived = 3, local_file = Some [1, 2, 3], requests = 2\<rparr>)"
  by (simp_all add: download_step_def serve_file_def requested_range_header start_download_def half_done_def
      broken_once_def good_exchange_def io_Copy_def opened_def send_loop.simps max_int64_def)

lemma run_download_action:
  assumes "download_step serve (net (requests d)) d = (err, d')"
  shows "run r (\<lambda>u h. u = d) (download_action serve net x) (returning (Ret err) (\<lambda>u h. u = d'))"
  using assms by (auto simp: run_def download_action_def undisturbed_def Let_def)

lemma run_small_download:
  "run 0 (\<lambda>u h. u = start_download) (DoErr download_config Background (download_action (serve_file [1, 2, 3]) (broken_once 2)))
     (returning (Ret None) (\<lambda>u h. u = \<lparr>bytesReceived = 3, local_file = Some [1, 2, 3], requests = 2\<rparr>))"
proof (rule run_DoErr)
  let ?t = "terminalAction (Some (\<lambda>x _. download_action (serve_file [1, 2, 3]) (broken_once 2) x)) None"
  let ?next = "deadlineMiddleware download_config (instrumenterMiddleware download_config ?t)"
  have direct: "?next Background st = download_action (serve_file [1, 2, 3]) (broken_once 2) Background" for st
    by (simp add: deadlineMiddleware_def instrumenterMiddleware_def terminalAction_def Background_def)
  have first: "run 0 (\<lambda>u h. u = start_download) (?next Background st) (returning (Ret (Some (UserError 0))) (\<lambda>u h. u = half_done))" for st
    unfolding direct by (rule run_download_action) (use small_steps(1) in \<open>simp add: start_download_def\<close>)
  have second: "run 0 (\<lambda>u h. u = half_done) (?next Background st)
      (returning (Ret None) (\<lambda>u h. u = \<lparr>bytesReceived = 3, local_file = Some [1, 2, 3], requests = 2\<rparr>))" for st
    unfolding direct by (rule run_download_action) (use small_steps(2) in \<open>simp add: half_done_def\<close>)
  have done_at: "done_at Background = None" by (simp add: done_at_def Background_def)
  have "run 0 (\<lambda>u h. u = start_download) (retry_loop download_config ?next Background start st 0 [])
      (returning (Ret None) (\<lambda>u h. u = \<lparr>bytesReceived = 3, local_file = Some [1, 2, 3], requests = 2\<rparr>))" for start st
  proof (rule run_retry_again [where e = "UserError 0"])
    show "run 0 (\<lambda>u h. u = half_done) (retry_loop download_config ?next Background start st' (0 + 1) ([] @ [UserError 0]))
        (returning (Ret None) (\<lambda>u h. u = \<lparr>bytesReceived = 3, local_file = Some [1, 2, 3], requests = 2\<rparr>))" for st'
      by (rule run_retry_success [where act = ?next, OF second]) (auto intro: run_no_bucket)
  qed (use first done_at in \<open>auto intro: run_no_bucket\<close>)
  then show "run 0 (\<lambda>u h. u = start_download) (compose download_config (default_middlewares download_config) ?t Background
      (initial_state download_config))
      (returning (Ret None) (\<lambda>u h. u = \<lparr>bytesReceived = 3, local_file = Some [1, 2, 3], requests = 2\<rparr>))"
    by (simp add: run_retry)
qed simp_all

lemma undisturbed_calm [simp]: "undisturbed r (calm_world u)"
  by (simp add: undisturbed_def alone_def good_jitter_def empty_heap_def NewFullJitter_def duration_units)

theorem resumed_download_is_correct_witness:
  "\<exists>w'. download_main [1, 2, 3] (serve_file [1, 2, 3]) (broken_once 2) download_config (calm_world start_download)
       = (Ret IntegrityVerified, w')
     \<and> local_file (user w') = Some [1, 2, 3]"
proof -
  obtain w' where "DoErr download_config Background (download_action (serve_file [1, 2, 3]) (broken_once 2)) (calm_world start_download)
      = (Ret None, w')" "user w' = \<lparr>bytesReceived = 3, local_file = Some [1, 2, 3], requests = 2\<rparr>"
    using run_small_download by (auto elim!: runE [where w = "calm_world start_download"])
  then have m: "download_main [1, 2, 3] (serve_file [1, 2, 3]) (broken_once 2) download_config (calm_world start_download)
      = (Ret IntegrityVerified, w')"
    by (simp add: download_main_def verify_download_def)
  moreover have "progress [1, 2, 3] (user (calm_world start_download))" by (simp add: progress_def start_download_def)
  ultimately show ?thesis
    using resumed_download_is_correct [of download_config "[1, 2, 3]" "calm_world start_download" "broken_once 2"]
    by (auto simp: max_int64_def)
qed

text \<open>
  What has arrived once is not asked for again: against the example's server, which answers
  every range, the number of bytes received never decreases during a call.
\<close>

theorem resumption_never_restarts:
  assumes "plain c" "int (length content) \<le> max_int64" "progress content (user w)"
    "DoErr c x (download_action (serve_file content) net) w = (r, w')"
  shows "bytesReceived (user w) \<le> bytesReceived (user w')"
proof -
  define I :: "download \<Rightarrow> bool" where "I = (\<lambda>d. progress content d \<and> bytesReceived (user w) \<le> bytesReceived d)"
  have step: "I d'" if i: "I d" and ds: "download_step (serve_file content) e d = (err, d')" for d d' e err
  proof -
    have p: "progress content d" "progress content d'"
      using example.progress_step [OF ds _ assms(2)] i by (simp_all add: I_def)
    then have d: "0 \<le> bytesReceived d" "bytesReceived d \<le> max_int64" "0 \<le> bytesReceived d'"
      using assms(2) by (auto simp: progress_def)
    have s: "rp_status (reply_to (serve_file content) e d) \<noteq> 200" if "0 < bytesReceived d"
    proof (cases "rp_status (serve_file content (range_header (bytesReceived d)) e) = 416")
      case False
      from serve_file_part(2) [OF this] show ?thesis using that d by (simp add: reply_to_def requested_range_header)
    qed (simp add: reply_to_def that)
    have "bytesReceived d \<le> bytesReceived d'"
    proof (cases "0 < bytesReceived d")
      case True
      from ds d(1) show ?thesis by (cases rule: download_step_cases) (use s [OF True] in auto)
    qed (use d in simp)
    then show ?thesis using p(2) i by (simp add: I_def)
  qed
  have "keeps I (download_action (serve_file content) net y)" "nil_only I (\<lambda>_. True) (download_action (serve_file content) net y)" for y
    using step by (auto simp: keeps_def nil_only_def download_action_def Let_def split: prod.splits)
  from DoErr_plain(1) [OF assms(1) this _ assms(4)] assms(3) show ?thesis by (simp add: I_def)
qed

theorem resumption_never_restarts_witness:
  "\<exists>r w'. DoErr download_config Background (download_action (serve_file [1, 2, 3]) (broken_once 2)) (calm_world half_done) = (r, w')
     \<and> 2 \<le> bytesReceived (user w')"
proof -
  obtain r w' where w': "DoErr download_config Background (download_action (serve_file [1, 2, 3]) (broken_once 2))
      (calm_world half_done) = (r, w')" by fastforce
  have "progress [1, 2, 3] (user (calm_world half_done))" by (simp add: progress_def half_done_def)
  with resumption_never_restarts [OF _ _ this w'] w' show ?thesis by (simp add: max_int64_def half_done_def)
qed

text \<open>
  C37. A download that is complete cannot succeed. When the connection broke after the last byte,
  so that everything has arrived but the copy reported an error, the next attempt asks for the range
  behind the end of the file; the server answers 416, which the client takes for a failure, and so on
  for every attempt: the call returns an error although the file is complete and correct.
\<close>

theorem complete_download_cannot_succeed:
  assumes "plain c" "int (length content) \<le> max_int64" "content \<noteq> []"
    "bytesReceived (user w) = int (length content)" "local_file (user w) = Some content"
    "DoErr c x (download_action (serve_file content) net) w = (r, w')"
  shows "r \<noteq> Ret None \<and> local_file (user w') = Some content"
proof -
  define I :: "download \<Rightarrow> bool" where "I = (\<lambda>d. bytesReceived d = int (length content) \<and> local_file d = Some content)"
  have step: "err \<noteq> None \<and> I d'" if i: "I d" and ds: "download_step (serve_file content) e d = (err, d')" for d d' e err
  proof -
    have d: "0 < bytesReceived d" "bytesReceived d = int (length content)" using i assms(3) by (simp_all add: I_def)
    have "rp_status (serve_file content (range_header (bytesReceived d)) e) = 416"
      using d assms(2) by (simp add: serve_file_def requested_range_header Let_def)
    then have "rp_status (reply_to (serve_file content) e d) = 416" using d by (simp add: reply_to_def)
    from ds d(1) this show ?thesis
      by (cases rule: download_step_cases [OF ds]) (use i in \<open>auto simp: I_def\<close>)
  qed
  have "keeps I (download_action (serve_file content) net y)" "nil_only I (\<lambda>_. False) (download_action (serve_file content) net y)" for y
    using step by (auto simp: keeps_def nil_only_def download_action_def Let_def split: prod.splits)
  from DoErr_plain [OF assms(1) this _ assms(6)] assms(4,5) show ?thesis by (auto simp: I_def)
qed

text \<open>The connection breaks after the last of three bytes; the call that follows cannot succeed.\<close>

theorem complete_download_cannot_succeed_witness:
  "\<exists>d r w'. download_step (serve_file [1, 2, 3]) (broken_once 3 0) start_download = (Some (UserError 0), d)
     \<and> local_file d = Some [1, 2, 3]
     \<and> DoErr download_config Background (download_action (serve_file [1, 2, 3]) (\<lambda>_. good_exchange)) (calm_world d) = (r, w')
     \<and> r \<noteq> Ret None"
proof -
  define d where "d = \<lparr>bytesReceived = 3, local_file = Some [1, 2, 3 :: byte], requests = 1\<rparr>"
  have "download_step (serve_file [1, 2, 3]) (broken_once 3 0) start_download = (Some (UserError 0), d)"
    by (simp add: download_step_def serve_file_def start_download_def d_def
        broken_once_def good_exchange_def io_Copy_def opened_def send_loop.simps)
  moreover obtain r w' where "DoErr download_config Background (download_action (serve_file [1, 2, 3]) (\<lambda>_. good_exchange))
      (calm_world d) = (r, w')" by fastforce
  moreover from complete_download_cannot_succeed [OF _ _ _ _ _ this] have "r \<noteq> Ret None"
    by (simp add: max_int64_def d_def)
  ultimately show ?thesis by (auto simp: d_def)
qed

end
