(* ===== verification/Example_Programs.thy ===== *)
theory Example_Programs
  imports Retry_Runs Breaker_Runs
begin

text \<open>
  Programs under \<^verbatim>\<open>examples\<close> whose outcome does not depend on timing: endpoint rotation
  (\<^verbatim>\<open>stateful\<close>), the connection state machine (\<^verbatim>\<open>statemachine\<close>), panic recovery
  (\<^verbatim>\<open>panicrecovery\<close>), fallbacks (\<^verbatim>\<open>fallback\<close>), the shared retry budget
  (\<^verbatim>\<open>adaptiveretry\<close>) and a database call behind a circuit breaker (\<^verbatim>\<open>sql\<close>).
  Each is its action, its options and its \<^verbatim>\<open>main\<close>; what it prints is the result of
  \<^verbatim>\<open>main\<close>, and texts of errors are numbers. The theorems say what the programs compute for
  every clock and all random choices, so they are end-to-end tests of the model and of the comments in
  the examples.
\<close>

section \<open>A call with its options\<close>

text \<open>
  A package function builds its configuration from the options in front of the call; the backoff
  it allocates is at the reference \<open>r\<close>.
\<close>

definition with_config :: "nat \<Rightarrow> ('u, 't) opt list \<Rightarrow> (('u, 't) config \<Rightarrow> ('u, 'a) prog) \<Rightarrow> ('u, 'a) prog" where
  "with_config r opts call w =
     (let b = New_config opts (heap w) r (now w) in call (cfg b) (w\<lparr>heap := b_heap b\<rparr>))"

lemma run_with_config:
  assumes "run r P' (call c) R" "\<And>h t. cfg (New_config opts h r t) = c"
    "\<And>u h t. P u h \<Longrightarrow> P' u (b_heap (New_config opts h r t))"
    "\<And>h t. good_jitter (h_jitters (b_heap (New_config opts h r t)) r)"
  shows "run r P (with_config r opts call) R"
proof (rule runI)
  fix w :: "'a world"
  assume w: "undisturbed r w" "P (user w) (heap w)"
  let ?w = "w\<lparr>heap := b_heap (New_config opts (heap w) r (now w))\<rparr>"
  have "undisturbed r ?w" "P' (user ?w) (heap ?w)" using w assms(3,4) by (simp_all add: undisturbed_def)
  with assms(1) obtain a w' where "call c ?w = (a, w')" "undisturbed r w'" "R a (user w') (heap w')" by (rule runE)
  then show "\<exists>a w'. with_config r opts call w = (a, w') \<and> undisturbed r w' \<and> R a (user w') (heap w')"
    by (simp add: with_config_def assms(2) Let_def)
qed

section \<open>Endpoint rotation\<close>

definition endpoints :: "string list" where
  "endpoints = [''primary-api.example.com'', ''secondary-api.example.com'', ''tertiary-api.example.com'']"

definition rotation_action :: "ctx \<Rightarrow> retry_state \<Rightarrow> ('u, string \<times> go_error option) prog" where
  "rotation_action x st =
     (let endpoint = endpoints ! unat (Attempt st mod of_nat (length endpoints))
      in if Attempt st < 2 then ret ([], Some (UserError 11))
         else ret (''Successful connection to '' @ endpoint, None))"

definition rotation_options :: "('u, 't) opt list" where
  "rotation_options = [WithMaxAttempts 3, WithBaseDelay (100 * Millisecond)]"

definition rotation_main :: "nat \<Rightarrow> ('u, string \<times> go_error option) prog" where
  "rotation_main r =
     with_config r (rotation_options :: ('u, string) opt list) (\<lambda>c. DoState c Background [] rotation_action)"

section \<open>The connection state machine\<close>

definition Disconnected :: string where "Disconnected = ''Disconnected''"
definition Connecting :: string where "Connecting = ''Connecting''"
definition Connected :: string where "Connected = ''Connected''"

definition Connect :: string where "Connect = ''Connect''"
definition Disconnect :: string where "Disconnect = ''Disconnect''"

record machine_data =
  Endpoint :: string
  Metadata :: "string \<rightharpoonup> string"

definition machine_transition ::
  "ctx \<Rightarrow> string \<Rightarrow> machine_data \<Rightarrow> string \<Rightarrow> retry_state
     \<Rightarrow> ('u, (string \<times> machine_data) \<times> go_error option) prog" where
  "machine_transition x st data event rs =
     (if st = Disconnected \<and> event = Connect
      then (if Attempt rs < 2 then ret (([], data), Some (UserError 12)) else ret ((Connected, data), None))
      else if st = Connected \<and> event = Disconnect then ret ((Disconnected, data), None)
      else ret ((st, data), None))"

definition machine_options :: "('u, 't) opt list" where
  "machine_options = [WithMaxAttempts 3, WithBaseDelay (100 * Millisecond)]"

definition zero_data :: machine_data where
  "zero_data = \<lparr>Endpoint = [], Metadata = Map.empty\<rparr>"

text \<open>\<open>Handle\<close> with the machine's options, which every event applies anew.\<close>

definition machine_Handle ::
  "nat \<Rightarrow> string \<Rightarrow> (string, machine_data) machine \<Rightarrow> ('u, go_error option \<times> (string, machine_data) machine) prog" where
  "machine_Handle r event sm =
     with_config r (machine_options :: ('u, unit) opt list) (\<lambda>c.
       Handle c ([], zero_data) machine_transition Background event sm)"

text \<open>The result of the two events: each with its error and the state after it.\<close>

definition machine_main ::
  "nat \<Rightarrow> ('u, (go_error option \<times> string) \<times> (go_error option \<times> string)) prog" where
  "machine_main r =
     (let sm = NewStateMachine Disconnected (zero_data\<lparr>Endpoint := ''api.example.com''\<rparr>)
      in bind (machine_Handle r Connect sm) (\<lambda>(err1, sm1).
         bind (machine_Handle r Disconnect sm1) (\<lambda>(err2, sm2).
           ret ((err1, GetState sm1), (err2, GetState sm2)))))"

section \<open>Panic recovery\<close>

text \<open>The counter \<^verbatim>\<open>attempts\<close> is the caller's state.\<close>

definition risky_action :: "ctx \<Rightarrow> (int, string \<times> go_error option) prog" where
  "risky_action x w =
     (let w = w\<lparr>user := user w + 1\<rparr>
      in if user w < 3 then (Panic (PanicValue 1), w)
         else (Ret (''SUCCESS: result after 2 transient panics'', None), w))"

definition risky_options :: "('u, 't) opt list" where
  "risky_options = [WithPanicRecovery, WithMaxAttempts 5, WithBaseDelay (500 * Millisecond)]"

definition hopeless_options :: "('u, 't) opt list" where
  "hopeless_options = [WithPanicRecovery, WithMaxAttempts 1]"

fun as_panic :: "go_error \<Rightarrow> panic_value option" where
  "as_panic (PanicError p) = Some p"
| "as_panic _ = None"

definition panic_main :: "nat \<Rightarrow> (int, (string \<times> go_error option) \<times> panic_value option) prog" where
  "panic_main r =
     bind (with_config r (risky_options :: (int, string) opt list) (\<lambda>c. Do c Background [] risky_action)) (\<lambda>res.
     bind (with_config r (hopeless_options :: (int, unit) opt list)
             (\<lambda>c. DoErr c Background (\<lambda>x w. (Panic (PanicValue 2), w)))) (\<lambda>err.
       ret (res, case err of None \<Rightarrow> None | Some e \<Rightarrow> errors_As as_panic e)))"

section \<open>Fallbacks\<close>

definition errUnreachable :: go_error where
  "errUnreachable = UserError 13"

definition stale_options :: "('u, string) opt list" where
  "stale_options = [WithMaxAttempts 3, WithBaseDelay (100 * Millisecond),
     WithFallback (\<lambda>x e. ret (''stale data from cache (2026-03-01)'', None))]"

definition alert_options :: "('u, 't) opt list" where
  "alert_options = [WithMaxAttempts 2, WithBaseDelay (100 * Millisecond),
     WithFallbackErr (\<lambda>x e. ret (Some (UserError 14)))]"

definition fallback_main :: "nat \<Rightarrow> ('u, (string \<times> go_error option) \<times> go_error option) prog" where
  "fallback_main r =
     bind (with_config r stale_options (\<lambda>c. Do c Background [] (\<lambda>x. ret ([], Some errUnreachable)))) (\<lambda>res.
     bind (with_config r (alert_options :: ('u, unit) opt list)
             (\<lambda>c. DoErr c Background (\<lambda>x. ret (Some errUnreachable)))) (\<lambda>err.
       ret (res, err)))"

section \<open>The shared retry budget\<close>

text \<open>The caller's state counts the runs of the action; the bucket is at reference \<open>k\<close>.\<close>

definition overwhelmed_action :: "ctx \<Rightarrow> (nat, go_error option) prog" where
  "overwhelmed_action x w = (Ret (Some (UserError 15)), w\<lparr>user := Suc (user w)\<rparr>)"

definition budget_options :: "nat \<Rightarrow> nat \<Rightarrow> ('u, 't) opt list" where
  "budget_options k i = [WithName (''request-'' @ [char_of (48 + i)]), WithMaxAttempts 10,
     WithBaseDelay (10 * Millisecond), WithAdaptiveBucket (Some k)]"

fun budget_requests :: "nat \<Rightarrow> nat \<Rightarrow> nat list \<Rightarrow> (nat, go_error option list) prog" where
  "budget_requests r k [] = ret []"
| "budget_requests r k (i # is) =
     bind (with_config r (budget_options k i :: (nat, unit) opt list)
             (\<lambda>c. DoErr c Background overwhelmed_action)) (\<lambda>err.
     bind (budget_requests r k is) (\<lambda>errs. ret (err # errs)))"

definition budget_main :: "nat \<Rightarrow> nat \<Rightarrow> (nat, go_error option list \<times> bool) prog" where
  "budget_main r k w =
     (let w = w\<lparr>heap := (heap w)\<lparr>h_buckets := (h_buckets (heap w))(k := DefaultAdaptiveBucket)\<rparr>\<rparr>
      in bind (budget_requests r k [1, 2, 3]) (\<lambda>errs.
         bind (bucket_acquire k) (\<lambda>left. ret (errs, left))) w)"

section \<open>A database call behind a circuit breaker\<close>

text \<open>The driver's counter is the caller's state; a result is its number of affected rows.\<close>

definition driver_ExecContext :: "(i32, int option \<times> go_error option) prog" where
  "driver_ExecContext w =
     (let w = w\<lparr>user := user w + 1\<rparr>
      in if sint (user w) < 3 then (Ret (None, Some (UserError 16)), w)
         else (Ret (Some 1, None), w))"

definition sql_breaker :: breaker_config where
  "sql_breaker = \<lparr>WindowType = WindowCountBased, WindowSize = 10, WindowDuration = 0,
     FailureRateThreshold = Fin 50, MinimumCalls = 3, ResetTimeout = Second, HalfOpenMaxCalls = 0\<rparr>"

definition sql_options :: "nat \<Rightarrow> ('u, 't) opt list" where
  "sql_options k = [WithRetry 3, WithBaseDelay (100 * Millisecond), WithCircuitBreaker (Some k)]"

definition sql_main :: "nat \<Rightarrow> nat \<Rightarrow> (i32, int option \<times> go_error option) prog" where
  "sql_main r k w =
     (let w = w\<lparr>heap := (heap w)\<lparr>h_breakers := (h_breakers (heap w))(k := New sql_breaker)\<rparr>\<rparr>
      in with_config r (sql_options k :: (i32, int option) opt list)
           (\<lambda>c. Do c Background None (\<lambda>x. driver_ExecContext)) w)"

section \<open>What the options make\<close>

lemma rotation_config [simp]:
  "cfg (New_config rotation_options h r t) = (DefaultConfig r)\<lparr>MaxAttempts := 3, BaseDelay := 100 * Millisecond\<rparr>"
  "h_jitters (b_heap (New_config rotation_options h r t)) r = NewFullJitter (100 * Millisecond) (30 * Second)"
  by (simp_all add: rotation_options_def New_config_def apply_options_def start_builder_def option_defs add_mw_def
      DefaultConfig_def NewFullJitter_def)

lemma good_NewFullJitter: "0 \<le> base \<Longrightarrow> base < 2 ^ 53 \<Longrightarrow> 0 \<le> cap \<Longrightarrow> cap < 2 ^ 53 \<Longrightarrow> good_jitter (NewFullJitter base cap)"
  by (simp add: good_jitter_def NewFullJitter_def)

lemma default_config_fields [simp]:
  "Instrumenter (DefaultConfig r) = None" "AdaptiveBucket (DefaultConfig r) = None" "Policy (DefaultConfig r) = default_policy"
  "Backoff (DefaultConfig r) = FullJitter r" "Timeout (DefaultConfig r) = 0" "RecoverPanics (DefaultConfig r) = False"
  "pipeline (DefaultConfig r) = None" "composedPipeline (DefaultConfig r) = None" "Fallback (DefaultConfig r) = NoFallback"
  "RateLimiter (DefaultConfig r) = None" "AdaptiveLimiter (DefaultConfig r) = None" "Bulkhead (DefaultConfig r) = None"
  "PriorityBulkhead (DefaultConfig r) = None" "CircuitBreaker (DefaultConfig r) = None" "Chaos (DefaultConfig r) = None"
  by (simp_all add: DefaultConfig_def)

lemma rotation_attempts:
  "Attempt st < 2 \<Longrightarrow> run r P (rotation_action x st) (returning (Ret ([], Some (UserError 11))) P)"
  "Attempt st = 2 \<Longrightarrow> run r P (rotation_action x st)
     (returning (Ret (''Successful connection to tertiary-api.example.com'', None)) P)"
  by (simp_all add: rotation_action_def endpoints_def Let_def run_ret)

text \<open>
  The endpoint rotation connects to the third endpoint: for every clock and all random choices
  the program's call makes three attempts, on the three endpoints in turn, and returns the value of the
  third.
\<close>

theorem rotation_reaches_tertiary:
  fixes w :: "'u world"
  assumes "alone (orc w)" "good_jitter (h_jitters (heap w) r)"
  shows "fst (rotation_main r w) = Ret (''Successful connection to tertiary-api.example.com'', None)"
proof -
  let ?c = "(DefaultConfig r)\<lparr>MaxAttempts := 3, BaseDelay := 100 * Millisecond\<rparr> :: ('u, string) config"
  let ?T = "\<lambda>(u :: 'u) h. True"
  have "run r ?T (execute_value ?c Background [] rotation_action)
      (returning (Ret (''Successful connection to tertiary-api.example.com'', None)) ?T)"
    by (rule run_value_third_time [where n = 11 and m = 11 and ?P1.0 = ?T and ?P2.0 = ?T])
      (auto simp: fresh_def default_middlewares_def DefaultConfig_def intro!: rotation_attempts)
  then have "run r ?T (rotation_main r) (returning (Ret (''Successful connection to tertiary-api.example.com'', None)) ?T)"
    unfolding rotation_main_def
    by (rule run_with_config [OF run_DoState_ok]) (simp_all add: good_NewFullJitter duration_units)
  then show ?thesis using assms by (auto simp: undisturbed_def elim: runE [where w = w])
qed

theorem rotation_reaches_tertiary_witness:
  "fst (rotation_main 0 (calm_world ())) = Ret (''Successful connection to tertiary-api.example.com'', None)"
  by (rule rotation_reaches_tertiary)
    (simp_all add: alone_def empty_heap_def good_NewFullJitter duration_units)

section \<open>The state machine connects and disconnects\<close>

lemma machine_config [simp]:
  "cfg (New_config machine_options h r t) = (DefaultConfig r)\<lparr>MaxAttempts := 3, BaseDelay := 100 * Millisecond\<rparr>"
  "h_jitters (b_heap (New_config machine_options h r t)) r = NewFullJitter (100 * Millisecond) (30 * Second)"
  by (simp_all add: machine_options_def New_config_def apply_options_def start_builder_def option_defs add_mw_def
      DefaultConfig_def NewFullJitter_def)

lemma run_Handle:
  assumes "run r P (execute_value c x zero (\<lambda>x rs.
             bind (transition x (sm_state sm) (sm_data sm) event rs) (\<lambda>(next, err).
               case err of Some e \<Rightarrow> ret (zero, Some e) | None \<Rightarrow> ret (next, None)))) (returning (Ret ((s, d), None)) Q)"
  shows "run r P (Handle c zero transition x event sm) (returning (Ret (None, \<lparr>sm_state = s, sm_data = d\<rparr>)) Q)"
  unfolding Handle_def by (rule run_bind [OF assms]) (cases sm, simp add: run_ret)

lemma machine_step:
  "Attempt rs < 2 \<Longrightarrow> machine_transition x Disconnected d Connect rs = ret (([], d), Some (UserError 12))"
  "\<not> Attempt rs < 2 \<Longrightarrow> machine_transition x Disconnected d Connect rs = ret ((Connected, d), None)"
  "machine_transition x Connected d Disconnect rs = ret ((Disconnected, d), None)"
  by (simp_all add: machine_transition_def Disconnected_def Connected_def Connect_def Disconnect_def)

text \<open>
  The connection state machine of the example works as its events say: the first event
  connects at the third attempt of its transition, the second disconnects at the first, for every clock
  and all random choices; the failed attempts leave no trace in the machine.
\<close>

theorem machine_connects_and_disconnects:
  fixes w :: "'u world"
  assumes "alone (orc w)" "good_jitter (h_jitters (heap w) r)"
  shows "fst (machine_main r w) = Ret ((None, Connected), (None, Disconnected))"
proof -
  let ?c = "(DefaultConfig r)\<lparr>MaxAttempts := 3, BaseDelay := 100 * Millisecond\<rparr> :: ('u, unit) config"
  let ?T = "\<lambda>(u :: 'u) h. True" and ?d = "zero_data\<lparr>Endpoint := ''api.example.com''\<rparr>"
  have handle: "run r ?T (machine_Handle r event sm) (returning (Ret (None, \<lparr>sm_state = st, sm_data = d\<rparr>)) ?T)"
    if "run r ?T (Handle ?c ([], zero_data) machine_transition Background event sm)
      (returning (Ret (None, \<lparr>sm_state = st, sm_data = d\<rparr>)) ?T)" for event sm st d
    using that unfolding machine_Handle_def by (rule run_with_config) (simp_all add: good_NewFullJitter duration_units)
  have one: "run r ?T (machine_Handle r Connect (NewStateMachine Disconnected ?d))
      (returning (Ret (None, \<lparr>sm_state = Connected, sm_data = ?d\<rparr>)) ?T)"
    by (rule handle, rule run_Handle, rule run_value_third_time [where n = 12 and m = 12 and ?P1.0 = ?T and ?P2.0 = ?T])
      (auto simp: fresh_def default_middlewares_def DefaultConfig_def NewStateMachine_def machine_step intro: run_ret simp del: ret_apply)
  have two: "run r ?T (machine_Handle r Disconnect \<lparr>sm_state = Connected, sm_data = ?d\<rparr>)
      (returning (Ret (None, \<lparr>sm_state = Disconnected, sm_data = ?d\<rparr>)) ?T)"
    by (rule handle, rule run_Handle, rule run_value_first_time)
      (auto simp: fresh_def default_middlewares_def DefaultConfig_def machine_step intro: run_ret simp del: ret_apply)
  have "run r ?T (machine_main r) (returning (Ret ((None, Connected), (None, Disconnected))) ?T)"
    unfolding machine_main_def Let_def
    by (rule run_bind [OF one], unfold prod.case, rule run_bind [OF two]) (simp add: GetState_def run_ret)
  then show ?thesis using assms by (auto simp: undisturbed_def elim: runE [where w = w])
qed

theorem machine_connects_and_disconnects_witness:
  "fst (machine_main 0 (calm_world ())) = Ret ((None, Connected), (None, Disconnected))"
  by (rule machine_connects_and_disconnects)
    (simp_all add: alone_def empty_heap_def good_NewFullJitter duration_units)

section \<open>The retry budget is not exhausted\<close>

lemma budget_config [simp]:
  "cfg (New_config (budget_options k i) h r t) = (DefaultConfig r)\<lparr>Name := ''request-'' @ [char_of (48 + i)],
     MaxAttempts := 10, BaseDelay := 10 * Millisecond, AdaptiveBucket := Some k\<rparr>"
  "h_jitters (b_heap (New_config (budget_options k i) h r t)) r = NewFullJitter (10 * Millisecond) (30 * Second)"
  "h_buckets (b_heap (New_config (budget_options k i) h r t)) = h_buckets h"
  by (simp_all add: budget_options_def New_config_def apply_options_def start_builder_def option_defs add_mw_def
      DefaultConfig_def NewFullJitter_def)

text \<open>The default bucket after \<open>j\<close> retries.\<close>

definition bucket_after :: "nat \<Rightarrow> adaptive_bucket" where
  "bucket_after j = DefaultAdaptiveBucket\<lparr>ab_tokens := Fin (500 - 5 * of_nat j)\<rparr>"

lemma acquire_bucket_after:
  assumes "j < 100"
  shows "AcquireRetryToken (bucket_after j) = (True, bucket_after (Suc j))"
proof -
  have j: "(of_nat j :: rat) \<le> of_nat 99" using assms by (simp only: of_nat_le_iff)
  have "integral (500 - 5 * of_nat j :: rat)"
    using integral_of_int [of "500 - 5 * int j"] by simp
  then have "bucket_exact (bucket_after j)"
    using j Default_exact by (auto simp: bucket_after_def bucket_exact_def bucket_defs)
  from Acquire_exact [OF this] show ?thesis
    using j by (simp add: bucket_after_def bucket_defs algebra_simps)
qed

lemma run_bucket_acquire:
  assumes "j < 100"
  shows "run r (\<lambda>u h. P u \<and> h_buckets h k = bucket_after j) (bucket_acquire k)
    (returning (Ret True) (\<lambda>u h. P u \<and> h_buckets h k = bucket_after (Suc j)))"
  using acquire_bucket_after [OF assms]
  by (auto simp: run_def bucket_acquire_def atomic_def Let_def undisturbed_def split: prod.splits)

lemma bucket_after_0: "bucket_after 0 = DefaultAdaptiveBucket"
  by (simp add: bucket_after_def bucket_defs)

lemma run_budget_request:
  assumes "j + 9 \<le> 99"
  shows "run r (\<lambda>u h. u = n \<and> h_buckets h k = bucket_after j)
    (with_config r (budget_options k i :: (nat, unit) opt list) (\<lambda>c. DoErr c Background overwhelmed_action))
    (returning (Ret (Some (JoinErr (replicate 10 (UserError 15))))) (\<lambda>u h. u = n + 10 \<and> h_buckets h k = bucket_after (j + 9)))"
proof -
  let ?c = "(DefaultConfig r)\<lparr>Name := ''request-'' @ [char_of (48 + i)], MaxAttempts := 10,
     BaseDelay := 10 * Millisecond, AdaptiveBucket := Some k\<rparr> :: (nat, unit) config"
  let ?P = "\<lambda>l u h. u = n + l \<and> h_buckets h k = bucket_after (j + l)"
  let ?F = "\<lambda>l u h. u = n + Suc l \<and> h_buckets h k = bucket_after (j + l)"
  have mws: "default_middlewares ?c = [MwRetry, MwDeadline, MwInstrumenter]"
    by (simp add: default_middlewares_def DefaultConfig_def)
  have a: "run r (?P l) (deadlineMiddleware ?c (instrumenterMiddleware ?c (\<lambda>x _. overwhelmed_action x)) Background st')
      (returning (Ret (Some (UserError 15))) (?F l))" for l st'
    by (auto simp: run_def overwhelmed_action_def undisturbed_def)
  have t: "run r (?F l) (retry_token ?c) (returning (Ret True) (?P (Suc l)))" if "Suc l < 10" for l
    using run_bucket_acquire [of "j + l" r "\<lambda>u. u = n + Suc l" k] that assms by (simp add: retry_token_def)
  have "run r (?P 0) (retryMiddleware ?c (deadlineMiddleware ?c (instrumenterMiddleware ?c (\<lambda>x _. overwhelmed_action x))) Background st)
      (returning (Ret (Some (JoinErr (replicate (unat (MaxAttempts ?c)) (UserError 15))))) (?F (unat (MaxAttempts ?c) - 1)))" for st
    by (rule run_exhausts [where P = ?P and F = ?F]) (use a t in auto)
  then have "run r (\<lambda>u h. u = n \<and> h_buckets h k = bucket_after j) (DoErr ?c Background overwhelmed_action)
      (returning (Ret (Some (JoinErr (replicate 10 (UserError 15))))) (\<lambda>u h. u = n + 10 \<and> h_buckets h k = bucket_after (j + 9)))"
    using mws by (intro run_DoErr) (simp_all add: fresh_def)
  then show ?thesis
    by (rule run_with_config) (simp_all add: good_NewFullJitter duration_units)
qed

text \<open>
  The example of the adaptive bucket does not show what it announces. Its three requests make
  all ten attempts each, thirty runs of the action in all, and the bucket still grants a retry at the
  end: a retry costs five of five hundred tokens, so the twenty-seven retries never exhaust it, and no
  request fails faster than the one before.
\<close>

theorem budget_example_never_limits:
  assumes "alone (orc w)" "good_jitter (h_jitters (heap w) r)" "user w = 0" "budget_main r k w = (a, w')"
  shows "a = Ret (replicate 3 (Some (JoinErr (replicate 10 (UserError 15)))), True) \<and> user w' = 30"
proof -
  let ?e = "Some (JoinErr (replicate 10 (UserError 15)))"
  let ?P = "\<lambda>n j u h. u = n \<and> h_buckets h k = bucket_after j"
  have step: "run r (?P n j) (budget_requests r k (i # is)) (returning (Ret (?e # es)) (?P m l))"
    if "j + 9 \<le> 99" "run r (?P (n + 10) (j + 9)) (budget_requests r k is) (returning (Ret es) (?P m l))" for n j i "is" es m l
    unfolding budget_requests.simps by (rule run_bind [OF run_budget_request [OF that(1)]], rule run_bind [OF that(2)], rule run_ret)
  have "run r (?P 30 27) (budget_requests r k []) (returning (Ret []) (?P 30 27))" using run_ret by simp
  then have "run r (?P 20 18) (budget_requests r k [3]) (returning (Ret [?e]) (?P 30 27))" by - (rule step, simp_all del: budget_requests.simps)
  then have "run r (?P 10 9) (budget_requests r k [2, 3]) (returning (Ret [?e, ?e]) (?P 30 27))" by - (rule step, simp_all del: budget_requests.simps)
  then have three: "run r (?P 0 0) (budget_requests r k [1, 2, 3]) (returning (Ret [?e, ?e, ?e]) (?P 30 27))"
    by - (rule step, simp_all del: budget_requests.simps)
  have "run r (?P 0 0) (bind (budget_requests r k [1, 2, 3]) (\<lambda>errs. bind (bucket_acquire k) (\<lambda>left. ret (errs, left))))
      (returning (Ret ([?e, ?e, ?e], True)) (?P 30 28))"
    using run_bucket_acquire [of 27 r "\<lambda>u. u = 30" k]
    by (intro run_bind [OF three] run_bind [where m = "bucket_acquire k", OF _ run_ret]) simp
  then show ?thesis
    using assms by (auto simp: budget_main_def undisturbed_def bucket_after_0 numeral_3_eq_3 simp del: budget_requests.simps elim!: runE
        [where w = "w\<lparr>heap := (heap w)\<lparr>h_buckets := (h_buckets (heap w))(k := DefaultAdaptiveBucket)\<rparr>\<rparr>"])
qed

theorem budget_example_never_limits_witness:
  "fst (budget_main 0 0 (calm_world 0)) = Ret (replicate 3 (Some (JoinErr (replicate 10 (UserError 15)))), True)"
  using budget_example_never_limits [of "calm_world 0" 0 0, OF _ _ _ surjective_pairing]
  by (simp add: alone_def empty_heap_def good_NewFullJitter duration_units)

section \<open>The fallbacks\<close>

lemma fallback_configs [simp]:
  "cfg (New_config stale_options h r t) = (DefaultConfig r)\<lparr>MaxAttempts := 3, BaseDelay := 100 * Millisecond,
     Fallback := FallbackValue (\<lambda>x e. ret (''stale data from cache (2026-03-01)'', None))\<rparr>"
  "h_jitters (b_heap (New_config stale_options h r t)) r = NewFullJitter (100 * Millisecond) (30 * Second)"
  "cfg (New_config alert_options h r t) = (DefaultConfig r)\<lparr>MaxAttempts := 2, BaseDelay := 100 * Millisecond,
     Fallback := FallbackErr (\<lambda>x e. ret (Some (UserError 14)))\<rparr>"
  "h_jitters (b_heap (New_config alert_options h r t)) r = NewFullJitter (100 * Millisecond) (30 * Second)"
  by (simp_all add: stale_options_def alert_options_def New_config_def apply_options_def start_builder_def option_defs
      add_mw_def DefaultConfig_def NewFullJitter_def)

text \<open>
  The two fallbacks replace what the failed calls return: the value-returning call yields the
  stale data without an error, the other one the error of its fallback, for every clock and all random
  choices.
\<close>

theorem fallbacks_replace_failures:
  fixes w :: "'u world"
  assumes "alone (orc w)" "good_jitter (h_jitters (heap w) r)"
  shows "fst (fallback_main r w) = Ret ((''stale data from cache (2026-03-01)'', None), Some (UserError 14))"
proof -
  let ?T = "\<lambda>(u :: 'u) (h :: shared). True" and ?s = "''stale data from cache (2026-03-01)''"
  have one: "run r ?T (with_config r stale_options (\<lambda>c. Do c Background [] (\<lambda>x. ret ([], Some errUnreachable))))
      (returning (Ret (?s, None)) ?T)"
    unfolding Do_def
    by (rule run_with_config, rule run_DoState_fallback, rule run_value_exhausts)
      (auto simp: fresh_def default_middlewares_def errUnreachable_def good_NewFullJitter duration_units
        intro: run_ret simp del: ret_apply)
  have two: "run r ?T (with_config r (alert_options :: ('u, unit) opt list) (\<lambda>c. DoErr c Background (\<lambda>x. ret (Some errUnreachable))))
      (returning (Ret (Some (UserError 14))) ?T)"
  proof (rule run_with_config, rule run_DoErr_fallback)
    let ?c = "(DefaultConfig r)\<lparr>MaxAttempts := 2, BaseDelay := 100 * Millisecond,
      Fallback := FallbackErr (\<lambda>x e. ret (Some (UserError 14)))\<rparr> :: ('u, unit) config"
    have "run r ?T (retryMiddleware ?c (deadlineMiddleware ?c (instrumenterMiddleware ?c (\<lambda>x _. ret (Some errUnreachable)))) Background st)
        (returning (Ret (Some (JoinErr (replicate (unat (MaxAttempts ?c)) errUnreachable)))) ?T)" for st
      by (rule run_exhausts [where P = "\<lambda>_. ?T" and F = "\<lambda>_. ?T"])
        (auto simp: errUnreachable_def intro: run_ret run_no_bucket simp del: ret_apply)
    then show "run r ?T (compose ?c (default_middlewares ?c) (terminalAction (Some (\<lambda>x _. ret (Some errUnreachable))) None)
        Background (initial_state ?c)) (returning (Ret (Some (JoinErr (replicate 2 errUnreachable)))) ?T)"
      by (simp add: default_middlewares_def)
  qed (auto simp: fresh_def good_NewFullJitter duration_units intro: run_ret simp del: ret_apply)
  have "run r ?T (fallback_main r) (returning (Ret ((?s, None), Some (UserError 14))) ?T)"
    unfolding fallback_main_def by (rule run_bind [OF one], rule run_bind [OF two run_ret])
  then show ?thesis using assms by (auto simp: undisturbed_def elim: runE [where w = w])
qed

theorem fallbacks_replace_failures_witness:
  "fst (fallback_main 0 (calm_world ())) = Ret ((''stale data from cache (2026-03-01)'', None), Some (UserError 14))"
  by (rule fallbacks_replace_failures) (simp_all add: alone_def empty_heap_def good_NewFullJitter duration_units)

section \<open>The panics are recovered\<close>

lemma panic_configs [simp]:
  "cfg (New_config risky_options h r t) = (DefaultConfig r)\<lparr>RecoverPanics := True, MaxAttempts := 5, BaseDelay := 500 * Millisecond\<rparr>"
  "h_jitters (b_heap (New_config risky_options h r t)) r = NewFullJitter (500 * Millisecond) (30 * Second)"
  "cfg (New_config hopeless_options h r t) = (DefaultConfig r)\<lparr>RecoverPanics := True, MaxAttempts := 1\<rparr>"
  "h_jitters (b_heap (New_config hopeless_options h r t)) r = NewFullJitter (100 * Millisecond) (30 * Second)"
  by (simp_all add: risky_options_def hopeless_options_def New_config_def apply_options_def start_builder_def option_defs
      add_mw_def DefaultConfig_def NewFullJitter_def)

lemma run_risky:
  "n < 2 \<Longrightarrow> run r (\<lambda>u h. u = n) (risky_action x) (returning (Panic (PanicValue 1)) (\<lambda>u h. u = n + 1))"
  "run r (\<lambda>u h. u = 2) (risky_action x) (returning (Ret (''SUCCESS: result after 2 transient panics'', None)) (\<lambda>u h. u = 3))"
  by (auto simp: run_def risky_action_def undisturbed_def Let_def)

text \<open>
  Panics are recovered and retried: the action that panics twice returns its value at the third
  attempt, and the one that panics at its only attempt gives an error in which its panic value is found,
  for every clock and all random choices.
\<close>

theorem panics_recovered:
  assumes "alone (orc w)" "good_jitter (h_jitters (heap w) r)" "user w = 0"
  shows "fst (panic_main r w) = Ret ((''SUCCESS: result after 2 transient panics'', None), Some (PanicValue 2))"
proof -
  let ?s = "''SUCCESS: result after 2 transient panics''" and ?U = "\<lambda>n (u :: int) (h :: shared). u = n"
  let ?c = "(DefaultConfig r)\<lparr>RecoverPanics := True, MaxAttempts := 5, BaseDelay := 500 * Millisecond\<rparr> :: (int, string) config"
  let ?lifted = "lift_config ?c :: (int \<times> string, unit) config" and ?ms = "[MwInstrumenter, MwPanicRecovery]"
  let ?c' = "(DefaultConfig r)\<lparr>RecoverPanics := True, MaxAttempts := 1\<rparr> :: (int, unit) config"
  have "run r (?U 0) (execute_value ?c Background [] (\<lambda>x _. risky_action x)) (returning (Ret (?s, None)) (?U 3))"
  proof (rule run_value_chain_third_time [where ms = ?ms
        and e = "PanicError (PanicValue 1)" and e' = "PanicError (PanicValue 1)" and ?P1.0 = "?U 1" and ?P2.0 = "?U 2"])
    show "default_middlewares ?c = MwRetry # MwDeadline # ?ms" by (simp add: default_middlewares_def)
    fix st' :: retry_state
    have "n < 2 \<Longrightarrow> run r (\<lambda>u. ?U n (fst u)) (panicRecoveryMiddleware (assigning (\<lambda>x _. risky_action x)) Background st')
        (returning (Ret (Some (PanicError (PanicValue 1)))) (\<lambda>u. ?U (n + 1) (fst u)))" for n
      by (intro run_recovered(1) run_assigning_panic run_risky)
    from this [of 0] this [of 1]
    show "run r (\<lambda>u. ?U 0 (fst u)) (compose ?lifted ?ms (assigning (\<lambda>x _. risky_action x)) Background st')
        (returning (Ret (Some (PanicError (PanicValue 1)))) (\<lambda>u. ?U 1 (fst u)))"
      "run r (\<lambda>u. ?U 1 (fst u)) (compose ?lifted ?ms (assigning (\<lambda>x _. risky_action x)) Background st')
        (returning (Ret (Some (PanicError (PanicValue 1)))) (\<lambda>u. ?U 2 (fst u)))" by simp_all
    show "run r (\<lambda>u. ?U 2 (fst u)) (compose ?lifted ?ms (assigning (\<lambda>x _. risky_action x)) Background st')
        (returning (Ret None) (\<lambda>u h. ?U 3 (fst u) h \<and> snd u = ?s))"
      using run_recovered(2) [OF run_assigning [OF run_risky(2)]] by simp
  qed (auto simp: fresh_def)
  then have one: "run r (?U 0) (with_config r (risky_options :: (int, string) opt list) (\<lambda>c. Do c Background [] risky_action))
      (returning (Ret (?s, None)) (?U 3))"
    unfolding Do_def by (rule run_with_config [OF run_DoState_ok]) (simp_all add: good_NewFullJitter duration_units)
  have two: "run r (?U 3) (with_config r (hopeless_options :: (int, unit) opt list) (\<lambda>c. DoErr c Background (\<lambda>x w. (Panic (PanicValue 2), w))))
      (returning (Ret (Some (JoinErr [PanicError (PanicValue 2)]))) (?U 3))"
  proof (rule run_with_config, rule run_DoErr)
    have "run r (?U 3) (panicRecoveryMiddleware (\<lambda>x _ w. (Panic (PanicValue 2), w)) Background st)
        (returning (Ret (Some (PanicError (PanicValue 2)))) (?U 3))" for st
      by (rule run_recovered) (simp add: run_def)
    then have "run r (?U 3) (retryMiddleware ?c' (deadlineMiddleware ?c' (instrumenterMiddleware ?c'
          (panicRecoveryMiddleware (\<lambda>x _ w. (Panic (PanicValue 2), w))))) Background st)
        (returning (Ret (Some (JoinErr ([] @ [PanicError (PanicValue 2)])))) (?U 3))" for st
      by (intro run_retry run_retry_last) simp_all
    then show "run r (?U 3) (compose ?c' (default_middlewares ?c') (terminalAction (Some (\<lambda>x _ w. (Panic (PanicValue 2), w))) None)
        Background (initial_state ?c')) (returning (Ret (Some (JoinErr [PanicError (PanicValue 2)]))) (?U 3))"
      by (simp add: default_middlewares_def)
  qed (auto simp: fresh_def good_NewFullJitter duration_units)
  have "run r (?U 0) (panic_main r) (returning (Ret ((?s, None), Some (PanicValue 2))) (?U 3))"
    unfolding panic_main_def by (rule run_bind [OF one], rule run_bind [OF two]) (simp add: run_def)
  then show ?thesis using assms by (auto simp: undisturbed_def elim: runE [where w = w])
qed

theorem panics_recovered_witness:
  "fst (panic_main 0 (calm_world 0)) = Ret ((''SUCCESS: result after 2 transient panics'', None), Some (PanicValue 2))"
  by (rule panics_recovered) (simp_all add: alone_def empty_heap_def good_NewFullJitter duration_units)

section \<open>The database call opens its breaker\<close>

lemma sql_config [simp]:
  "cfg (New_config (sql_options k) h r t) = (DefaultConfig r)\<lparr>MaxAttempts := 3, BaseDelay := 100 * Millisecond, CircuitBreaker := Some k\<rparr>"
  "h_jitters (b_heap (New_config (sql_options k) h r t)) r = NewFullJitter (100 * Millisecond) (30 * Second)"
  "h_breakers (b_heap (New_config (sql_options k) h r t)) = h_breakers h"
  by (simp_all add: sql_options_def New_config_def apply_options_def start_builder_def option_defs add_mw_def
      DefaultConfig_def NewFullJitter_def)

abbreviation sql_breaker_after :: "nat \<Rightarrow> breaker" where
  "sql_breaker_after j \<equiv> with_failures j (New sql_breaker)"

lemma sql_breaker_fields [simp]:
  "WindowType sql_breaker = WindowCountBased" "MinimumCalls sql_breaker = 3" "FailureRateThreshold sql_breaker = Fin 50"
  by (simp_all add: sql_breaker_def)

lemma New_sql_breaker:
  "config (New sql_breaker) = sql_breaker\<lparr>WindowDuration := 60 * Second, HalfOpenMaxCalls := 10\<rparr>"
  "state (New sql_breaker) = StateClosed" "ring (New sql_breaker) = replicate 10 False" "\<not> ringFull (New sql_breaker)"
  by (simp_all add: New_def with_defaults_def sql_breaker_def duration_units Let_def)

lemma sql_breaker_steps:
  "sql_breaker_after 0 = New sql_breaker"
  "j < 2 \<Longrightarrow> complete clk StateClosed (Some e) (sql_breaker_after j) = sql_breaker_after (Suc j)"
  "state (complete clk StateClosed None (sql_breaker_after 2)) = StateOpen"
proof -
  show "sql_breaker_after 0 = New sql_breaker" by (simp add: with_failures_def New_def Let_def)
  show "complete clk StateClosed (Some e) (sql_breaker_after j) = sql_breaker_after (Suc j)" if "j < 2"
    using that by (intro with_failures_step(2) [where n = 10]) (simp_all add: New_sql_breaker)
  have "failure_rate 2 3 \<ge> Fin 50" by code_simp
  then show "state (complete clk StateClosed None (sql_breaker_after 2)) = StateOpen"
    by (simp add: complete_def onSuccess_def record_outcome_def recordCountBased_def checkFailureRate_def getStatsLocked_def
        New_sql_breaker Let_def)
qed

text \<open>
  The database call succeeds at the third attempt and opens its circuit breaker by that: two of
  the three calls in the window have failed, which reaches the threshold when the success completes the
  minimum of calls, so the next query would be rejected.
\<close>

theorem sql_success_opens_breaker:
  assumes "alone (orc w)" "good_jitter (h_jitters (heap w) r)" "user w = 0" "sql_main r k w = (a, w')"
  shows "a = Ret (Some 1, None) \<and> user w' = 3 \<and> state (h_breakers (heap w') k) = StateOpen"
proof -
  let ?c = "(DefaultConfig r)\<lparr>MaxAttempts := 3, BaseDelay := 100 * Millisecond, CircuitBreaker := Some k\<rparr> :: (i32, int option) config"
  let ?ms = "[MwCircuitBreaker, MwInstrumenter]" and ?e = "UserError 16"
  let ?lifted = "lift_config ?c :: (i32 \<times> int option, unit) config"
  let ?P = "\<lambda>j (u :: i32) h. u = of_nat j \<and> h_breakers h k = sql_breaker_after j"
  let ?Q = "\<lambda>(u :: i32) h. u = 3 \<and> state (h_breakers h k) = StateOpen"
  have fail: "run r (\<lambda>u. ?P j (fst u)) (compose ?lifted ?ms (assigning (\<lambda>x _. driver_ExecContext)) Background st')
      (returning (Ret (Some ?e)) (\<lambda>u. ?P (Suc j) (fst u)))" if "j < 2" for j st'
  proof -
    have "sint (of_nat j + 1 :: i32) < 3" using that by (auto simp: less_2_cases_iff)
    then have d: "run r (?P j) driver_ExecContext (returning (Ret (None, Some ?e))
        (\<lambda>u h. u = of_nat (Suc j) \<and> h_breakers h k = sql_breaker_after j))"
      by (auto simp: run_def driver_ExecContext_def undisturbed_def Let_def)
    have "run r (\<lambda>u. ?P j (fst u)) (Breaker_Execute k Background (assigning (\<lambda>x _. driver_ExecContext) Background st'))
        (returning (Ret (Some ?e)) (\<lambda>u. ?P (Suc j) (fst u)))"
      by (rule run_breaker [OF _ run_assigning_err [OF d]]) (auto simp: sql_breaker_steps New_sql_breaker that)
    then show ?thesis by (simp add: circuitBreakerMiddleware_def)
  qed
  have ok: "run r (\<lambda>u. ?P 2 (fst u)) (compose ?lifted ?ms (assigning (\<lambda>x _. driver_ExecContext)) Background st')
      (returning (Ret None) (\<lambda>u h. ?Q (fst u) h \<and> snd u = Some 1))" for st'
  proof -
    have d: "run r (?P 2) driver_ExecContext (returning (Ret (Some 1, None)) (\<lambda>u h. u = 3 \<and> h_breakers h k = sql_breaker_after 2))"
      by (auto simp: run_def driver_ExecContext_def undisturbed_def Let_def)
    have "run r (\<lambda>u. ?P 2 (fst u)) (Breaker_Execute k Background (assigning (\<lambda>x _. driver_ExecContext) Background st'))
        (returning (Ret None) (\<lambda>u h. ?Q (fst u) h \<and> snd u = Some 1))"
      by (rule run_breaker [OF _ run_assigning [OF d]]) (auto simp: sql_breaker_steps New_sql_breaker)
    then show ?thesis by (simp add: circuitBreakerMiddleware_def)
  qed
  have two: "Suc (Suc 0) = 2" by simp
  have "run r (?P 0) (execute_value ?c Background None (\<lambda>x _. driver_ExecContext)) (returning (Ret (Some 1, None)) ?Q)"
    by (rule run_value_chain_third_time [where ms = ?ms and e = ?e and e' = ?e and ?P1.0 = "?P 1" and ?P2.0 = "?P 2"])
      (use fail [of 0] fail [of 1] ok two in \<open>simp_all add: fresh_def default_middlewares_def\<close>)
  then have "run r (?P 0) (with_config r (sql_options k :: (i32, int option) opt list)
      (\<lambda>c. Do c Background None (\<lambda>x. driver_ExecContext))) (returning (Ret (Some 1, None)) ?Q)"
    unfolding Do_def by (rule run_with_config [OF run_DoState_ok]) (simp_all add: good_NewFullJitter duration_units)
  then show ?thesis
    using assms by (auto simp: sql_main_def undisturbed_def sql_breaker_steps(1) elim!: runE
        [where w = "w\<lparr>heap := (heap w)\<lparr>h_breakers := (h_breakers (heap w))(k := New sql_breaker)\<rparr>\<rparr>"])
qed

theorem sql_success_opens_breaker_witness:
  "fst (sql_main 0 0 (calm_world 0)) = Ret (Some 1, None)"
  using sql_success_opens_breaker [of "calm_world 0" 0 0, OF _ _ _ surjective_pairing]
  by (simp add: alone_def empty_heap_def good_NewFullJitter duration_units)

end
