(* ===== verification/Example_Calls.thy ===== *)
theory Example_Calls
  imports Example_Programs Telemetry
begin

text \<open>
  More programs under \<^verbatim>\<open>examples\<close>: the two calls of \<^verbatim>\<open>basic\<close>, the circuit
  breaker around retries of \<^verbatim>\<open>circuitbreaker\<close>, and the server that stops all retries of
  \<^verbatim>\<open>pushback\<close>, whose attempts are logged. As in \<open>Example_Programs\<close>, the theorems hold
  for every clock and all random choices.
\<close>

section \<open>The basic calls\<close>

definition ping_options :: "('u, 't) opt list" where
  "ping_options = [WithMaxAttempts 3, WithBaseDelay (100 * Millisecond)]"

definition basic_main :: "nat \<Rightarrow> ('u, go_error option \<times> string \<times> go_error option) prog" where
  "basic_main r =
     bind (with_config r (ping_options :: ('u, unit) opt list)
             (\<lambda>c. DoErr c Background (\<lambda>x. ret (Some (UserError 17))))) (\<lambda>err.
     bind (with_config r ([] :: ('u, string) opt list)
             (\<lambda>c. Do c Background [] (\<lambda>x. ret (''DATABASE_URL=postgres://localhost:5432/mydb'', None)))) (\<lambda>res.
       ret (err, res)))"

lemma basic_configs [simp]:
  "cfg (New_config ping_options h r t) = (DefaultConfig r)\<lparr>MaxAttempts := 3, BaseDelay := 100 * Millisecond\<rparr>"
  "h_jitters (b_heap (New_config ping_options h r t)) r = NewFullJitter (100 * Millisecond) (30 * Second)"
  "cfg (New_config [] h r t) = DefaultConfig r"
  "h_jitters (b_heap (New_config [] h r t)) r = NewFullJitter (100 * Millisecond) (30 * Second)"
  by (simp_all add: ping_options_def New_config_def apply_options_def start_builder_def option_defs add_mw_def
      DefaultConfig_def NewFullJitter_def)

text \<open>
  The first basic call fails with the errors of its three attempts, the second one returns its
  value at once.
\<close>

theorem basic_calls:
  fixes w :: "'u world"
  assumes "alone (orc w)" "good_jitter (h_jitters (heap w) r)"
  shows "fst (basic_main r w) =
    Ret (Some (JoinErr (replicate 3 (UserError 17))), ''DATABASE_URL=postgres://localhost:5432/mydb'', None)"
proof -
  let ?c = "(DefaultConfig r)\<lparr>MaxAttempts := 3, BaseDelay := 100 * Millisecond\<rparr> :: ('u, unit) config"
  let ?T = "\<lambda>(u :: 'u) (h :: shared). True" and ?e = "UserError 17" and ?s = "''DATABASE_URL=postgres://localhost:5432/mydb''"
  have one: "run r ?T (with_config r (ping_options :: ('u, unit) opt list) (\<lambda>c. DoErr c Background (\<lambda>x. ret (Some ?e))))
      (returning (Ret (Some (JoinErr (replicate 3 ?e)))) ?T)"
  proof (rule run_with_config, rule run_DoErr)
    have "run r ?T (retryMiddleware ?c (deadlineMiddleware ?c (instrumenterMiddleware ?c (\<lambda>x _. ret (Some ?e)))) Background st)
        (returning (Ret (Some (JoinErr (replicate (unat (MaxAttempts ?c)) ?e)))) ?T)" for st
      by (rule run_exhausts [where P = "\<lambda>_. ?T" and F = "\<lambda>_. ?T"])
        (auto intro: run_ret run_no_bucket simp del: ret_apply)
    then show "run r ?T (compose ?c (default_middlewares ?c) (terminalAction (Some (\<lambda>x _. ret (Some ?e))) None)
        Background (initial_state ?c)) (returning (Ret (Some (JoinErr (replicate 3 ?e)))) ?T)"
      by (simp add: default_middlewares_def)
  qed (auto simp: fresh_def good_NewFullJitter duration_units)
  have "run r ?T (execute_value (DefaultConfig r :: ('u, string) config) Background [] (\<lambda>x _. ret (?s, None)))
      (returning (Ret (?s, None)) ?T)"
    by (rule run_value_first_time) (auto simp: fresh_def default_middlewares_def intro: run_ret simp del: ret_apply)
  then have two: "run r ?T (with_config r ([] :: ('u, string) opt list) (\<lambda>c. Do c Background [] (\<lambda>x. ret (?s, None))))
      (returning (Ret (?s, None)) ?T)"
    unfolding Do_def by (rule run_with_config [OF run_DoState_ok]) (simp_all add: good_NewFullJitter duration_units)
  have "run r ?T (basic_main r) (returning (Ret (Some (JoinErr (replicate 3 ?e)), ?s, None)) ?T)"
    unfolding basic_main_def by (rule run_bind [OF one], rule run_bind [OF two run_ret])
  then show ?thesis using assms by (auto simp: undisturbed_def elim: runE [where w = w])
qed

section \<open>A breaker around retries\<close>

definition layered_breaker :: breaker_config where
  "layered_breaker = \<lparr>WindowType = WindowCountBased, WindowSize = 10, WindowDuration = 0,
     FailureRateThreshold = Fin 50, MinimumCalls = 4, ResetTimeout = 5 * Second, HalfOpenMaxCalls = 2\<rparr>"

definition layered_options :: "nat \<Rightarrow> ('u, 't) opt list" where
  "layered_options k = [WithCircuitBreaker (Some k), WithMaxAttempts 2, WithBaseDelay 0]"

definition unavailable_action :: "ctx \<Rightarrow> (nat, go_error option) prog" where
  "unavailable_action x w = (Ret (Some (UserError 18)), w\<lparr>user := Suc (user w)\<rparr>)"

text \<open>The errors of the first \<open>n\<close> iterations; the program makes five.\<close>

fun layered_iterations :: "nat \<Rightarrow> nat \<Rightarrow> nat \<Rightarrow> (nat, go_error option list) prog" where
  "layered_iterations r k 0 = ret []"
| "layered_iterations r k (Suc n) =
     bind (with_config r (layered_options k :: (nat, unit) opt list) (\<lambda>c. DoErr c Background unavailable_action)) (\<lambda>err.
     bind (layered_iterations r k n) (\<lambda>errs. ret (err # errs)))"

definition layered_main :: "nat \<Rightarrow> nat \<Rightarrow> nat \<Rightarrow> (nat, go_error option list) prog" where
  "layered_main n r k w =
     layered_iterations r k n (w\<lparr>heap := (heap w)\<lparr>h_breakers := (h_breakers (heap w))(k := New layered_breaker)\<rparr>\<rparr>)"

lemma layered_config [simp]:
  "cfg (New_config (layered_options k) h r t) = (DefaultConfig r)\<lparr>CircuitBreaker := Some k, MaxAttempts := 2, BaseDelay := 0\<rparr>"
  "h_jitters (b_heap (New_config (layered_options k) h r t)) r = NewFullJitter 0 (30 * Second)"
  "h_breakers (b_heap (New_config (layered_options k) h r t)) = h_breakers h"
  by (simp_all add: layered_options_def New_config_def apply_options_def start_builder_def option_defs add_mw_def
      DefaultConfig_def NewFullJitter_def)

lemma layered_breaker_fields [simp]:
  "WindowType layered_breaker = WindowCountBased" "MinimumCalls layered_breaker = 4" "FailureRateThreshold layered_breaker = Fin 50"
  by (simp_all add: layered_breaker_def)

lemma New_layered_breaker:
  "config (New layered_breaker) = layered_breaker\<lparr>WindowDuration := 60 * Second\<rparr>"
  "state (New layered_breaker) = StateClosed" "ring (New layered_breaker) = replicate 10 False" "\<not> ringFull (New layered_breaker)"
  "with_failures 0 (New layered_breaker) = New layered_breaker"
  by (simp_all add: New_def with_defaults_def layered_breaker_def duration_units with_failures_def Let_def)

text \<open>After \<open>j\<close> failures, the fourth of which opens the breaker.\<close>

definition layered_after :: "nat \<Rightarrow> nat \<Rightarrow> nat \<Rightarrow> shared \<Rightarrow> bool" where
  "layered_after k j u h \<longleftrightarrow> u = j \<and>
     (if j < 4 then h_breakers h k = with_failures j (New layered_breaker) else state (h_breakers h k) = StateOpen)"

lemma layered_attempt:
  assumes "j < 4"
  shows "run r (layered_after k j) (Breaker_Execute k Background (unavailable_action x))
    (returning (Ret (Some (UserError 18))) (layered_after k (Suc j)))"
proof (rule run_breaker)
  show "layered_after k j u h \<Longrightarrow> state (h_breakers h k) = StateClosed" for u h
    using assms by (simp add: layered_after_def New_layered_breaker)
  show "run r (layered_after k j) (unavailable_action x)
      (returning (Ret (Some (UserError 18))) (\<lambda>u h. u = Suc j \<and> h_breakers h k = with_failures j (New layered_breaker)))"
    using assms by (auto simp: run_def unavailable_action_def undisturbed_def layered_after_def)
  have "complete clk StateClosed (Some (UserError 18)) (with_failures j (New layered_breaker)) = with_failures (Suc j) (New layered_breaker)"
    if "Suc j < 4" for clk
    using that by (intro with_failures_step(2) [where n = 10]) (simp_all add: New_layered_breaker)
  moreover have "state (complete clk StateClosed (Some (UserError 18)) (with_failures 3 (New layered_breaker))) = StateOpen" for clk
    using with_failures_trip [of "New layered_breaker" 10 3] by (simp add: New_layered_breaker)
  moreover have "j = 3" if "\<not> Suc j < 4" using assms that by simp
  ultimately show "u = Suc j \<and> h_breakers h k = with_failures j (New layered_breaker) \<Longrightarrow> layered_after k (Suc j) u
      (h\<lparr>h_breakers := (h_breakers h)(k := complete clk StateClosed (Some (UserError 18)) (h_breakers h k))\<rparr>)" for u h clk
    using assms by (cases "Suc j < 4") (auto simp: layered_after_def)
qed

lemma layered_iteration:
  assumes "j + 2 \<le> 4"
  shows "run r (layered_after k j) (with_config r (layered_options k :: (nat, unit) opt list) (\<lambda>c. DoErr c Background unavailable_action))
    (returning (Ret (Some (JoinErr [UserError 18, UserError 18]))) (layered_after k (j + 2)))"
proof (rule run_with_config, rule run_DoErr)
  let ?c = "(DefaultConfig r)\<lparr>CircuitBreaker := Some k, MaxAttempts := 2, BaseDelay := 0\<rparr> :: (nat, unit) config"
  let ?act = "deadlineMiddleware ?c (circuitBreakerMiddleware ?c (instrumenterMiddleware ?c (\<lambda>x _. unavailable_action x)))"
  have pair: "replicate 2 e = [e, e]" for e :: go_error by (simp add: numeral_2_eq_2)
  let ?P = "\<lambda>l. layered_after k (j + l)" and ?F = "\<lambda>l. layered_after k (j + Suc l)"
  have a: "run r (?P l) (?act Background st') (returning (Ret (Some (UserError 18))) (?F l))" if "l < 2" for l st'
    using layered_attempt [of "j + l" r k Background] that assms by (simp add: circuitBreakerMiddleware_def)
  have "run r (?P 0) (retryMiddleware ?c ?act Background st)
      (returning (Ret (Some (JoinErr (replicate (unat (MaxAttempts ?c)) (UserError 18))))) (?F (unat (MaxAttempts ?c) - 1)))" for st
    by (rule run_exhausts [where P = ?P and F = ?F]) (use a in \<open>auto intro: run_no_bucket\<close>)
  then show "run r (layered_after k j) (compose ?c (default_middlewares ?c) (terminalAction (Some (\<lambda>x _. unavailable_action x)) None)
      Background (initial_state ?c)) (returning (Ret (Some (JoinErr [UserError 18, UserError 18]))) (layered_after k (j + 2)))"
    using pair by (simp add: default_middlewares_def)
qed (auto simp: fresh_def layered_after_def good_NewFullJitter duration_units)

text \<open>
  The breaker of the layered example opens as announced: the first two iterations make two
  attempts each, fail with both errors, and leave the breaker open after the fourth failure, for every
  clock and all random choices.
\<close>

theorem layered_defence_opens:
  assumes "alone (orc w)" "good_jitter (h_jitters (heap w) r)" "user w = 0" "layered_main 2 r k w = (a, w')"
  shows "a = Ret (replicate 2 (Some (JoinErr [UserError 18, UserError 18]))) \<and> user w' = 4
    \<and> state (h_breakers (heap w') k) = StateOpen"
proof -
  let ?e = "Some (JoinErr [UserError 18, UserError 18])"
  have one: "run r (layered_after k 2) (layered_iterations r k 1) (returning (Ret [?e]) (layered_after k 4))"
    unfolding One_nat_def layered_iterations.simps
    by (rule run_bind [OF layered_iteration], simp, rule run_bind [OF run_ret]) (simp only: run_ret numeral_Bit0 numeral_One add.assoc)
  have two: "run r (layered_after k 0) (with_config r (layered_options k :: (nat, unit) opt list) (\<lambda>c. DoErr c Background unavailable_action))
      (returning (Ret ?e) (layered_after k 2))"
    using layered_iteration [of 0 r k] by (simp only: add_0)
  have "run r (layered_after k 0) (layered_iterations r k (Suc 1)) (returning (Ret [?e, ?e]) (layered_after k 4))"
    unfolding layered_iterations.simps(2) [of r k 1] by (rule run_bind [OF two], rule run_bind [OF one], rule run_ret)
  then show ?thesis
    using assms by (auto simp: layered_main_def undisturbed_def layered_after_def New_layered_breaker numeral_2_eq_2
        simp del: layered_iterations.simps elim!: runE
        [where w = "w\<lparr>heap := (heap w)\<lparr>h_breakers := (h_breakers (heap w))(k := New layered_breaker)\<rparr>\<rparr>"])
qed

theorem layered_defence_opens_witness:
  "fst (layered_main 2 0 0 (calm_world 0)) = Ret (replicate 2 (Some (JoinErr [UserError 18, UserError 18])))"
  using layered_defence_opens [of "calm_world 0" 0 0, OF _ _ _ surjective_pairing]
  by (simp add: alone_def empty_heap_def good_NewFullJitter duration_units)

section \<open>A server that stops the retries\<close>

text \<open>The caller's state is the log and the number of runs of the action.\<close>

definition quota_error :: go_error where
  "quota_error = RetryAfterErr 19 (DelayFor 0) True"

definition quota_action :: "ctx \<Rightarrow> (slog_record list \<times> nat, string \<times> go_error option) prog" where
  "quota_action x w = (Ret ([], Some quota_error), w\<lparr>user := (fst (user w), Suc (snd (user w)))\<rparr>)"

definition pushback_options :: "(slog_record list \<times> nat, 't) opt list" where
  "pushback_options = [WithName ''process-payload'', WithInstrumenter (Some slog_New), WithMaxAttempts 5]"

definition pushback_main :: "nat \<Rightarrow> (slog_record list \<times> nat, string \<times> go_error option) prog" where
  "pushback_main r =
     with_config r (pushback_options :: (slog_record list \<times> nat, string) opt list) (\<lambda>c. Do c Background [] quota_action)"

lemma pushback_config [simp]:
  "cfg (New_config pushback_options h r t) = (DefaultConfig r)\<lparr>Name := ''process-payload'', Instrumenter := Some slog_New, MaxAttempts := 5\<rparr>"
  "h_jitters (b_heap (New_config pushback_options h r t)) r = NewFullJitter (100 * Millisecond) (30 * Second)"
  by (simp_all add: pushback_options_def New_config_def apply_options_def start_builder_def option_defs add_mw_def
      DefaultConfig_def NewFullJitter_def)

text \<open>An error that cancels all retries ends the call.\<close>

lemma run_retry_cancelled:
  assumes "\<And>st'. Attempt st' = 0 \<Longrightarrow> run r P (act x st') (returning (Ret (Some e)) Q)"
    "1 < MaxAttempts c" "\<not> errors_Is e ErrCircuitOpen" "shouldRetry (Policy c) (Some e)"
    "errors_As as_retry_after e = Some (d, True)" "AdaptiveBucket c = None" "Backoff c = FullJitter r"
  shows "run r P (retry_loop c act x start st 0 []) (returning (Ret (Some (JoinErr [e]))) Q)"
proof (rule run_start [where err = "Some e" and Q = Q])
  have "run r Q (delay_and_retry c x 0 [] e go) (returning (Ret (Some (JoinErr [e]))) Q)" for go
    unfolding delay_and_retry_def assms(7)
    by (rule run_bind_any [OF run_jitter]) (simp_all add: assms(5) joined_simps run_ret del: ret_apply)
  then show "run r Q (case Some e of None \<Rightarrow> bind (success_token c) (\<lambda>_. ret None)
       | Some e \<Rightarrow> after_failure c x 0 [] e (retry_loop c act x start (attempt_state st 0 []) (0 + 1) ([] @ [e])))
      (returning (Ret (Some (JoinErr [e]))) Q)"
    using assms(2) [unfolded not_le [symmetric]] assms(3-6) by (simp add: after_failure_def retry_token_def)
  show "0 < MaxAttempts c" using assms(2) by (metis word_neq_0_conv word_not_simps(1))
qed (use assms(1) in \<open>auto simp: attempt_state_def Let_def\<close>)

lemma run_DoState_no_fallback:
  assumes "run r P (execute_value c x zero action) (returning (Ret (v, err)) Q)" "Fallback c = NoFallback"
  shows "run r P (DoState c x zero action) (returning (Ret (v, err)) Q)"
  unfolding DoState_def value_fallback_def
  by (rule run_bind [OF assms(1)]) (simp add: assms(2) run_ret split: option.split del: ret_apply)

lemma run_lift_user:
  assumes "run r P m (returning a Q)"
  shows "run r (\<lambda>u. P (fst u)) (lift m) (returning a (\<lambda>u. Q (fst u)))"
proof (rule runI)
  fix w :: "('a \<times> 'c) world"
  assume "undisturbed r w" "P (fst (user w)) (heap w)"
  with runE [OF run_lift [OF assms], of w "snd (user w)"]
  show "\<exists>a' w'. lift m w = (a', w') \<and> undisturbed r w' \<and> returning a (\<lambda>u. Q (fst u)) a' (user w') (heap w')"
    by (metis returning_apply)
qed

text \<open>
  The pushback of the server ends the call: the action runs once, its error is the one
  returned, and one failed attempt is logged, for every clock and all random choices.
\<close>

theorem pushback_stops_retries:
  assumes "alone (orc w)" "good_jitter (h_jitters (heap w) r)" "user w = ([], 0)" "pushback_main r w = (a, w')"
  shows "a = Ret ([], Some (JoinErr [quota_error])) \<and> snd (user w') = 1
    \<and> map slog_msg (fst (user w')) = [''retry attempt failed'']"
proof -
  let ?c = "(DefaultConfig r)\<lparr>Name := ''process-payload'', Instrumenter := Some slog_New, MaxAttempts := 5\<rparr>
    :: (slog_record list \<times> nat, string) config"
  let ?lifted = "lift_config ?c :: ((slog_record list \<times> nat) \<times> string, unit) config"
  let ?P = "\<lambda>(u :: slog_record list \<times> nat) (h :: shared). u = ([], 0)"
  let ?Q = "\<lambda>(u :: slog_record list \<times> nat) (h :: shared). snd u = 1 \<and> map slog_msg (fst u) = [''retry attempt failed'']"
  have attempt: "run r (\<lambda>u. ?P (fst u)) (instrumenterMiddleware ?lifted (assigning (\<lambda>x _. quota_action x)) Background st')
      (returning (Ret (Some quota_error)) (\<lambda>u h. ?Q (fst u) h \<and> snd u = []))" for st'
  proof -
    let ?P1 = "\<lambda>(u :: slog_record list \<times> nat) (h :: shared). u = ([], 1)"
    have "run r ?P (slog_BeforeAttempt Background st') (returning (Ret Background) ?P)"
      by (simp add: slog_BeforeAttempt_def run_ret del: ret_apply)
    note before = run_lift_user [OF this]
    have "run r ?P (quota_action Background) (returning (Ret ([], Some quota_error)) ?P1)"
      by (simp add: run_def quota_action_def undisturbed_def)
    note action = run_assigning [where P = ?P and action = "\<lambda>x _. quota_action x", OF this]
    have "run r ?P1 (slog_AfterAttempt Background (st'\<lparr>LastError := Some quota_error\<rparr>)) (returning (Ret ()) ?Q)"
      by (simp add: run_def slog_AfterAttempt_def emit_def undisturbed_def Let_def)
    note after = run_lift [OF this, of "[]"]
    have "run r (\<lambda>u h. ?P1 (fst u) h \<and> snd u = []) (lift (slog_AfterAttempt Background (st'\<lparr>LastError := Some quota_error\<rparr>)))
        (returning (Ret ()) (\<lambda>u h. ?Q (fst u) h \<and> snd u = []))"
      by (rule run_weaken [OF after]) simp_all
    note after = run_bind [where f = "\<lambda>_. ret (Some quota_error)", OF this run_ret]
    have "instrumenterMiddleware ?lifted act Background st' =
      bind (lift (slog_BeforeAttempt Background st')) (\<lambda>x. bind (act x st') (\<lambda>err.
        bind (lift (slog_AfterAttempt x (st'\<lparr>LastError := err\<rparr>))) (\<lambda>_. ret err)))" for act
      by (simp add: instrumenterMiddleware_def lift_instrumenter_def slog_New_def)
    then show ?thesis by (simp only:) (rule run_bind [OF before], rule run_bind [OF action], rule after)
  qed
  have "run r ?P (execute_value ?c Background [] (\<lambda>x _. quota_action x)) (returning (Ret ([], Some (JoinErr [quota_error]))) ?Q)"
  proof (rule run_execute_value)
    have "run r (\<lambda>u. ?P (fst u)) (retryMiddleware ?lifted (deadlineMiddleware ?lifted
        (instrumenterMiddleware ?lifted (assigning (\<lambda>x _. quota_action x)))) Background st)
        (returning (Ret (Some (JoinErr [quota_error]))) (\<lambda>u h. ?Q (fst u) h \<and> snd u = []))" for st
      by (rule run_retry, rule run_retry_cancelled [where d = "DelayFor 0"])
        (use attempt in \<open>simp_all add: quota_error_def shouldRetry_default stops_def isFatal_def\<close>)
    then show "run r (\<lambda>u. ?P (fst u)) (compose ?lifted (default_middlewares ?lifted)
        (terminalAction (Some (assigning (\<lambda>x _. quota_action x))) None) Background (initial_state ?lifted))
        (returning (Ret (Some (JoinErr [quota_error]))) (\<lambda>u h. ?Q (fst u) h \<and> snd u = []))"
      by (simp add: default_middlewares_def)
  qed (simp add: fresh_def)
  then have "run r ?P (with_config r (pushback_options :: (slog_record list \<times> nat, string) opt list) (\<lambda>c. Do c Background [] quota_action))
      (returning (Ret ([], Some (JoinErr [quota_error]))) ?Q)"
    unfolding Do_def by (rule run_with_config [OF run_DoState_no_fallback]) (simp_all add: good_NewFullJitter duration_units)
  then show ?thesis using assms by (auto simp: undisturbed_def pushback_main_def elim: runE [where w = w])
qed

theorem basic_calls_witness:
  "fst (basic_main 0 (calm_world ())) =
    Ret (Some (JoinErr (replicate 3 (UserError 17))), ''DATABASE_URL=postgres://localhost:5432/mydb'', None)"
  by (rule basic_calls) (simp_all add: alone_def empty_heap_def good_NewFullJitter duration_units)

theorem pushback_stops_retries_witness:
  "fst (pushback_main 0 (calm_world ([], 0))) = Ret ([], Some (JoinErr [quota_error]))"
  using pushback_stops_retries [of "calm_world ([], 0)" 0, OF _ _ _ surjective_pairing]
  by (simp add: alone_def empty_heap_def good_NewFullJitter duration_units)

end
