(* ===== verification/Backpressure.thy ===== *)
theory Backpressure
  imports Breaker_Runs Retry_Runs
begin

text \<open>
  The workers of \<^verbatim>\<open>examples/backpressure\<close>, which follow the health channel of a
  component and launch calls through it. \<open>circuitBreakerWorker\<close> is a goroutine of its own
  beside the calls it has launched: the interleavings of its turns with the two critical sections of the
  calls are a step relation over the breaker of \<^verbatim>\<open>circuit/breaker.go\<close>.
  \<open>limiterWorker\<close> is a function of what its \<^verbatim>\<open>select\<close> finds at each turn.
\<close>

section \<open>The policy of the breaker worker\<close>

definition worker_breaker :: breaker_config where
  "worker_breaker = \<lparr>WindowType = WindowCountBased, WindowSize = 5, WindowDuration = 0,
     FailureRateThreshold = Fin 50, MinimumCalls = 3, ResetTimeout = 2 * Second, HalfOpenMaxCalls = 2\<rparr>"

definition worker_options :: "nat \<Rightarrow> ('u, 't) opt list" where
  "worker_options k = [WithCircuitBreaker (Some k), WithMaxAttempts 1]"

lemma worker_policy:
  "cfg (NewPolicy (worker_options k) h r t) =
     (DefaultConfig r)\<lparr>CircuitBreaker := Some k, MaxAttempts := 1, pipeline := Some [MwCircuitBreaker, MwRetry]\<rparr>"
  by (simp add: worker_options_def NewPolicy_def apply_options_def start_builder_def option_defs add_mw_def DefaultConfig_def Let_def)

text \<open>
  A call of the worker enters the breaker once: the policy is the breaker around the retries, and
  with one attempt these are the action between two readings of the clock.
\<close>

lemma one_attempt:
  assumes "MaxAttempts c = 1" "AdaptiveBucket c = None"
  shows "retryMiddleware c act x st = bind time_Now (\<lambda>start. bind time_Now (\<lambda>t.
    bind (act x ((attempt_state st 0 [])\<lparr>TotalDuration := time_Sub t start\<rparr>)) (\<lambda>err. ret (map_option (\<lambda>e. JoinErr [e]) err))))"
proof -
  have lt: "0 < MaxAttempts c" using assms(1) by simp
  have failed: "after_failure c x 0 [] e go = ret (Some (JoinErr [e]))" for e go
    using assms(1) by (simp add: after_failure_def joined_simps)
  have eq: "(\<lambda>err. case err of None \<Rightarrow> bind (success_token c) (\<lambda>_. ret None) | Some e \<Rightarrow> ret (Some (JoinErr [e]))) =
      (\<lambda>err. ret (map_option (\<lambda>e. JoinErr [e]) err))"
    using assms(2) by (auto simp: fun_eq_iff success_token_def split: option.split)
  have "retry_loop c act x start st 0 [] = bind time_Now (\<lambda>t.
      bind (act x ((attempt_state st 0 [])\<lparr>TotalDuration := time_Sub t start\<rparr>)) (\<lambda>err. ret (map_option (\<lambda>e. JoinErr [e]) err)))" for start
    by (rule ext) (simp only: retry_loop_step [OF lt] failed eq)
  then show ?thesis by (simp add: retryMiddleware_def)
qed

lemma worker_call:
  fixes act :: "ctx \<Rightarrow> ('u, go_error option) prog"
  shows "Policy_DoErr (cfg (NewPolicy (worker_options k) h r t) :: ('u, 't) config) x act =
    Breaker_Execute k x (bind time_Now (\<lambda>_. bind time_Now (\<lambda>_. bind (act x) (\<lambda>err. ret (map_option (\<lambda>e. JoinErr [e]) err)))))"
proof -
  let ?c = "(DefaultConfig r :: ('u, 't) config)\<lparr>CircuitBreaker := Some k, MaxAttempts := 1, pipeline := Some [MwCircuitBreaker, MwRetry]\<rparr>"
  have "Policy_DoErr ?c x act = compose ?c [MwCircuitBreaker, MwRetry] (terminalAction None (Some act)) x (initial_state ?c)"
    unfolding Policy_DoErr_def by (rule execute_recorded) (simp_all add: DefaultConfig_def)
  also have "\<dots> = Breaker_Execute k x (bind time_Now (\<lambda>_. bind time_Now (\<lambda>_. bind (act x) (\<lambda>err.
      ret (map_option (\<lambda>e. JoinErr [e]) err)))))"
  proof -
    have "AdaptiveBucket ?c = None" by (simp add: DefaultConfig_def)
    then show ?thesis by (simp add: circuitBreakerMiddleware_def one_attempt)
  qed
  finally show ?thesis unfolding worker_policy .
qed

section \<open>The breaker worker\<close>

text \<open>
  \<open>turn_no\<close> is the loop variable, \<open>launched\<close> the calls not yet admitted,
  \<open>inside\<close> those whose action runs, with the state they were admitted in; \<open>ended\<close>
  says that the function has returned.
\<close>

record worker =
  turn_no :: nat
  paused :: bool
  cb :: breaker
  launched :: nat
  inside :: "breaker_state multiset"
  ended :: bool

fun pause_on :: "health_state \<Rightarrow> bool" where
  "pause_on HealthStateUnhealthy = True"
| "pause_on HealthStateDegraded = False"
| "pause_on HealthStateHealthy = False"

definition worker_turn :: "worker \<Rightarrow> worker" where
  "worker_turn s =
     (let (event, ch) = receive_event (healthCh (cb s));
          s = s\<lparr>cb := (cb s)\<lparr>healthCh := ch\<rparr>\<rparr>;
          s = (case event of None \<Rightarrow> s | Some ev \<Rightarrow> s\<lparr>paused := pause_on (ev_State ev)\<rparr>);
          s = (if paused s then s else s\<lparr>launched := Suc (launched s)\<rparr>)
      in s\<lparr>turn_no := Suc (turn_no s)\<rparr>)"

inductive worker_step :: "nat \<Rightarrow> worker \<Rightarrow> worker \<Rightarrow> bool" for iterations where
  turn: "\<not> ended s \<Longrightarrow> turn_no s < iterations \<Longrightarrow> worker_step iterations s (worker_turn s)"
| cancelled: "\<not> ended s \<Longrightarrow> turn_no s < iterations \<Longrightarrow> worker_step iterations s (s\<lparr>ended := True\<rparr>)"
| waited: "\<not> ended s \<Longrightarrow> iterations \<le> turn_no s \<Longrightarrow> launched s = 0 \<Longrightarrow> inside s = {#} \<Longrightarrow>
     worker_step iterations s (s\<lparr>ended := True\<rparr>)"
| call_cancelled: "launched s = Suc n \<Longrightarrow> worker_step iterations s (s\<lparr>launched := n\<rparr>)"
| call_admitted: "launched s = Suc n \<Longrightarrow> admit t ev (cb s) = (Admitted st, b) \<Longrightarrow>
     worker_step iterations s (s\<lparr>launched := n, cb := b, inside := add_mset st (inside s)\<rparr>)"
| call_rejected: "launched s = Suc n \<Longrightarrow> admit t ev (cb s) = (Rejected, b) \<Longrightarrow>
     worker_step iterations s (s\<lparr>launched := n, cb := b\<rparr>)"
| call_completes: "st \<in># inside s \<Longrightarrow>
     worker_step iterations s (s\<lparr>cb := complete clk st err (cb s), inside := inside s - {#st#}\<rparr>)"

definition worker_start :: worker where
  "worker_start = \<lparr>turn_no = 0, paused = False, cb = Breaker_Health (New worker_breaker), launched = 0,
     inside = {#}, ended = False\<rparr>"

text \<open>The worker takes its turns, and has never more calls under way than turns taken.\<close>

lemma worker_bounded:
  "(worker_step n)\<^sup>*\<^sup>* worker_start s \<Longrightarrow> turn_no s \<le> n \<and> launched s + size (inside s) \<le> turn_no s"
proof (induction rule: rtranclp_induct)
  case base
  then show ?case by (simp add: worker_start_def)
next
  case (step s s')
  from step.hyps(2) show ?case
  proof cases
    case turn
    moreover have "turn_no (worker_turn s) = Suc (turn_no s)" "inside (worker_turn s) = inside s" "launched (worker_turn s) \<le> Suc (launched s)"
      by (auto simp: worker_turn_def Let_def split: prod.split option.split)
    ultimately show ?thesis using step.IH by simp
  next
    case (call_completes st c err)
    then have "Suc (size (inside s - {#st#})) = size (inside s)" by (simp only: size_Suc_Diff1)
    with call_completes step.IH show ?thesis by simp
  qed (use step.IH in auto)
qed

text \<open>A worker that has paused, with no call left and no event to come.\<close>

definition deserted :: "worker \<Rightarrow> bool" where
  "deserted s \<longleftrightarrow> paused s \<and> launched s = 0 \<and> inside s = {#} \<and> healthCh (cb s) = Some []"

lemma deserted_step:
  assumes "worker_step n s s'" "deserted s"
  shows "deserted s' \<and> cb s' = cb s"
  using assms by cases (auto simp: deserted_def worker_turn_def)

lemma deserted_forever:
  "(worker_step n)\<^sup>*\<^sup>* s s' \<Longrightarrow> deserted s \<Longrightarrow> deserted s' \<and> cb s' = cb s"
  by (induction rule: rtranclp_induct) (use deserted_step in fastforce)+

text \<open>
  C28. A worker that pauses when the circuit opens never recovers. Once it has read the event, its
  calls have ended and no other event is pending, every later state is paused with the breaker as it is:
  the breaker goes half-open only when a call asks, and the paused worker asks no more, although the
  breaker would admit a call as a probe as soon as its reset timeout is over. The worker spends its
  remaining turns waiting for an event that cannot come.
\<close>

theorem paused_worker_never_recovers:
  assumes "(worker_step n)\<^sup>*\<^sup>* s s'" "deserted s" "state (cb s) = StateOpen" "0 < HalfOpenMaxCalls (config (cb s))"
  shows "paused s' \<and> launched s' = 0 \<and> cb s' = cb s
    \<and> (\<forall>t ev. reset_due t (cb s') \<longrightarrow> fst (admit t ev (cb s')) = Admitted StateHalfOpen)"
proof -
  from deserted_forever [OF assms(1,2)] have d: "deserted s'" "cb s' = cb s" by simp_all
  have "HalfOpenMaxCalls (config (cb s)) \<noteq> 0" using assms(4) by auto
  with d assms(3) show ?thesis by (simp add: deserted_def admit_def Let_def)
qed

text \<open>
  The worker of the example gets there when its first three calls fail one after the other: the
  states before the calls, and the one after the event has been read.
\<close>

abbreviation worker_cb :: breaker where
  "worker_cb \<equiv> Breaker_Health (New worker_breaker)"

definition before_call :: "nat \<Rightarrow> worker" where
  "before_call j = worker_start\<lparr>turn_no := j, cb := with_failures j worker_cb\<rparr>"

definition opened_cb :: breaker where
  "opened_cb = (complete sample_clock StateClosed (Some ErrCircuitOpen) (with_failures 2 worker_cb))\<lparr>healthCh := Some []\<rparr>"

definition deserted_worker :: worker where
  "deserted_worker = worker_start\<lparr>turn_no := 4, paused := True, cb := opened_cb\<rparr>"

lemma worker_breaker_fields [simp]:
  "WindowType worker_breaker = WindowCountBased" "MinimumCalls worker_breaker = 3"
  "FailureRateThreshold worker_breaker = Fin 50" "HalfOpenMaxCalls worker_breaker = 2"
  "ResetTimeout worker_breaker = 2 * Second"
  by (simp_all add: worker_breaker_def)

lemma worker_cb:
  "config worker_cb = worker_breaker\<lparr>WindowDuration := 60 * Second\<rparr>" "state worker_cb = StateClosed"
  "ring worker_cb = replicate 5 False" "\<not> ringFull worker_cb" "healthCh worker_cb = Some []"
  "with_failures 0 worker_cb = worker_cb"
  by (simp_all add: Breaker_Health_def open_health_def New_def with_defaults_def worker_breaker_def with_failures_def
      duration_units Let_def)

lemma failing_call:
  assumes "complete sample_clock StateClosed (Some ErrCircuitOpen) (with_failures j worker_cb) = b" "j < 10"
  shows "(worker_step 10)\<^sup>*\<^sup>* (before_call j) (worker_start\<lparr>turn_no := Suc j, cb := b\<rparr>)"
proof -
  let ?s = "\<lambda>l i b. worker_start\<lparr>turn_no := Suc j, cb := b, launched := l, inside := i\<rparr>"
  let ?b = "with_failures j worker_cb"
  have "worker_step 10 (before_call j) (?s 1 {#} ?b)"
  proof -
    have "worker_turn (before_call j) = ?s 1 {#} ?b"
      by (simp add: worker_turn_def before_call_def worker_start_def worker_cb Let_def)
    then show ?thesis
      using worker_step.turn [of "before_call j" 10] assms(2) by (simp add: before_call_def worker_start_def)
  qed
  moreover have "worker_step 10 (?s 1 {#} ?b) (?s 0 {#StateClosed#} ?b)"
    using worker_step.call_admitted [of "?s 1 {#} ?b" 0 0 0 StateClosed ?b 10]
    by (simp add: admit_def reset_due_def worker_cb worker_start_def)
  moreover have "worker_step 10 (?s 0 {#StateClosed#} ?b) (?s 0 {#} b)"
    using worker_step.call_completes [of StateClosed "?s 0 {#StateClosed#} ?b" 10 sample_clock "Some ErrCircuitOpen"] assms(1)
    by (simp add: worker_start_def)
  moreover have "?s 0 {#} b = worker_start\<lparr>turn_no := Suc j, cb := b\<rparr>" by (simp add: worker_start_def)
  ultimately show ?thesis by (metis rtranclp.simps)
qed

lemma third_failure:
  "complete sample_clock StateClosed (Some ErrCircuitOpen) (with_failures 2 worker_cb) =
     transitionToOpen sample_clock (with_failures 3 worker_cb)"
  using with_failures_trip [of worker_cb 5 2] by (simp add: worker_cb)

lemma worker_deserts: "(worker_step 10)\<^sup>*\<^sup>* worker_start deserted_worker"
  "deserted deserted_worker" "state (cb deserted_worker) = StateOpen" "0 < HalfOpenMaxCalls (config (cb deserted_worker))"
proof -
  let ?third = "complete sample_clock StateClosed (Some ErrCircuitOpen) (with_failures 2 worker_cb)"
  let ?ev = "\<lparr>ev_Component = ''circuit-breaker'', ev_State = HealthStateUnhealthy,
    ev_Timestamp = at_event sample_clock, ev_Message = ''circuit opened''\<rparr>"
  have ch: "healthCh ?third = Some [?ev]"
    by (simp add: third_failure transitionToOpen_def emitStateEvent_def clearWindow_def send_event_def health_capacity_def worker_cb Let_def)
  have first: "(worker_step 10)\<^sup>*\<^sup>* (before_call j) (before_call (Suc j))" if "j < 2" for j
    using failing_call [OF with_failures_step(2) [of worker_cb 5 j]] that by (simp add: before_call_def worker_cb)
  have "worker_step 10 (worker_start\<lparr>turn_no := 3, cb := ?third\<rparr>) deserted_worker"
    using worker_step.turn [of "worker_start\<lparr>turn_no := 3, cb := ?third\<rparr>" 10]
    by (simp add: worker_turn_def ch deserted_worker_def opened_cb_def worker_start_def)
  moreover have "(worker_step 10)\<^sup>*\<^sup>* (before_call 2) (worker_start\<lparr>turn_no := 3, cb := ?third\<rparr>)"
    using failing_call [OF refl, of 2] by simp
  moreover have "before_call 0 = worker_start" by (simp add: before_call_def worker_cb) (simp add: worker_start_def)
  ultimately show "(worker_step 10)\<^sup>*\<^sup>* worker_start deserted_worker"
    using first [of 0] first [of 1] by (simp add: numeral_2_eq_2)
  show "deserted deserted_worker" "state (cb deserted_worker) = StateOpen" "0 < HalfOpenMaxCalls (config (cb deserted_worker))"
    by (simp_all add: deserted_def deserted_worker_def opened_cb_def third_failure worker_start_def worker_cb)
qed

text \<open>One more turn, and a request three seconds after the circuit opened.\<close>

lemma deserted_turn: "(worker_step 10)\<^sup>*\<^sup>* deserted_worker (worker_turn deserted_worker)"
  by (rule r_into_rtranclp, rule worker_step.turn) (simp_all add: deserted_worker_def worker_start_def)

lemma probe_due: "reset_due (at_open sample_clock + 3 * Second) (cb deserted_worker)"
proof -
  have "state (cb deserted_worker) = StateOpen" "openedAt (cb deserted_worker) = at_open sample_clock"
    "ResetTimeout (config (cb deserted_worker)) = 2 * Second"
    using worker_deserts(3) by (simp_all add: deserted_worker_def opened_cb_def third_failure worker_cb)
  then show ?thesis by (simp add: reset_due_def time_Sub_def sample_clock_def duration_units clamp_int64_def min_int64_def max_int64_def)
qed

theorem paused_worker_never_recovers_witness:
  "(worker_step 10)\<^sup>*\<^sup>* worker_start deserted_worker
   \<and> paused (worker_turn deserted_worker) \<and> launched (worker_turn deserted_worker) = 0
   \<and> fst (admit (at_open sample_clock + 3 * Second) 0 (cb (worker_turn deserted_worker))) = Admitted StateHalfOpen"
  using paused_worker_never_recovers [OF deserted_turn worker_deserts(2-4)] worker_deserts(1) probe_due by metis

section \<open>The limiter worker\<close>

text \<open>What \<open>select\<close> finds at a turn, and what the worker does.\<close>

datatype select_case = SelectDone | SelectEvent health_state | SelectDefault

datatype worker_effect = Announce string | Launch nat | Sleep duration | WaitAll

fun announcement :: "select_case \<Rightarrow> worker_effect list" where
  "announcement (SelectEvent HealthStateDegraded) = [Announce ''Capacity DEGRADED - slowing down'']"
| "announcement (SelectEvent HealthStateHealthy) = [Announce ''Capacity HEALTHY - normal processing'']"
| "announcement _ = []"

text \<open>\<open>i\<close> is the loop variable, \<open>n\<close> the number of turns left.\<close>

fun limiterWorker :: "(nat \<Rightarrow> select_case) \<Rightarrow> nat \<Rightarrow> nat \<Rightarrow> worker_effect list" where
  "limiterWorker sel i 0 = [WaitAll]"
| "limiterWorker sel i (Suc n) =
     (if sel i = SelectDone then []
      else announcement (sel i) @ [Launch i, Sleep (30 * Millisecond)] @ limiterWorker sel (Suc i) n)"

text \<open>
  The worker keeps its pace: what it launches and how long it sleeps does not depend on the
  health events, although it announces that it slows down.
\<close>

lemma limiter_worker_keeps_pace:
  assumes "\<forall>j. i \<le> j \<and> j < i + n \<longrightarrow> sel j \<noteq> SelectDone"
  shows "filter (\<lambda>e. \<forall>m. e \<noteq> Announce m) (limiterWorker sel i n) =
    concat (map (\<lambda>j. [Launch j, Sleep (30 * Millisecond)]) [i..<i + n]) @ [WaitAll]"
  using assms
proof (induction n arbitrary: i)
  case (Suc n)
  have "filter (\<lambda>e. \<forall>m. e \<noteq> Announce m) (announcement (sel i)) = []"
    by (cases "sel i" rule: announcement.cases) simp_all
  moreover have "\<forall>j. Suc i \<le> j \<and> j < Suc i + n \<longrightarrow> sel j \<noteq> SelectDone" "sel i \<noteq> SelectDone" using Suc.prems by auto
  ultimately show ?case using Suc.IH [of "Suc i"] by (simp add: upt_conv_Cons del: upt_Suc)
qed simp

end
