(* ===== verification/Example_Services.thy ===== *)
theory Example_Services
  imports Example_Calls Propagation Hedged_Calls
begin

text \<open>
  Programs under \<^verbatim>\<open>examples\<close> whose course depends on the clock, on chance or on a
  service: the rate limiter (\<^verbatim>\<open>ratelimiter\<close>), fault injection (\<^verbatim>\<open>chaos\<close>), deadline
  propagation (\<^verbatim>\<open>deadline\<close>), the Redis client (\<^verbatim>\<open>redis\<close>, whose commands are
  parameters), hedging (\<^verbatim>\<open>hedging\<close>) and a server that says when to come back
  (\<^verbatim>\<open>http\<close>). The theorems say what holds of every course.
\<close>

section \<open>Requests through a rate limiter\<close>

text \<open>\<^verbatim>\<open>time.Sleep\<close>.\<close>

definition time_Sleep :: "duration \<Rightarrow> ('u, unit) prog" where
  "time_Sleep d = bind time_Now (\<lambda>t. bind (wait_timer Background (t + d)) (\<lambda>_. ret ()))"

text \<open>The caller's state counts the runs of the action.\<close>

definition limited_action :: "ctx \<Rightarrow> (nat, go_error option) prog" where
  "limited_action x w = (Ret None, w\<lparr>user := Suc (user w)\<rparr>)"

definition limited_options :: "nat \<Rightarrow> ('u, 't) opt list" where
  "limited_options k = [WithRateLimiterInstance (Some k)]"

text \<open>The errors of \<open>n\<close> requests.\<close>

fun limited_requests :: "nat \<Rightarrow> nat \<Rightarrow> nat \<Rightarrow> (nat, go_error option list) prog" where
  "limited_requests r k 0 = ret []"
| "limited_requests r k (Suc n) =
     bind (with_config r (limited_options k :: (nat, unit) opt list) (\<lambda>c. DoErr c Background limited_action)) (\<lambda>err.
     bind (time_Sleep (50 * Millisecond)) (\<lambda>_.
     bind (limited_requests r k n) (\<lambda>errs. ret (err # errs))))"

definition limited_main :: "nat \<Rightarrow> nat \<Rightarrow> (nat, go_error option list) prog" where
  "limited_main r k =
     bind time_Now (\<lambda>t w. limited_requests r k 10
       (w\<lparr>heap := (heap w)\<lparr>h_limiters := (h_limiters (heap w))(k := NewRateLimiter (Fin 5) Second t)\<rparr>\<rparr>))"

lemma limited_config [simp]:
  "cfg (New_config (limited_options k) h r t) = (DefaultConfig r)\<lparr>RateLimiter := Some k\<rparr>"
  "h_jitters (b_heap (New_config (limited_options k) h r t)) r = NewFullJitter (100 * Millisecond) (30 * Second)"
  "h_limiters (b_heap (New_config (limited_options k) h r t)) = h_limiters h"
  by (simp_all add: limited_options_def New_config_def apply_options_def start_builder_def option_defs add_mw_def
      DefaultConfig_def NewFullJitter_def)

text \<open>
  A limiter with at least \<open>j\<close> tokens left. Rounding never takes a whole token too many, and a refill
  takes none, whatever the clock does.
\<close>

definition tokens_left :: "nat \<Rightarrow> rate_limiter \<Rightarrow> bool" where
  "tokens_left j rl \<longleftrightarrow> limiter_ok rl \<and> rl_limit rl = Fin 5 \<and> Fin (of_nat j) \<le> rl_tokens rl"

lemma rnd_nat: "j \<le> 5 \<Longrightarrow> of_nat j \<le> x \<Longrightarrow> Fin (of_nat j) \<le> rnd x"
  using rnd_mono [of "of_nat j" x] rnd_exact [OF representable_of_int [of "int j"]] by simp

lemma tokens_left_refill:
  assumes "tokens_left j rl" "j \<le> 5"
  shows "tokens_left j (refill_tokens t rl)"
proof -
  have ok: "limiter_ok (refill_tokens t rl)" using assms by (simp add: tokens_left_def limiter_ok_refill)
  obtain x where x: "rl_tokens rl = Fin x" "of_nat j \<le> x" "rl_limit rl = Fin 5"
    using assms by (auto simp: tokens_left_def elim: limiter_okE)
  let ?r = "f64_of_int (time_Sub t (rl_lastRefillAt rl)) / f64_of_int (rl_interval rl) * rl_limit rl"
  have "Fin (of_nat j) \<le> Fin x + ?r" if "?r > Fin 0"
  proof (cases ?r)
    case (Fin y)
    with that x(2) show ?thesis by (simp add: rnd_nat [OF assms(2)])
  qed (use that in auto)
  then have "Fin (of_nat j) \<le> rl_tokens (refill_tokens t rl)"
    using x assms(2) by (auto simp: refill_tokens_def Let_def)
  then show ?thesis using ok x by (simp add: tokens_left_def)
qed

lemma tokens_left_0: "tokens_left 0 rl \<longleftrightarrow> limiter_ok rl \<and> rl_limit rl = Fin 5"
  by (auto simp: tokens_left_def limiter_ok_def)

lemma tokens_left_acquire:
  assumes "tokens_left (Suc j) rl" "j < 5"
  shows "fst (Acquire t rl)" "tokens_left j (snd (Acquire t rl))"
proof -
  have "tokens_left (Suc j) (refill_tokens t rl)" using assms by (simp add: tokens_left_refill)
  then obtain x where x: "rl_tokens (refill_tokens t rl) = Fin x" "of_nat (Suc j) \<le> x"
    by (auto simp: tokens_left_def elim: limiter_okE)
  then have one: "1 \<le> x" and "of_nat j \<le> x - 1" by simp_all
  then have "Fin (of_nat j) \<le> rnd (x - 1)" using assms(2) by (intro rnd_nat) simp_all
  then show "fst (Acquire t rl)" "tokens_left j (snd (Acquire t rl))"
    using x(1) one limiter_ok_acquire [of rl t] assms(1)
    by (simp_all add: Acquire_def Let_def tokens_left_def minus_f64_def)
qed

text \<open>A pause.\<close>

lemma run_time_Sleep: "run r P (time_Sleep d) (returning (Ret ()) P)"
  unfolding time_Sleep_def
proof (rule run_bind_any [OF run_time_Now], rule run_bind [OF _ run_ret])
  show "run r P (wait_timer Background (t + d)) (returning (Ret None) P)" for t
    by (auto simp: run_def wait_timer_def Let_def)
qed

abbreviation limited :: "nat \<Rightarrow> nat \<Rightarrow> nat \<Rightarrow> nat \<Rightarrow> shared \<Rightarrow> bool" where
  "limited k j m u h \<equiv> u = m \<and> tokens_left j (h_limiters h k)"

lemma run_limiter_acquire:
  assumes "j \<le> 5"
  shows "run r (limited k j m) (limiter_acquire k) (\<lambda>a u h. \<exists>ok. a = Ret ok \<and> limited k (j - 1) m u h \<and> (ok \<or> j = 0))"
proof (rule runI)
  fix w :: "nat world"
  assume w: "undisturbed r w" "limited k j m (user w) (heap w)"
  let ?w = "clock_step (interfere w)" and ?rl = "h_limiters (heap w) k"
  have "tokens_left (j - 1) (snd (Acquire (now ?w) ?rl)) \<and> (fst (Acquire (now ?w) ?rl) \<or> j = 0)"
  proof (cases j)
    case 0
    then show ?thesis using w(2) by (simp add: tokens_left_0 limiter_ok_acquire)
  next
    case (Suc i)
    then show ?thesis using tokens_left_acquire [of i ?rl] w(2) assms by simp
  qed
  then show "\<exists>a w'. limiter_acquire k w = (a, w') \<and> undisturbed r w'
      \<and> (\<exists>ok. a = Ret ok \<and> limited k (j - 1) m (user w') (heap w') \<and> (ok \<or> j = 0))"
    using w by (auto simp: limiter_acquire_def atomic_def Let_def split_beta undisturbed_def)
qed

abbreviation answered :: "nat \<Rightarrow> nat \<Rightarrow> nat \<Rightarrow> go_error option \<Rightarrow> nat \<Rightarrow> shared \<Rightarrow> bool" where
  "answered k j m e u h \<equiv> limited k (j - 1) (m + (if e = None then 1 else 0)) u h
     \<and> (e = None \<or> j = 0 \<and> e = Some ErrRateLimitExceeded)"

lemma run_limited_request:
  fixes r k :: nat
  defines "c \<equiv> (DefaultConfig r)\<lparr>RateLimiter := Some k\<rparr> :: (nat, unit) config"
  assumes "j \<le> 5"
  shows "run r (limited k j m) (DoErr c Background limited_action) (\<lambda>a u h. \<exists>e. a = Ret e \<and> answered k j m e u h)"
proof (rule run_DoErr)
  have act: "run r (limited k i m) (limited_action Background) (returning (Ret None) (limited k i (Suc m)))" for i
    by (simp add: run_def limited_action_def undisturbed_def)
  have go: "run r (limited k i m) (retryMiddleware c (deadlineMiddleware c (instrumenterMiddleware c
      (\<lambda>x _. limited_action x))) Background st) (returning (Ret None) (limited k i (Suc m)))" for i st
    by (rule run_retry, rule run_retry_success [where Q = "limited k i (Suc m)"])
      (auto simp: c_def intro: act run_no_bucket)
  have "run r (limited k j m) (rateLimiterMiddleware c (retryMiddleware c (deadlineMiddleware c (instrumenterMiddleware c
      (\<lambda>x _. limited_action x)))) Background st) (\<lambda>a u h. \<exists>e. a = Ret e \<and> answered k j m e u h)" for st
  proof -
    let ?go = "retryMiddleware c (deadlineMiddleware c (instrumenterMiddleware c (\<lambda>x _. limited_action x))) Background st"
    have "run r (limited k j m) (bind (limiter_acquire k) (\<lambda>ok. if \<not> ok then ret (Some ErrRateLimitExceeded) else ?go))
        (\<lambda>a u h. \<exists>e. a = Ret e \<and> answered k j m e u h)"
    proof (rule run_bind_value [OF run_limiter_acquire [OF assms(2)]])
      show "run r (\<lambda>u h. limited k (j - 1) m u h \<and> (ok \<or> j = 0)) (if \<not> ok then ret (Some ErrRateLimitExceeded) else ?go)
          (\<lambda>a u h. \<exists>e. a = Ret e \<and> answered k j m e u h)" for ok
      proof (cases ok)
        case True
        from run_weaken [OF go [of "j - 1" st], where P = "\<lambda>u h. limited k (j - 1) m u h \<and> (ok \<or> j = 0)"
            and R = "\<lambda>a u h. \<exists>e. a = Ret e \<and> answered k j m e u h"] True
        show ?thesis by auto
      qed (auto simp: run_def)
    qed
    moreover have "rateLimiterMiddleware c act Background st
        = bind (limiter_acquire k) (\<lambda>ok. if \<not> ok then ret (Some ErrRateLimitExceeded) else act Background st)" for act
      by (simp add: rateLimiterMiddleware_def c_def instrument_def cong: if_cong del: ret_apply)
    ultimately show ?thesis by (simp only:)
  qed
  then show "run r (limited k j m) (compose c (default_middlewares c) (terminalAction (Some (\<lambda>x _. limited_action x)) None)
      Background (initial_state c)) (\<lambda>a u h. \<exists>e. a = Ret e \<and> answered k j m e u h)"
    by (simp add: default_middlewares_def c_def)
qed (simp_all add: c_def fresh_def)

lemma run_limited_requests:
  "j \<le> 5 \<Longrightarrow> run r (limited k j m) (limited_requests r k n) (\<lambda>a u h. \<exists>errs. a = Ret errs \<and> length errs = n
      \<and> set errs \<subseteq> {None, Some ErrRateLimitExceeded} \<and> take j errs = replicate (min j n) None
      \<and> u = m + length (filter (\<lambda>e. e = None) errs))"
proof (induction n arbitrary: j m)
  case 0
  show ?case by (simp add: run_def)
next
  case (Suc n)
  let ?R = "\<lambda>n j m a (u :: nat) (h :: shared). \<exists>errs. a = Ret errs \<and> length errs = n
      \<and> set errs \<subseteq> {None, Some ErrRateLimitExceeded} \<and> take j errs = replicate (min j n) None
      \<and> u = m + length (filter (\<lambda>e. e = None) errs)"
  have one: "run r (limited k j m) (with_config r (limited_options k :: (nat, unit) opt list)
      (\<lambda>c. DoErr c Background limited_action)) (\<lambda>a u h. \<exists>e. a = Ret e \<and> answered k j m e u h)"
    by (rule run_with_config, rule run_limited_request [OF Suc.prems]) (simp_all add: good_NewFullJitter duration_units)
  have rest: "run r (answered k j m e) (bind (time_Sleep (50 * Millisecond)) (\<lambda>_. bind (limited_requests r k n)
      (\<lambda>errs. ret (e # errs)))) (?R (Suc n) j m)" for e
  proof (rule run_bind [OF run_time_Sleep], rule run_bind_value)
    let ?m = "m + (if e = None then 1 else 0)"
    have "run r (answered k j m e) (limited_requests r k n) (\<lambda>a u h. ?R n (j - 1) ?m a u h \<and> (e = None \<or> j = 0 \<and> e = Some ErrRateLimitExceeded))"
      using Suc.IH [of "j - 1" ?m] Suc.prems by (auto simp: run_def)
    then show "run r (answered k j m e) (limited_requests r k n) (\<lambda>a u h. \<exists>errs. a = Ret errs \<and> (length errs = n
        \<and> set errs \<subseteq> {None, Some ErrRateLimitExceeded} \<and> take (j - 1) errs = replicate (min (j - 1) n) None
        \<and> u = ?m + length (filter (\<lambda>e. e = None) errs) \<and> (e = None \<or> j = 0 \<and> e = Some ErrRateLimitExceeded)))"
      by (rule run_weaken) auto
    show "run r (\<lambda>u h. length errs = n
        \<and> set errs \<subseteq> {None, Some ErrRateLimitExceeded} \<and> take (j - 1) errs = replicate (min (j - 1) n) None
        \<and> u = ?m + length (filter (\<lambda>e. e = None) errs) \<and> (e = None \<or> j = 0 \<and> e = Some ErrRateLimitExceeded))
        (ret (e # errs)) (?R (Suc n) j m)" for errs
      by (cases j) (auto simp: run_def)
  qed
  show ?case unfolding limited_requests.simps by (rule run_bind_value [OF one rest])
qed

text \<open>
  The ten requests of the example, whatever the clock does: each succeeds or is turned away, the
  first five succeed, and the action ran once for each success and for no other request.
\<close>

theorem limited_requests_admit_limit:
  assumes "alone (orc w)" "good_jitter (h_jitters (heap w) r)" "user w = 0" "limited_main r k w = (a, w')"
  shows "\<exists>errs. a = Ret errs \<and> length errs = 10 \<and> set errs \<subseteq> {None, Some ErrRateLimitExceeded}
    \<and> take 5 errs = replicate 5 None \<and> user w' = length (filter (\<lambda>e. e = None) errs)"
proof -
  let ?c = "clock_step w"
  let ?w = "?c\<lparr>heap := (heap ?c)\<lparr>h_limiters := (h_limiters (heap ?c))(k := NewRateLimiter (Fin 5) Second (now ?c))\<rparr>\<rparr>"
  have "representable 5" using representable_of_int [of 5] by simp
  then have "tokens_left 5 (NewRateLimiter (Fin 5) Second t)" for t
    using limiter_ok_New [of 5] by (simp add: tokens_left_def NewRateLimiter_def)
  then have "undisturbed r ?w" "limited k 5 0 (user ?w) (heap ?w)" using assms by (simp_all add: undisturbed_def)
  from runE [OF run_limited_requests [OF order_refl, where n = 10] this]
  show ?thesis using assms(4) by (auto simp: limited_main_def)
qed

theorem limited_requests_admit_limit_witness:
  "\<exists>errs. fst (limited_main 0 0 (calm_world 0)) = Ret errs \<and> take 5 errs = [None, None, None, None, None]"
  using limited_requests_admit_limit [of "calm_world 0" 0 0, OF _ _ _ surjective_pairing]
  by (auto simp: alone_def empty_heap_def good_NewFullJitter duration_units eval_nat_numeral)

section \<open>Injected faults\<close>

text \<open>The caller's state counts the runs of the business logic.\<close>

definition chaos_settings :: chaos_config where
  "chaos_settings = \<lparr>ErrorProbability = Fin (1 / 2), InjectedError = Some (UserError 20),
     LatencyProbability = rnd (1 / 5), LatencyDuration = 100 * Millisecond\<rparr>"

definition business_logic :: "ctx \<Rightarrow> (nat, go_error option) prog" where
  "business_logic x w = (Ret None, w\<lparr>user := Suc (user w)\<rparr>)"

definition chaos_options :: "('u, 't) opt list" where
  "chaos_options = [WithRetry 3, WithChaos chaos_settings]"

text \<open>The error of a request and how long it took, for \<open>n\<close> requests.\<close>

fun chaos_requests :: "nat \<Rightarrow> nat \<Rightarrow> (nat, (go_error option \<times> duration) list) prog" where
  "chaos_requests r 0 = ret []"
| "chaos_requests r (Suc n) =
     bind time_Now (\<lambda>start.
     bind (with_config r (chaos_options :: (nat, unit) opt list) (\<lambda>c. DoErr c Background business_logic)) (\<lambda>err.
     bind time_Now (\<lambda>t.
     bind (chaos_requests r n) (\<lambda>reqs. ret ((err, time_Sub t start) # reqs)))))"

definition chaos_main :: "nat \<Rightarrow> (nat, (go_error option \<times> duration) list) prog" where
  "chaos_main r = chaos_requests r 5"

lemma chaos_config_options [simp]:
  "cfg (New_config chaos_options h r t) = (DefaultConfig r)\<lparr>MaxAttempts := 3, Chaos := Some (NewInjector chaos_settings)\<rparr>"
  "h_jitters (b_heap (New_config chaos_options h r t)) r = NewFullJitter (100 * Millisecond) (30 * Second)"
  by (simp_all add: chaos_options_def New_config_def apply_options_def start_builder_def option_defs add_mw_def
      DefaultConfig_def NewFullJitter_def)

lemma run_chaos_attempt:
  "run r (\<lambda>u h. u = m) (Chaos_Execute (Some (NewInjector chaos_settings)) Background (business_logic Background))
    (\<lambda>a u h. \<exists>err. a = Ret err \<and> (err = None \<and> u = Suc m \<or> err = Some (UserError 20) \<and> u = m))"
proof (rule runI)
  fix w :: "nat world"
  assume w: "undisturbed r w" "user w = m"
  obtain a w1 where lat: "inject_latency chaos_settings Background w = (a, w1)" by fastforce
  have one: "a = Ret None" "undisturbed r w1" "user w1 = m"
    using lat w by (auto simp: inject_latency_def bind_def rng_Float64_def time_Now_def wait_timer_def undisturbed_def Let_def
        split: if_splits)
  obtain b w2 where err: "inject_error chaos_settings w1 = (Ret b, w2)" "b = None \<or> b = Some (UserError 20)" "undisturbed r w2" "user w2 = m"
    using one by (auto simp: inject_error_def chaos_settings_def bind_def rng_Float64_def undisturbed_def)
  show "\<exists>a w'. Chaos_Execute (Some (NewInjector chaos_settings)) Background (business_logic Background) w = (a, w') \<and> undisturbed r w'
      \<and> (\<exists>err. a = Ret err \<and> (err = None \<and> user w' = Suc m \<or> err = Some (UserError 20) \<and> user w' = m))"
    using lat one(1) err by (auto simp: Chaos_Execute_def NewInjector_def bind_def business_logic_def undisturbed_def)
qed

definition chaos_error :: go_error where
  "chaos_error = JoinErr [UserError 20, UserError 20, UserError 20]"

lemma run_chaos_request:
  "run r (\<lambda>u h. u = m) (with_config r (chaos_options :: (nat, unit) opt list) (\<lambda>c. DoErr c Background business_logic))
    (\<lambda>a u h. \<exists>err. a = Ret err \<and> (err = None \<and> u = Suc m \<or> err = Some chaos_error \<and> u = m))"
proof (rule run_with_config, rule run_DoErr)
  let ?c = "(DefaultConfig r)\<lparr>MaxAttempts := 3, Chaos := Some (NewInjector chaos_settings)\<rparr> :: (nat, unit) config"
  let ?act = "deadlineMiddleware ?c (instrumenterMiddleware ?c (chaosMiddleware ?c (\<lambda>x _. business_logic x)))"
  have mixed: "run r (\<lambda>u h. u = m) (retryMiddleware ?c ?act Background st)
      (\<lambda>a u h. a = Ret None \<and> u = Suc m \<or> a = Ret (Some (JoinErr (replicate (unat (MaxAttempts ?c)) (UserError 20)))) \<and> u = m)" for st
    by (rule run_mixed) (simp_all add: chaosMiddleware_def run_chaos_attempt)
  have three: "replicate 3 e = [e, e, e]" for e :: go_error by (simp add: numeral_3_eq_3)
  have err: "JoinErr (replicate (unat (MaxAttempts ?c)) (UserError 20)) = chaos_error" by (simp add: three chaos_error_def)
  have ms: "default_middlewares ?c = [MwRetry, MwDeadline, MwInstrumenter, MwChaos]" by (simp add: default_middlewares_def)
  show "run r (\<lambda>u h. u = m) (compose ?c (default_middlewares ?c) (terminalAction (Some (\<lambda>x _. business_logic x)) None)
      Background (initial_state ?c)) (\<lambda>a u h. \<exists>err. a = Ret err \<and> (err = None \<and> u = Suc m \<or> err = Some chaos_error \<and> u = m))"
    unfolding ms compose_simps apply_mw.simps terminalAction_simps by (rule run_weaken [OF mixed]) (unfold err, blast+)
qed (auto simp: fresh_def good_NewFullJitter duration_units)

lemma run_chaos_requests:
  "run r (\<lambda>u h. u = m) (chaos_requests r n) (\<lambda>a u h. \<exists>reqs. a = Ret reqs \<and> length reqs = n
    \<and> fst ` set reqs \<subseteq> {None, Some chaos_error} \<and> u = m + length (filter (\<lambda>q. fst q = None) reqs))"
proof (induction n arbitrary: m)
  case 0
  show ?case by (simp add: run_def)
next
  case (Suc n)
  have "run r (\<lambda>u h. e = None \<and> u = Suc m \<or> e = Some chaos_error \<and> u = m)
     (bind time_Now (\<lambda>t. bind (chaos_requests r n) (\<lambda>reqs. ret ((e, time_Sub t start) # reqs))))
     (\<lambda>a u h. \<exists>reqs. a = Ret reqs \<and> length reqs = Suc n
    \<and> fst ` set reqs \<subseteq> {None, Some chaos_error} \<and> u = m + length (filter (\<lambda>q. fst q = None) reqs))" for e start
  proof (rule run_bind_any [OF run_time_Now], rule run_bind_value)
    show "run r (\<lambda>u h. e = None \<and> u = Suc m \<or> e = Some chaos_error \<and> u = m) (chaos_requests r n)
        (\<lambda>a u h. \<exists>reqs. a = Ret reqs \<and> (length reqs = n \<and> fst ` set reqs \<subseteq> {None, Some chaos_error}
          \<and> (e = None \<and> u = Suc m + length (filter (\<lambda>q. fst q = None) reqs)
             \<or> e = Some chaos_error \<and> u = m + length (filter (\<lambda>q. fst q = None) reqs))))"
      using Suc.IH [of m] Suc.IH [of "Suc m"] by (cases e) (auto simp: run_def)
  qed (auto simp: run_def)
  then show ?case
    unfolding chaos_requests.simps by - (rule run_bind_any [OF run_time_Now], rule run_bind_value, rule run_chaos_request)
qed

text \<open>
  Each of the five requests of the example succeeds, or fails with the injected error of each of
  its three attempts; the business logic runs once for each success and never for a failure. So it is for
  every random source and every clock.
\<close>

theorem chaos_requests_all_or_nothing:
  assumes "alone (orc w)" "good_jitter (h_jitters (heap w) r)" "user w = 0" "chaos_main r w = (a, w')"
  shows "\<exists>reqs. a = Ret reqs \<and> length reqs = 5
    \<and> fst ` set reqs \<subseteq> {None, Some (JoinErr [UserError 20, UserError 20, UserError 20])}
    \<and> user w' = length (filter (\<lambda>q. fst q = None) reqs)"
  using runE [OF run_chaos_requests [where r = r and m = 0 and n = 5], where w = w] assms
  by (auto simp: chaos_main_def undisturbed_def chaos_error_def)

theorem chaos_requests_all_or_nothing_witness:
  "\<exists>reqs. fst (chaos_main 0 (calm_world 0)) = Ret reqs \<and> length reqs = 5"
  using chaos_requests_all_or_nothing [of "calm_world 0" 0, OF _ _ _ surjective_pairing]
  by (auto simp: alone_def empty_heap_def good_NewFullJitter duration_units)

section \<open>Retries against a deadline\<close>

text \<open>
  A line the action prints: the remaining time, as the number of which \<^verbatim>\<open>String\<close>
  makes a text, and the values of the two headers. The caller's state collects the lines.
\<close>

type_synonym attempt_line = "duration option \<times> string \<times> string"

definition header_Get :: "(string \<rightharpoonup> string) \<Rightarrow> string \<Rightarrow> string" where
  "header_Get hs key = (case hs key of None \<Rightarrow> [] | Some v \<Rightarrow> v)"

definition inject_header :: "ctx \<Rightarrow> string \<Rightarrow> (string \<rightharpoonup> string) \<Rightarrow> ('u, string \<rightharpoonup> string) prog" where
  "inject_header x key hs =
     bind time_Now (\<lambda>t w. (Ret (case InjectDeadlineHeader (or_conv (orc w)) t x key of
        None \<Rightarrow> hs | Some (k, v) \<Rightarrow> hs(k \<mapsto> v)), w))"

definition getRemaining :: "ctx \<Rightarrow> ('u, duration option) prog" where
  "getRemaining x =
     (case ctx_deadline x of
        Some d \<Rightarrow> bind time_Now (\<lambda>t. ret (Some (time_Sub d t)))
      | None \<Rightarrow> ret None)"

definition blip :: go_error where
  "blip = UserError 21"

definition blip_action :: "ctx \<Rightarrow> (attempt_line list, go_error option) prog" where
  "blip_action x =
     bind (inject_header x ''X-Resile-Timeout'' Map.empty) (\<lambda>hs.
     bind (inject_header x ''Grpc-Timeout'' hs) (\<lambda>hs.
     bind (getRemaining x) (\<lambda>remaining w.
       (Ret (Some blip), w\<lparr>user := user w @
          [(remaining, header_Get hs ''X-Resile-Timeout'', header_Get hs ''Grpc-Timeout'')]\<rparr>))))"

definition fixedBackoff_Next :: "duration \<Rightarrow> u64 \<Rightarrow> ('u, duration) prog" where
  "fixedBackoff_Next delay attempt = ret delay"

definition deadline_options :: "('u, 't) opt list" where
  "deadline_options = [WithMaxAttempts 10, WithBackoff (CustomBackoff (fixedBackoff_Next (25 * Millisecond))),
     WithMinDeadlineThreshold (50 * Millisecond)]"

definition deadline_main :: "nat \<Rightarrow> (attempt_line list, go_error option) prog" where
  "deadline_main r =
     bind time_Now (\<lambda>t.
       with_config r (deadline_options :: (attempt_line list, unit) opt list) (\<lambda>c.
         Config_DoErr c (WithTimeout_ctx t (100 * Millisecond) Background) blip_action))"

abbreviation deadline_config :: "nat \<Rightarrow> (attempt_line list, unit) config" where
  "deadline_config r \<equiv> (DefaultConfig r)\<lparr>MaxAttempts := 10, Backoff := CustomBackoff (fixedBackoff_Next (25 * Millisecond)),
     MinDeadlineThreshold := 50 * Millisecond\<rparr>"

abbreviation deadline_ctx :: "time \<Rightarrow> ctx" where
  "deadline_ctx t \<equiv> WithTimeout_ctx t (100 * Millisecond) Background"

abbreviation deadline_attempt :: "nat \<Rightarrow> attempt_line list do_action" where
  "deadline_attempt r \<equiv> deadlineMiddleware (deadline_config r)
     (instrumenterMiddleware (deadline_config r) (\<lambda>x _. blip_action x))"

lemma deadline_config_options [simp]:
  "cfg (New_config (deadline_options :: (attempt_line list, unit) opt list) h r t) = deadline_config r"
  by (simp add: deadline_options_def New_config_def apply_options_def start_builder_def option_defs add_mw_def DefaultConfig_def)

lemma deadline_ctx_simps [simp]:
  "ctx_deadline (deadline_ctx t) = Some (t + 100 * Millisecond)" "ctx_bypass (deadline_ctx t) = False"
  "done_at (deadline_ctx t) = Some (t + 100 * Millisecond)"
  "ctx_Err u (deadline_ctx t) = Some e \<longleftrightarrow> e = DeadlineExceeded \<and> t + 100 * Millisecond \<le> u"
  by (auto simp: WithTimeout_ctx_def Background_def done_at_def ctx_Err_def)

lemma blip_result:
  "\<exists>w'. blip_action (deadline_ctx t) w = (Ret (Some blip), w') \<and> length (user w') = Suc (length (user w)) \<and> now w \<le> now w'"
proof -
  have inj: "\<exists>hs2 w1. inject_header (deadline_ctx t) key hs w = (Ret hs2, w1) \<and> user w1 = user w \<and> now w \<le> now w1" for key hs and w :: "'u world"
    by (simp add: inject_header_def)
  obtain hs w1 where 1: "inject_header (deadline_ctx t) ''X-Resile-Timeout'' Map.empty w = (Ret hs, w1)" "user w1 = user w" "now w \<le> now w1"
    using inj by blast
  obtain hs2 w2 where 2: "inject_header (deadline_ctx t) ''Grpc-Timeout'' hs w1 = (Ret hs2, w2)" "user w2 = user w1" "now w1 \<le> now w2"
    using inj by blast
  obtain d w3 where 3: "getRemaining (deadline_ctx t) w2 = (Ret d, w3)" "user w3 = user w2" "now w2 \<le> now w3"
    by (simp add: getRemaining_def)
  show ?thesis using 1 2 3 by (simp add: blip_action_def)
qed

lemma deadline_check:
  "(\<exists>w'. deadline_attempt r (deadline_ctx t) st w = (Ret (Some DeadlineExceeded), w') \<and> user w' = user w)
   \<or> (now w < t + 50 * Millisecond \<and> (\<exists>w'. deadline_attempt r (deadline_ctx t) st w = (Ret (Some blip), w')
        \<and> length (user w') = Suc (length (user w)) \<and> now w \<le> now w'))"
proof (cases "time_Sub (t + 100 * Millisecond) (now (clock_step w)) \<le> 50 * Millisecond")
  case True
  then show ?thesis by (simp add: deadlineMiddleware_def)
next
  case False
  have "now w < t + 50 * Millisecond"
  proof (rule ccontr)
    assume "\<not> now w < t + 50 * Millisecond"
    then have "t + 100 * Millisecond - now (clock_step w) \<le> 50 * Millisecond"
      using clock_step_simps(4) [of w] by linarith
    then have "time_Sub (t + 100 * Millisecond) (now (clock_step w)) \<le> clamp_int64 (50 * Millisecond)"
      unfolding time_Sub_def by (rule clamp_int64_mono)
    moreover have "clamp_int64 (50 * Millisecond) = 50 * Millisecond" by (simp add: clamp_int64_def min_int64_def max_int64_def duration_units)
    ultimately show False using False by simp
  qed
  moreover obtain w' where "blip_action (deadline_ctx t) (clock_step w) = (Ret (Some blip), w')"
    "length (user w') = Suc (length (user w))" "now w \<le> now w'"
    using blip_result [of t "clock_step w"] clock_step_simps(4) [of w] by fastforce
  ultimately show ?thesis using False by (simp add: deadlineMiddleware_def)
qed

text \<open>What is left to be done after a failed attempt: the call ends with the deadline, or it goes on later.\<close>

lemma blip_after_failure:
  assumes "attempt + 1 < 10" "after_failure (deadline_config r) (deadline_ctx t) attempt errs blip go w = (a, w')"
  shows "(a = Ret (Some (JoinErr (errs @ [blip, DeadlineExceeded]))) \<and> user w' = user w)
    \<or> (\<exists>w1. go w1 = (a, w') \<and> user w1 = user w \<and> now w + 25 * Millisecond \<le> now w1)"
proof -
  have b: "\<not> errors_Is blip ErrCircuitOpen" "shouldRetry default_policy (Some blip)" "errors_As as_retry_after blip = None"
    by (simp_all add: blip_def shouldRetry_default stops_def isFatal_def)
  obtain z w1 where sl: "sleep (deadline_ctx t) (25 * Millisecond) w = (z, w1)" by fastforce
  have u: "user w1 = user w" using quietD [OF quiet_sleep sl] by simp
  have "\<not> 10 \<le> attempt + 1" "retry_token (deadline_config r) = ret True"
    using assms(1) by (simp_all add: not_le retry_token_def del: ret_apply)
  then have "after_failure (deadline_config r) (deadline_ctx t) attempt errs blip go = bind (sleep (deadline_ctx t) (25 * Millisecond))
      (\<lambda>serr. case serr of Some e' \<Rightarrow> ret (joined (errs @ [blip, e'])) | None \<Rightarrow> go)"
    using b by (simp add: after_failure_def delay_and_retry_def fixedBackoff_Next_def del: ret_apply)
  then have "bind (sleep (deadline_ctx t) (25 * Millisecond)) (\<lambda>serr. case serr of
      Some e' \<Rightarrow> ret (joined (errs @ [blip, e'])) | None \<Rightarrow> go) w = (a, w')"
    using assms(2) by simp
  then consider "z = Ret None" "go w1 = (a, w')" | e where "z = Ret (Some e)" "a = Ret (joined (errs @ [blip, e]))" "w' = w1"
    using sleep_result [OF sl] sl by (auto elim!: bind_cases)
  then show ?thesis
  proof cases
    case 1
    then show ?thesis using sleep_waits [of _ _ w w1] sl u by auto
  next
    case 2
    have "e = DeadlineExceeded"
      using sl 2(1) by (auto simp: sleep_def bind_def time_Now_def wait_timer_def flip_coin_def Let_def split: if_splits)
    then show ?thesis using 2 u by (simp add: joined_simps)
  qed
qed

lemma deadline_loop:
  assumes "n \<le> 2" "t + int n * (25 * Millisecond) \<le> now w" "length (user w) = n"
    "retry_loop (deadline_config r) (deadline_attempt r) (deadline_ctx t) start st (of_nat n) (replicate n blip) w = (a, w')"
  shows "length (user w') \<le> 2 \<and> a = Ret (Some (JoinErr (replicate (length (user w')) blip @ [DeadlineExceeded])))"
  using assms
proof (induction "2 - n" arbitrary: n st w rule: less_induct)
  case (less n st w)
  let ?c = "deadline_config r" and ?x = "deadline_ctx t" and ?act = "deadline_attempt r" and ?errs = "replicate n blip"
  let ?st = "attempt_state st (of_nat n) ?errs"
  let ?go = "\<lambda>e. retry_loop ?c ?act ?x start ?st (of_nat n + 1) (?errs @ [e])"
  have "n = 0 \<or> n = 1 \<or> n = 2" using less.prems(1) by linarith
  then have n10: "(of_nat n :: u64) < MaxAttempts ?c" "(of_nat n :: u64) + 1 < 10" by auto
  let ?w = "clock_step w" and ?st' = "?st\<lparr>TotalDuration := time_Sub (now (clock_step w)) start\<rparr>"
  have step: "bind (?act ?x ?st') (\<lambda>err. case err of None \<Rightarrow> bind (success_token ?c) (\<lambda>_. ret None)
      | Some e \<Rightarrow> after_failure ?c ?x (of_nat n) ?errs e (?go e)) ?w = (a, w')"
    using less.prems(4) unfolding retry_loop_step [OF n10(1)] bind_time_Now .
  consider (late) w1 where "?act ?x ?st' ?w = (Ret (Some DeadlineExceeded), w1)" "user w1 = user ?w"
    | (ran) w1 where "now ?w < t + 50 * Millisecond" "?act ?x ?st' ?w = (Ret (Some blip), w1)"
        "length (user w1) = Suc (length (user ?w))" "now ?w \<le> now w1"
    using deadline_check [of r t ?st' ?w] by blast
  then show ?case
  proof cases
    case late
    have "after_failure ?c ?x (of_nat n) ?errs DeadlineExceeded (?go DeadlineExceeded) = ret (joined (?errs @ [DeadlineExceeded]))"
      by (simp add: after_failure_def shouldRetry_default stops_def del: ret_apply)
    then show ?thesis using step late less.prems(1,3) by (simp add: joined_simps)
  next
    case ran
    have n: "n < 2"
    proof (rule ccontr)
      assume "\<not> n < 2"
      then have "int n * (25 * Millisecond) = 50 * Millisecond" using less.prems(1) by simp
      then show False using less.prems(2) ran(1) clock_step_simps(4) [of w] by linarith
    qed
    have "after_failure ?c ?x (of_nat n) ?errs blip (?go blip) w1 = (a, w')" using step ran by simp
    from blip_after_failure [OF n10(2) this]
    consider "a = Ret (Some (JoinErr (?errs @ [blip, DeadlineExceeded])))" "user w' = user w1"
      | w2 where "?go blip w2 = (a, w')" "user w2 = user w1" "now w1 + 25 * Millisecond \<le> now w2" by blast
    then show ?thesis
    proof cases
      case 1
      then show ?thesis using ran(3) less.prems(3) n by (simp add: replicate_app_Cons_same)
    next
      case 2
      have "int (Suc n) * (25 * Millisecond) = int n * (25 * Millisecond) + 25 * Millisecond" by (simp add: distrib_right)
      then have "t + int (Suc n) * (25 * Millisecond) \<le> now w2"
        using 2(3) ran(4) less.prems(2) clock_step_simps(4) [of w] by linarith
      moreover have "retry_loop ?c ?act ?x start ?st (of_nat (Suc n)) (replicate (Suc n) blip) w2 = (a, w')"
        using 2(1) by (simp add: replicate_append_same add.commute)
      ultimately show ?thesis using less.hyps [of "Suc n" w2 ?st] ran(3) 2(2) less.prems(3) n by simp
    qed
  qed
qed

text \<open>
  C20. Of the ten attempts the example allows, at most two run before the deadline: the third would
  start when no more than the threshold of 50 milliseconds is left. The call always ends with the failures of
  the attempts that ran, followed by the error of the deadline; so it is for every clock.
\<close>

theorem deadline_ends_retries:
  assumes "user w = []" "deadline_main r w = (a, w')"
  shows "length (user w') \<le> 2 \<and> a = Ret (Some (JoinErr (replicate (length (user w')) blip @ [DeadlineExceeded])))"
proof -
  let ?t = "now (clock_step w)"
  let ?w = "(clock_step w)\<lparr>heap := b_heap (New_config (deadline_options :: (attempt_line list, unit) opt list) (heap (clock_step w)) r ?t)\<rparr>"
  have "Config_DoErr (deadline_config r) (deadline_ctx ?t) blip_action ?w = (a, w')"
    using assms(2) by (simp add: deadline_main_def with_config_def Let_def)
  moreover have "fresh (deadline_config r)" "default_middlewares (deadline_config r) = [MwRetry, MwDeadline, MwInstrumenter]"
    "Fallback (deadline_config r) = NoFallback"
    by (simp_all add: fresh_def DefaultConfig_def default_middlewares_def)
  moreover have "terminalAction None (Some blip_action) = (\<lambda>x _. blip_action x)" by (simp add: fun_eq_iff)
  ultimately obtain st where "retryMiddleware (deadline_config r) (deadline_attempt r) (deadline_ctx ?t) st ?w = (a, w')"
    by (simp add: Config_DoErr_def error_fallback_none execute_fresh)
  then show ?thesis
    using deadline_loop [of 0 ?t "clock_step ?w" r _ st a w'] assms(1) clock_step_simps(4) [of ?w]
    by (simp add: retryMiddleware_def)
qed

theorem deadline_ends_retries_witness:
  "length (user (snd (deadline_main 0 (calm_world [])))) \<le> 2"
  using deadline_ends_retries [of "calm_world []" 0, OF _ surjective_pairing] by simp

section \<open>A shared bulkhead around a client\<close>

text \<open>
  The commands \<open>rdb_Get\<close> and \<open>rdb_Set\<close> of the client are parameters: they take the key, and the value
  and its expiration. Both calls apply the same list of options, so they share the bulkhead at \<open>k\<close>.
\<close>

definition redis_options :: "nat \<Rightarrow> ('u, 't) opt list" where
  "redis_options k = [WithMaxAttempts 3, WithBaseDelay (100 * Millisecond), WithBulkheadInstance (Some k)]"

definition redis_main ::
  "nat \<Rightarrow> nat \<Rightarrow> (ctx \<Rightarrow> string \<Rightarrow> ('u, string \<times> go_error option) prog)
     \<Rightarrow> (ctx \<Rightarrow> string \<Rightarrow> string \<Rightarrow> duration \<Rightarrow> ('u, go_error option) prog)
     \<Rightarrow> ('u, (string \<times> go_error option) \<times> go_error option) prog" where
  "redis_main r k rdb_Get rdb_Set w =
     (let w = w\<lparr>heap := (heap w)\<lparr>h_bulkheads := (h_bulkheads (heap w))(k := NewBulkhead 10)\<rparr>\<rparr>
      in bind (with_config r (redis_options k :: ('u, string) opt list) (\<lambda>c. Do c Background [] (\<lambda>x. rdb_Get x ''my-key''))) (\<lambda>got.
         bind (with_config r (redis_options k :: ('u, unit) opt list)
                 (\<lambda>c. DoErr c Background (\<lambda>x. rdb_Set x ''my-key'' ''resilient-value'' 0))) (\<lambda>err.
           ret (got, err))) w)"

lemma redis_config [simp]:
  "cfg (New_config (redis_options k) h r t) = (DefaultConfig r)\<lparr>MaxAttempts := 3, BaseDelay := 100 * Millisecond, Bulkhead := Some k\<rparr>"
  "h_jitters (b_heap (New_config (redis_options k) h r t)) r = NewFullJitter (100 * Millisecond) (30 * Second)"
  "h_bulkheads (b_heap (New_config (redis_options k) h r t)) = h_bulkheads h"
  by (simp_all add: redis_options_def New_config_def apply_options_def start_builder_def option_defs add_mw_def
      DefaultConfig_def NewFullJitter_def)

text \<open>A command that answers with one of \<open>answers\<close> and leaves the shared components alone.\<close>

definition command_returns :: "('u, 'a) prog \<Rightarrow> 'a set \<Rightarrow> bool" where
  "command_returns m answers \<longleftrightarrow>
     (\<forall>w. \<exists>a w'. m w = (Ret a, w') \<and> a \<in> answers \<and> orc w' = orc w \<and> heap w' = heap w)"

lemma run_command:
  "command_returns m answers \<Longrightarrow> run r (\<lambda>u h. h_bulkheads h k = b) m (\<lambda>a u h. \<exists>x. a = Ret x \<and> x \<in> answers \<and> h_bulkheads h k = b)"
  by (fastforce simp: command_returns_def run_def undisturbed_def)

lemma run_redis_Get:
  assumes "command_returns (get Background) {(v, None), ([], Some (UserError n))}"
  shows "run r (\<lambda>u h. h_bulkheads h k = NewBulkhead 10)
    (with_config r (redis_options k :: ('u, string) opt list) (\<lambda>c. Do c Background [] get))
    (\<lambda>a (u :: 'u) h. \<exists>val err. a = Ret (val, err) \<and> ((val, err) \<in> {(v, None), ([], Some (JoinErr (replicate 3 (UserError n))))}
      \<and> h_bulkheads h k = NewBulkhead 10))"
proof (rule run_with_config)
  let ?c = "(DefaultConfig r)\<lparr>MaxAttempts := 3, BaseDelay := 100 * Millisecond, Bulkhead := Some k\<rparr> :: ('u, string) config"
  let ?l = "lift_config ?c :: ('u \<times> string, unit) config" and ?e = "UserError n" and ?b = "entered (NewBulkhead 10)"
  let ?act = "assigning (\<lambda>x _. get x) :: ('u \<times> string) do_action"
  let ?chain = "retryMiddleware ?l (deadlineMiddleware ?l (instrumenterMiddleware ?l ?act))"
  have g: "run r (\<lambda>u h. h_bulkheads h k = ?b) (get Background) (\<lambda>a u h. \<exists>x err. a = Ret (x, err) \<and> ((x, err) \<in> {(v, None), ([], Some ?e)} \<and> h_bulkheads h k = ?b))"
    by (rule run_weaken [OF run_command [OF assms]]) auto
  have act: "run r (\<lambda>u h. bulkhead_is k ?b (\<lambda>u. snd u = []) u h) (?act Background st)
      (\<lambda>a u h. \<exists>err. a = Ret err \<and> (err = None \<and> (h_bulkheads h k = ?b \<and> snd u = v) \<or> err = Some ?e \<and> bulkhead_is k ?b (\<lambda>u. snd u = []) u h))" for st
    by (rule run_weaken [OF run_assigning_any [where P = "\<lambda>u h. h_bulkheads h k = ?b" and action = "\<lambda>x _. get x", OF g]]) auto
  have "run r (bulkhead_is k ?b (\<lambda>u. snd u = [])) (?chain Background st)
      (\<lambda>a u h. a = Ret None \<and> (h_bulkheads h k = ?b \<and> snd u = v)
        \<or> a = Ret (Some (JoinErr (replicate (unat (MaxAttempts ?l)) ?e))) \<and> bulkhead_is k ?b (\<lambda>u. snd u = []) u h)" for st
    by (rule run_mixed) (use act in simp_all)
  then have chain: "run r (bulkhead_is k ?b (\<lambda>u. snd u = [])) (?chain Background st)
      (\<lambda>a u h. h_bulkheads h k = ?b \<and> (a = Ret None \<and> snd u = v \<or> a = Ret (Some (JoinErr (replicate 3 ?e))) \<and> snd u = []))" for st
    by (rule run_weaken) auto
  have bulk: "run r (bulkhead_is k (NewBulkhead 10) (\<lambda>u. snd u = [])) (Bulkhead_Execute k Background (?chain Background st))
      (\<lambda>a u h. h_bulkheads h k = NewBulkhead 10 \<and> (a = Ret None \<and> snd u = v \<or> a = Ret (Some (JoinErr (replicate 3 ?e))) \<and> snd u = []))" for st
    by (rule run_bulkhead [OF _ chain]) (simp add: NewBulkhead_def)
  have pipe: "compose ?l (default_middlewares ?l) (terminalAction (Some ?act) None) Background st
      = Bulkhead_Execute k Background (?chain Background st)" for st
    by (simp add: default_middlewares_def bulkhead_plain)
  have "run r (\<lambda>u h. h_bulkheads h k = NewBulkhead 10 \<and> snd u = []) (compose ?l (default_middlewares ?l)
      (terminalAction (Some ?act) None) Background (initial_state ?l))
      (\<lambda>a u h. \<exists>err. a = Ret err \<and> ((snd u, err) \<in> {(v, None), ([], Some (JoinErr (replicate 3 ?e)))} \<and> h_bulkheads h k = NewBulkhead 10))"
    unfolding pipe by (rule run_weaken [OF bulk]) auto
  then have "run r (\<lambda>u h. h_bulkheads h k = NewBulkhead 10) (execute_value ?c Background [] (\<lambda>x _. get x))
      (\<lambda>a u h. \<exists>val err. a = Ret (val, err) \<and> ((val, err) \<in> {(v, None), ([], Some (JoinErr (replicate 3 ?e)))} \<and> h_bulkheads h k = NewBulkhead 10))"
    by (intro run_execute_value_any) (simp_all add: fresh_def)
  then show "run r (\<lambda>u h. h_bulkheads h k = NewBulkhead 10) (Do ?c Background [] get)
      (\<lambda>a u h. \<exists>val err. a = Ret (val, err) \<and> ((val, err) \<in> {(v, None), ([], Some (JoinErr (replicate 3 ?e)))} \<and> h_bulkheads h k = NewBulkhead 10))"
    by (simp add: Do_def DoState_def value_fallback_none)
qed (simp_all add: good_NewFullJitter duration_units)

lemma run_redis_Set:
  assumes "command_returns (put Background) {None, Some (UserError n)}"
  shows "run r (\<lambda>u h. h_bulkheads h k = NewBulkhead 10)
    (with_config r (redis_options k :: ('u, unit) opt list) (\<lambda>c. DoErr c Background put))
    (\<lambda>a (u :: 'u) h. \<exists>err. a = Ret err \<and> (err \<in> {None, Some (JoinErr (replicate 3 (UserError n)))} \<and> h_bulkheads h k = NewBulkhead 10))"
proof (rule run_with_config, rule run_DoErr)
  let ?c = "(DefaultConfig r)\<lparr>MaxAttempts := 3, BaseDelay := 100 * Millisecond, Bulkhead := Some k\<rparr> :: ('u, unit) config"
  let ?e = "UserError n" and ?b = "entered (NewBulkhead 10)" and ?T = "\<lambda>u. True"
  let ?chain = "retryMiddleware ?c (deadlineMiddleware ?c (instrumenterMiddleware ?c (\<lambda>x _. put x)))"
  have act: "run r (bulkhead_is k ?b ?T) (put Background) (\<lambda>a u h. \<exists>err. a = Ret err \<and> (err = None \<and> bulkhead_is k ?b ?T u h \<or> err = Some ?e \<and> bulkhead_is k ?b ?T u h))"
    by (rule run_weaken [OF run_command [OF assms]]) auto
  have "run r (bulkhead_is k ?b ?T) (?chain Background st)
      (\<lambda>a u h. a = Ret None \<and> bulkhead_is k ?b ?T u h \<or> a = Ret (Some (JoinErr (replicate (unat (MaxAttempts ?c)) ?e))) \<and> bulkhead_is k ?b ?T u h)" for st
    by (rule run_mixed) (use act in simp_all)
  then have chain: "run r (bulkhead_is k ?b ?T) (?chain Background st)
      (\<lambda>a u h. h_bulkheads h k = ?b \<and> a \<in> {Ret None, Ret (Some (JoinErr (replicate 3 ?e)))})" for st
    by (rule run_weaken) auto
  have bulk: "run r (bulkhead_is k (NewBulkhead 10) ?T) (Bulkhead_Execute k Background (?chain Background st))
      (\<lambda>a u h. h_bulkheads h k = NewBulkhead 10 \<and> a \<in> {Ret None, Ret (Some (JoinErr (replicate 3 ?e)))})" for st
    by (rule run_bulkhead [OF _ chain]) (simp add: NewBulkhead_def)
  have pipe: "compose ?c (default_middlewares ?c) (terminalAction (Some (\<lambda>x _. put x)) None) Background st
      = Bulkhead_Execute k Background (?chain Background st)" for st
    by (simp add: default_middlewares_def bulkhead_plain)
  show "run r (\<lambda>u h. h_bulkheads h k = NewBulkhead 10) (compose ?c (default_middlewares ?c)
      (terminalAction (Some (\<lambda>x _. put x)) None) Background (initial_state ?c))
      (\<lambda>a u h. \<exists>err. a = Ret err \<and> (err \<in> {None, Some (JoinErr (replicate 3 ?e))} \<and> h_bulkheads h k = NewBulkhead 10))"
    unfolding pipe by (rule run_weaken [OF bulk]) auto
qed (simp_all add: fresh_def good_NewFullJitter duration_units)

text \<open>
  When each attempt of a command answers, or fails with a transient error, a call gives the answer
  or the three failures: the shared bulkhead never turns the example's calls away, and it is empty at the
  end.
\<close>

theorem redis_calls_share_bulkhead:
  assumes "alone (orc w)" "good_jitter (h_jitters (heap w) r)"
    "command_returns (rdb_Get Background ''my-key'') {(v, None), ([], Some (UserError n))}"
    "command_returns (rdb_Set Background ''my-key'' ''resilient-value'' 0) {None, Some (UserError n)}"
    "redis_main r k rdb_Get rdb_Set w = (a, w')"
  shows "\<exists>got err. a = Ret (got, err) \<and> got \<in> {(v, None), ([], Some (JoinErr (replicate 3 (UserError n))))}
    \<and> err \<in> {None, Some (JoinErr (replicate 3 (UserError n)))} \<and> h_bulkheads (heap w') k = NewBulkhead 10"
proof -
  let ?w = "w\<lparr>heap := (heap w)\<lparr>h_bulkheads := (h_bulkheads (heap w))(k := NewBulkhead 10)\<rparr>\<rparr>"
  let ?B = "\<lambda>(u :: 'a) h. h_bulkheads h k = NewBulkhead 10" and ?joined = "Some (JoinErr (replicate 3 (UserError n)))"
  have one: "run r ?B (with_config r (redis_options k :: ('a, string) opt list) (\<lambda>c. Do c Background [] (\<lambda>x. rdb_Get x ''my-key'')))
      (\<lambda>a u h. \<exists>got. a = Ret got \<and> (got \<in> {(v, None), ([], ?joined)} \<and> ?B u h))"
    by (rule run_weaken [OF run_redis_Get [where get = "\<lambda>x. rdb_Get x ''my-key''", OF assms(3)]]) auto
  have two: "run r (\<lambda>u h. got \<in> {(v, None), ([], ?joined)} \<and> ?B u h)
      (bind (with_config r (redis_options k :: ('a, unit) opt list) (\<lambda>c. DoErr c Background (\<lambda>x. rdb_Set x ''my-key'' ''resilient-value'' 0)))
        (\<lambda>err. ret (got, err)))
      (\<lambda>a u h. \<exists>got err. a = Ret (got, err) \<and> got \<in> {(v, None), ([], ?joined)} \<and> err \<in> {None, ?joined} \<and> ?B u h)" for got
  proof (cases "got \<in> {(v, None), ([], ?joined)}")
    case True
    have "run r ?B (bind (with_config r (redis_options k :: ('a, unit) opt list)
        (\<lambda>c. DoErr c Background (\<lambda>x. rdb_Set x ''my-key'' ''resilient-value'' 0))) (\<lambda>err. ret (got, err)))
      (\<lambda>a u h. \<exists>got err. a = Ret (got, err) \<and> got \<in> {(v, None), ([], ?joined)} \<and> err \<in> {None, ?joined} \<and> ?B u h)"
      by (rule run_bind_value [OF run_redis_Set [where put = "\<lambda>x. rdb_Set x ''my-key'' ''resilient-value'' 0", OF assms(4)]])
        (use True in \<open>auto simp: run_def\<close>)
    then show ?thesis by (rule run_weaken) auto
  qed (auto simp: run_def)
  have "undisturbed r ?w" "?B (user ?w) (heap ?w)" using assms(1,2) by (simp_all add: undisturbed_def)
  from runE [OF run_bind_value [OF one two] this] show ?thesis using assms(5) by (auto simp: redis_main_def Let_def)
qed

theorem redis_calls_share_bulkhead_witness:
  "\<exists>got err. fst (redis_main 0 0 (\<lambda>x key. ret (''hello'', None)) (\<lambda>x key val ex. ret None) (calm_world ())) = Ret (got, err)
    \<and> got \<in> {(''hello'', None), ([], Some (JoinErr (replicate 3 (UserError 1))))}"
proof -
  have "command_returns (ret (''hello'', None) :: (unit, string \<times> go_error option) prog) {(''hello'', None), ([], Some (UserError 1))}"
    "command_returns (ret None :: (unit, go_error option) prog) {None, Some (UserError 1)}"
    by (simp_all add: command_returns_def)
  from redis_calls_share_bulkhead [of "calm_world ()" 0 "\<lambda>x key. ret (''hello'', None)" "''hello''" 1 "\<lambda>x key val ex. ret None" 0, OF _ _ this surjective_pairing]
  show ?thesis by (simp add: alone_def empty_heap_def good_NewFullJitter duration_units del: One_nat_def) blast
qed

section \<open>Hedging a slow backend\<close>

text \<open>\<^verbatim>\<open>rand.Intn\<close>; the value of a success is its latency, of which the code makes a text.\<close>

definition rand_Intn :: "nat \<Rightarrow> ('u, nat) prog" where
  "rand_Intn n w = (Ret (or_draw (orc w) (tick w) mod n), w\<lparr>tick := Suc (tick w)\<rparr>)"

definition slow_backend :: "ctx \<Rightarrow> ('u, duration option \<times> go_error option) prog" where
  "slow_backend x =
     bind (rand_Intn 500) (\<lambda>k.
     bind time_Now (\<lambda>t.
     bind (wait_timer x (t + int k * Millisecond)) (\<lambda>err.
       ret (case err of None \<Rightarrow> (Some (int k * Millisecond), None) | Some e \<Rightarrow> (None, Some e)))))"

definition hedging_options :: "('u, 't) opt list" where
  "hedging_options = [WithMaxAttempts 3, WithHedgingDelay (100 * Millisecond), WithName ''hedged-api-call'']"

definition hedging_main :: "nat \<Rightarrow> 'u world \<Rightarrow> (duration option \<times> go_error option) result \<Rightarrow> 'u world \<Rightarrow> bool" where
  "hedging_main r w out w' \<longleftrightarrow>
     (let w1 = clock_step w; x = WithTimeout_ctx (now w1) (2 * Second) Background;
          b = New_config (hedging_options :: ('u, duration option) opt list) (heap w1) r (now w1)
      in DoHedged (cfg b) x None slow_backend (w1\<lparr>heap := b_heap b\<rparr>) out w')"

lemma hedging_config [simp]:
  "cfg (New_config hedging_options h r t) =
     (DefaultConfig r)\<lparr>MaxAttempts := 3, HedgingDelay := 100 * Millisecond, Name := ''hedged-api-call''\<rparr>"
  by (simp add: hedging_options_def New_config_def apply_options_def start_builder_def option_defs add_mw_def DefaultConfig_def)

lemma slow_backend_success:
  assumes "slow_backend x w = (Ret (v, None), w')"
  shows "\<exists>k < 500. v = Some (int k * Millisecond)"
proof -
  let ?k = "or_draw (orc w) (tick w) mod 500"
  have "v = Some (int ?k * Millisecond)"
    using assms by (auto simp: slow_backend_def rand_Intn_def bind_def time_Now_def Let_def split: prod.splits result.splits option.splits)
  then show ?thesis by (intro exI [of _ ?k]) simp
qed

text \<open>
  A success of the example carries the latency of one of its attempts, below half a second; it is
  never the zero value of the variable or the result of an attempt that was cancelled.
\<close>

theorem hedging_reports_a_latency:
  assumes "hedging_main r w (Ret (v, None)) w'"
  shows "\<exists>k < 500. v = Some (int k * Millisecond)"
proof -
  let ?c = "(DefaultConfig r)\<lparr>MaxAttempts := 3, HedgingDelay := 100 * Millisecond, Name := ''hedged-api-call''\<rparr> :: ('a, duration option) config"
  obtain x w1 where "DoStateHedged ?c x None (\<lambda>x _. slow_backend x) w1 (Ret (v, None)) w'"
    using assms by (auto simp: hedging_main_def DoHedged_def Let_def)
  then have "produced (\<lambda>x _. slow_backend x :: ('a, duration option \<times> go_error option) prog) v"
    by (rule hedged_value_produced) (simp_all add: DefaultConfig_def)
  then show ?thesis unfolding produced_def using slow_backend_success by blast
qed

theorem hedging_reports_a_latency_witness:
  "\<exists>w'. hedging_main 0 (calm_world ()) (Ret (Some 0, None)) w' \<and> (\<exists>k < 500. Some (0 :: int) = Some (int k * Millisecond))"
proof -
  let ?c = "(DefaultConfig 0)\<lparr>MaxAttempts := 3, HedgingDelay := 100 * Millisecond, Name := ''hedged-api-call''\<rparr> :: (unit, duration option) config"
  let ?w = "clock_step (calm_world ()) :: unit world" and ?act = "\<lambda>x (_ :: retry_state). slow_backend x :: (unit, duration option \<times> go_error option) prog"
  let ?x = "WithTimeout_ctx (now ?w) (2 * Second) Background"
  let ?w' = "?w\<lparr>heap := b_heap (New_config (hedging_options :: (unit, duration option) opt list) (heap ?w) 0 (now ?w))\<rparr>"
  have mws: "hedged_middlewares ?c = [MwInstrumenter, MwDeadline]" by (simp add: hedged_middlewares_def DefaultConfig_def)
  have "hedged_attempt ?c ?act ?x st (Some (Some 0)) (Ret None)" for st
    unfolding hedged_attempt_def mws
    by (rule exI [of _ "calm_world ((), None)"])
      (simp add: instrumenterMiddleware_def deadlineMiddleware_def lift_config_def DefaultConfig_def Background_def WithTimeout_ctx_def
        once_assigning_def lift_def with_user_def keep_first_def slow_backend_def rand_Intn_def bind_def time_Now_def wait_timer_def
        flip_coin_def done_at_def clock_step_def calm_def time_Sub_def clamp_int64_def min_int64_def max_int64_def duration_units Let_def)
  then obtain s where s: "hedge_reach ?c ?x (hedged_attempt ?c ?act) ?w' s" "hg_pc s = Returned None" "hg_value s = Some (Some 0)"
    using one_attempt_run [of ?c "hedged_attempt ?c ?act" ?x "Some (Some 0)" None ?w'] by auto
  then have "executeHedged ?c ?x (hedged_attempt ?c ?act) ?w' (Ret (Some (Some 0), None)) (hg_world s)"
    by (auto simp: executeHedged_def)
  then have "DoHedged ?c ?x None slow_backend ?w' (Ret (Some 0, None)) (hg_world s)"
    by (force simp: DoHedged_def DoStateHedged_def value_fallback_def bind_def or_zero_def)
  then have "hedging_main 0 (calm_world ()) (Ret (Some 0, None)) (hg_world s)" by (simp add: hedging_main_def Let_def)
  from hedging_reports_a_latency [OF this] this show ?thesis by blast
qed

section \<open>A server that says when to come back\<close>

text \<open>
  The caller's state is the log and the number of requests. The literal 0.3 is a
  \<^verbatim>\<open>float32\<close> here.
\<close>

definition api_error :: "time \<Rightarrow> go_error" where
  "api_error waitUntil = RetryAfterErr 22 (DelayUntil waitUntil) False"

definition endpoint_action :: "ctx \<Rightarrow> (slog_record list \<times> nat, string \<times> go_error option) prog" where
  "endpoint_action x =
     bind (\<lambda>w. (Ret (), w\<lparr>user := (fst (user w), Suc (snd (user w)))\<rparr>)) (\<lambda>_.
     bind rng_Float64 (\<lambda>p.
       if p < Fin (10066330 / 2 ^ 25)
       then bind time_Now (\<lambda>t. ret ([], Some (api_error (t + 500 * Millisecond))))
       else ret (''Response payload'', None)))"

definition http_options :: "(slog_record list \<times> nat, 't) opt list" where
  "http_options = [WithName ''fetch-inventory'', WithInstrumenter (Some slog_New), WithMaxAttempts 3]"

definition http_main :: "nat \<Rightarrow> (slog_record list \<times> nat, string \<times> go_error option) prog" where
  "http_main r =
     with_config r (http_options :: (slog_record list \<times> nat, string) opt list) (\<lambda>c. Do c Background [] endpoint_action)"

lemma http_config [simp]:
  "cfg (New_config http_options h r t) = (DefaultConfig r)\<lparr>Name := ''fetch-inventory'', Instrumenter := Some slog_New, MaxAttempts := 3\<rparr>"
  "h_jitters (b_heap (New_config http_options h r t)) r = NewFullJitter (100 * Millisecond) (30 * Second)"
  by (simp_all add: http_options_def New_config_def apply_options_def start_builder_def option_defs add_mw_def
      DefaultConfig_def NewFullJitter_def)

text \<open>After \<open>n\<close> requests, of which the first \<open>k\<close> failed and were logged.\<close>

definition requested :: "nat \<Rightarrow> nat \<Rightarrow> slog_record list \<times> nat \<Rightarrow> bool" where
  "requested n k u \<longleftrightarrow> snd u = n \<and> map slog_msg (fst u) = replicate k ''retry attempt failed''"

lemma run_endpoint:
  "run r (\<lambda>u h. requested k k u) (endpoint_action Background) (\<lambda>a u h. \<exists>v err. a = Ret (v, err)
    \<and> (requested (Suc k) k u \<and> (err = None \<and> v = ''Response payload'' \<or> (\<exists>e \<in> range api_error. err = Some e) \<and> v = [])))"
  by (auto simp: run_def endpoint_action_def bind_def rng_Float64_def time_Now_def undisturbed_def requested_def Let_def)

lemma run_logged_failure:
  "run r (\<lambda>u h. requested n k (fst u) \<and> snd u = v) (lift (slog_AfterAttempt x (st\<lparr>LastError := err\<rparr>)))
    (\<lambda>a u h. a = Ret () \<and> requested n (k + (if err = None then 0 else 1)) (fst u) \<and> snd u = v)"
proof -
  have "run r (\<lambda>u h. requested n k u) (slog_AfterAttempt x (st\<lparr>LastError := err\<rparr>))
      (\<lambda>a u h. a = Ret () \<and> requested n (k + (if err = None then 0 else 1)) u)"
    by (cases err) (auto simp: run_def slog_AfterAttempt_def emit_def undisturbed_def requested_def Let_def replicate_append_same)
  from run_lift [OF this, of v] show ?thesis by (rule run_weaken) simp_all
qed

abbreviation http_config :: "nat \<Rightarrow> (slog_record list \<times> nat, string) config" where
  "http_config r \<equiv> (DefaultConfig r)\<lparr>Name := ''fetch-inventory'', Instrumenter := Some slog_New, MaxAttempts := 3\<rparr>"

abbreviation http_lifted :: "nat \<Rightarrow> ((slog_record list \<times> nat) \<times> string, unit) config" where
  "http_lifted r \<equiv> lift_config (http_config r)"

lemma run_http_attempt:
  "run r (\<lambda>u h. requested k k (fst u) \<and> snd u = [])
    (instrumenterMiddleware (http_lifted r) (assigning (\<lambda>x _. endpoint_action x)) Background st)
    (\<lambda>a u h. \<exists>err. a = Ret err \<and> (err = None \<and> requested (Suc k) k (fst u) \<and> snd u = ''Response payload''
      \<or> (\<exists>e \<in> range api_error. err = Some e \<and> requested (Suc k) (Suc k) (fst u) \<and> snd u = [])))"
proof -
  let ?R = "\<lambda>a (u :: (slog_record list \<times> nat) \<times> string) h. \<exists>err. a = Ret err \<and> (err = None \<and> requested (Suc k) k (fst u) \<and> snd u = ''Response payload''
      \<or> (\<exists>e \<in> range api_error. err = Some e \<and> requested (Suc k) (Suc k) (fst u) \<and> snd u = []))"
  let ?act = "assigning (\<lambda>x _. endpoint_action x) :: ((slog_record list \<times> nat) \<times> string) do_action"
  have "run r (\<lambda>u h. requested k k u) (slog_BeforeAttempt Background st) (returning (Ret Background) (\<lambda>u h. requested k k u))"
    by (simp add: slog_BeforeAttempt_def run_ret del: ret_apply)
  note before = run_lift_user [OF this]
  have action: "run r (\<lambda>u h. requested k k (fst u)) (?act Background st) (\<lambda>a u h. \<exists>err. a = Ret err \<and> (requested (Suc k) k (fst u)
      \<and> (err = None \<and> snd u = ''Response payload'' \<or> (\<exists>e \<in> range api_error. err = Some e) \<and> snd u = [])))"
    using run_assigning_any [where action = "\<lambda>x _. endpoint_action x" and P = "\<lambda>u h. requested k k u"
        and Q = "\<lambda>v err u h. requested (Suc k) k u \<and> (err = None \<and> v = ''Response payload'' \<or> (\<exists>e \<in> range api_error. err = Some e) \<and> v = [])",
        OF run_endpoint] .
  have after: "run r (\<lambda>u h. requested (Suc k) k (fst u) \<and> (err = None \<and> snd u = ''Response payload'' \<or> (\<exists>e \<in> range api_error. err = Some e) \<and> snd u = []))
      (bind (lift (slog_AfterAttempt Background (st\<lparr>LastError := err\<rparr>))) (\<lambda>_. ret err)) ?R" for err
  proof -
    have "run r (\<lambda>u h. requested (Suc k) k (fst u) \<and> (err = None \<and> snd u = ''Response payload'' \<or> (\<exists>e \<in> range api_error. err = Some e) \<and> snd u = []))
        (lift (slog_AfterAttempt Background (st\<lparr>LastError := err\<rparr>))) (returning (Ret ()) (\<lambda>u h. ?R (Ret err) u h))"
    proof (cases err)
      case None
      then show ?thesis by (intro run_weaken [OF run_logged_failure [of r "Suc k" k "''Response payload''"]]) auto
    next
      case (Some e)
      show ?thesis
      proof (cases "e \<in> range api_error")
        case True
        then show ?thesis using Some by (intro run_weaken [OF run_logged_failure [of r "Suc k" k "[]"]]) auto
      qed (use Some in \<open>simp add: run_def\<close>)
    qed
    from run_bind [OF this run_ret] show ?thesis by (rule run_weaken) auto
  qed
  have "instrumenterMiddleware (http_lifted r) ?act Background st =
      bind (lift (slog_BeforeAttempt Background st)) (\<lambda>x. bind (?act x st) (\<lambda>err.
        bind (lift (slog_AfterAttempt x (st\<lparr>LastError := err\<rparr>))) (\<lambda>_. ret err)))"
    by (simp add: instrumenterMiddleware_def lift_instrumenter_def slog_New_def)
  moreover have "run r (\<lambda>u h. requested k k (fst u)) (bind (lift (slog_BeforeAttempt Background st)) (\<lambda>x. bind (?act x st) (\<lambda>err.
        bind (lift (slog_AfterAttempt x (st\<lparr>LastError := err\<rparr>))) (\<lambda>_. ret err)))) ?R"
    by (rule run_bind [OF before], rule run_bind_value [OF action], rule after)
  ultimately show ?thesis by (simp only:) (erule run_weaken, auto)
qed

text \<open>
  The call of the example returns the payload, or after three requests the three errors of the
  server; there is one record in the log for each failed request and no other, for every clock and random
  source. By \<open>retry_respects_stops_and_delays\<close> it does not come back before the instants the server named.
\<close>

theorem http_call_returns_or_reports:
  assumes "alone (orc w)" "good_jitter (h_jitters (heap w) r)" "user w = ([], 0)" "http_main r w = (a, w')"
  shows "(\<exists>k < 3. a = Ret (''Response payload'', None) \<and> requested (Suc k) k (user w'))
    \<or> (\<exists>es. a = Ret ([], Some (JoinErr es)) \<and> length es = 3 \<and> set es \<subseteq> range api_error \<and> requested 3 3 (user w'))"
proof -
  let ?act = "assigning (\<lambda>x _. endpoint_action x) :: ((slog_record list \<times> nat) \<times> string) do_action"
  let ?Q = "\<lambda>v err u. (\<exists>k < 3. err = None \<and> v = ''Response payload'' \<and> requested (Suc k) k u)
    \<or> (\<exists>es. err = Some (JoinErr es) \<and> v = [] \<and> length es = 3 \<and> set es \<subseteq> range api_error \<and> requested 3 3 u)"
  have again: "retryable (http_config r) e" if "e \<in> range api_error" for e
    using that by (auto simp: retryable_def api_error_def shouldRetry_default stops_def isFatal_def)
  have loop: "run r (\<lambda>u h. requested 0 0 (fst u) \<and> snd u = [])
      (retryMiddleware (http_lifted r) (deadlineMiddleware (http_lifted r) (instrumenterMiddleware (http_lifted r) ?act)) Background st)
      (\<lambda>a u h. a = Ret None \<and> (\<exists>k < 3. snd u = ''Response payload'' \<and> requested (Suc k) k (fst u))
        \<or> (\<exists>es. a = Ret (Some (JoinErr es)) \<and> length es = unat (MaxAttempts (http_lifted r)) \<and> set es \<subseteq> range api_error
             \<and> (requested (unat (MaxAttempts (http_lifted r))) (unat (MaxAttempts (http_lifted r))) (fst u) \<and> snd u = [])))" for st
  proof (rule run_mixed_any [where P = "\<lambda>k u h. requested k k (fst u) \<and> snd u = []" and Q = "\<lambda>u h. \<exists>k < 3. snd u = ''Response payload'' \<and> requested (Suc k) k (fst u)"])
    show "run r (\<lambda>u h. requested k k (fst u) \<and> snd u = [])
        (deadlineMiddleware (http_lifted r) (instrumenterMiddleware (http_lifted r) ?act) Background st')
        (\<lambda>a u h. \<exists>err. a = Ret err \<and> (err = None \<and> (\<exists>k < 3. snd u = ''Response payload'' \<and> requested (Suc k) k (fst u))
          \<or> (\<exists>e \<in> range api_error. err = Some e \<and> requested (Suc k) (Suc k) (fst u) \<and> snd u = [])))"
      if "k < unat (MaxAttempts (http_lifted r))" for k st'
      using that by (simp only: plain_chain) (rule run_weaken [OF run_http_attempt], auto)
  qed (simp_all add: again)
  have pipe: "compose (http_lifted r) (default_middlewares (http_lifted r)) (terminalAction (Some ?act) None) Background st
      = retryMiddleware (http_lifted r) (deadlineMiddleware (http_lifted r) (instrumenterMiddleware (http_lifted r) ?act)) Background st" for st
    by (simp add: default_middlewares_def)
  have chain: "run r (\<lambda>u h. requested 0 0 (fst u) \<and> snd u = []) (compose (http_lifted r) (default_middlewares (http_lifted r))
      (terminalAction (Some ?act) None) Background (initial_state (http_lifted r)))
      (\<lambda>a u h. \<exists>err. a = Ret err \<and> ?Q (snd u) err (fst u))"
    unfolding pipe by (rule run_weaken [OF loop]) auto
  have "run r (\<lambda>u h. requested 0 0 u) (DoState (http_config r) Background [] (\<lambda>x _. endpoint_action x))
      (\<lambda>a u h. \<exists>v err. a = Ret (v, err) \<and> ?Q v err u)"
    using run_execute_value_any [where P = "\<lambda>u h. requested 0 0 u" and Q = "\<lambda>v err u h. ?Q v err u" and c = "http_config r", OF _ chain]
    by (simp add: DoState_def value_fallback_none fresh_def)
  then have main: "run r (\<lambda>u h. requested 0 0 u) (http_main r) (\<lambda>a u h. \<exists>v err. a = Ret (v, err) \<and> ?Q v err u)"
    unfolding http_main_def Do_def by (rule run_with_config) (simp_all add: good_NewFullJitter duration_units)
  have "undisturbed r w" "requested 0 0 (user w)" using assms by (simp_all add: undisturbed_def requested_def)
  then have "\<exists>v err. a = Ret (v, err) \<and> ?Q v err (user w')" by (rule runD [where m = "http_main r" and w = w and w' = w' and a = a, OF main]) (rule assms(4))
  then obtain v err where a: "a = Ret (v, err)" and q: "?Q v err (user w')" by blast
  from q show ?thesis unfolding a by auto
qed

theorem http_call_returns_or_reports_witness:
  "snd (user (snd (http_main 0 (calm_world ([], 0))))) \<le> 3"
  using http_call_returns_or_reports [of "calm_world ([], 0)" 0, OF _ _ _ surjective_pairing]
  by (auto simp: alone_def empty_heap_def good_NewFullJitter duration_units requested_def)

end
