(* ===== verification/Example_Tasks.thy ===== *)
theory Example_Tasks
  imports Backpressure Example_Services
begin

text \<open>
  Programs under \<^verbatim>\<open>examples\<close> that start goroutines of their own around one shared
  component: the bulkhead (\<^verbatim>\<open>bulkhead\<close>), the priority bulkhead
  (\<^verbatim>\<open>prioritybulkhead\<close>), and the adaptive limiter (\<^verbatim>\<open>adaptiveconcurrency\<close>
  and the second half of \<^verbatim>\<open>backpressure\<close>). Each is a step relation over the component and the
  numbers of goroutines at each point of their code, so that its reachable states are all the interleavings. The
  lemmas at the head of a section relate a goroutine to the call it makes.
\<close>

section \<open>Tasks through a bulkhead\<close>

definition task_options :: "nat \<Rightarrow> ('u, 't) opt list" where
  "task_options k = [WithBulkheadInstance (Some k)]"

definition task_action :: "ctx \<Rightarrow> ('u, go_error option) prog" where
  "task_action x = bind (time_Sleep (100 * Millisecond)) (\<lambda>_. ret None)"

text \<open>
  The action succeeds, so a task enters the bulkhead once, reads the clock twice in front of its
  one attempt, works, and leaves.
\<close>

lemma task_call:
  "DoErr (cfg (New_config (task_options k) h r t) :: ('u, 't) config) Background task_action =
     Bulkhead_Execute k Background (bind time_Now (\<lambda>_. bind time_Now (\<lambda>_. task_action Background)))"
proof -
  let ?c = "(DefaultConfig r :: ('u, 't) config)\<lparr>Bulkhead := Some k\<rparr>"
  have cfg: "cfg (New_config (task_options k) h r t) = ?c"
    by (simp add: task_options_def New_config_def apply_options_def start_builder_def option_defs add_mw_def DefaultConfig_def)
  have ok: "\<exists>w'. task_action Background w = (Ret None, w')" for w :: "'u world"
    by (simp add: task_action_def time_Sleep_def wait_timer_def bind_def time_Now_def Let_def)
  have "retryMiddleware ?c (deadlineMiddleware ?c (instrumenterMiddleware ?c (\<lambda>x _. task_action x))) Background st
      = bind time_Now (\<lambda>_. bind time_Now (\<lambda>_. task_action Background))" for st
  proof (rule ext)
    fix w :: "'u world"
    obtain w' where "task_action Background (clock_step (clock_step w)) = (Ret None, w')" using ok by blast
    moreover have "0 < MaxAttempts ?c" "AdaptiveBucket ?c = None" "Instrumenter ?c = None" by (simp_all add: DefaultConfig_def)
    ultimately show "retryMiddleware ?c (deadlineMiddleware ?c (instrumenterMiddleware ?c (\<lambda>x _. task_action x))) Background st w
      = bind time_Now (\<lambda>_. bind time_Now (\<lambda>_. task_action Background)) w"
      by (simp add: retryMiddleware_def retry_loop_step success_token_def)
  qed
  moreover have "default_middlewares ?c = [MwBulkhead, MwRetry, MwDeadline, MwInstrumenter]"
    by (simp add: default_middlewares_def DefaultConfig_def)
  moreover have "fresh ?c" "Fallback ?c = NoFallback" "Bulkhead ?c = Some k" "Instrumenter ?c = None"
    by (simp_all add: fresh_def DefaultConfig_def)
  ultimately show ?thesis
    unfolding cfg by (simp add: DoErr_def DoErrState_def error_fallback_none execute_fresh bulkhead_plain)
qed

text \<open>
  The tasks that have not arrived, those that work, and those that are over; a task arrives with
  its \<^verbatim>\<open>select\<close>, whose context is never done.
\<close>

record bulkhead_tasks =
  bt_gate :: bulkhead
  bt_waiting :: nat
  bt_working :: nat
  bt_succeeded :: nat
  bt_failed :: nat

definition tasks_start :: bulkhead_tasks where
  "tasks_start = \<lparr>bt_gate = NewBulkhead 2, bt_waiting = 5, bt_working = 0, bt_succeeded = 0, bt_failed = 0\<rparr>"

inductive task_step :: "bulkhead_tasks \<Rightarrow> bulkhead_tasks \<Rightarrow> bool" where
  task_enters: "bt_waiting s = Suc n \<Longrightarrow> Bulkhead_enter (None, coin) (bt_gate s) = (None, b) \<Longrightarrow>
     task_step s (s\<lparr>bt_gate := b, bt_waiting := n, bt_working := Suc (bt_working s)\<rparr>)"
| task_refused: "bt_waiting s = Suc n \<Longrightarrow> Bulkhead_enter (None, coin) (bt_gate s) = (Some e, b) \<Longrightarrow>
     task_step s (s\<lparr>bt_gate := b, bt_waiting := n, bt_failed := Suc (bt_failed s)\<rparr>)"
| task_leaves: "bt_working s = Suc n \<Longrightarrow>
     task_step s (s\<lparr>bt_gate := Bulkhead_leave (bt_gate s), bt_working := n, bt_succeeded := Suc (bt_succeeded s)\<rparr>)"

text \<open>A refusal means that two tasks are at work, and these will succeed.\<close>

definition tasks_inv :: "bulkhead_tasks \<Rightarrow> bool" where
  "tasks_inv s \<longleftrightarrow> bt_gate s = \<lparr>bh_semaphore = \<lparr>sem_len = bt_working s, sem_cap = 2\<rparr>\<rparr> \<and> bt_working s \<le> 2
     \<and> bt_waiting s + bt_working s + bt_succeeded s + bt_failed s = 5
     \<and> (0 < bt_failed s \<longrightarrow> 2 \<le> bt_working s + bt_succeeded s)"

declare tasks_inv_def [inv_defs]

lemma tasks_inv_step [preserved]:
  assumes "task_step s s'" "tasks_inv s"
  shows "tasks_inv s'" "2 * bt_waiting s' + bt_working s' < 2 * bt_waiting s + bt_working s"
  using assms
  by (induction rule: task_step.induct)
    (auto simp: tasks_inv_def Bulkhead_enter_def Bulkhead_leave_def slot_select_def slot_release_def Let_def split: if_splits)

lemma tasks_inv_steps:
  "(task_step ^^ n) tasks_start s \<Longrightarrow> tasks_inv s \<and> n + (2 * bt_waiting s + bt_working s) \<le> 10"
proof (induction n arbitrary: s)
  case 0
  then have "s = tasks_start" by auto
  then show ?case by (simp add: tasks_inv_def tasks_start_def NewBulkhead_def)
next
  case (Suc n)
  then obtain s1 where "(task_step ^^ n) tasks_start s1" "task_step s1 s" by auto
  with Suc.IH [of s1] tasks_inv_step [of s1 s] show ?case by fastforce
qed

lemma task_progress:
  assumes "\<nexists>s'. task_step s s'"
  shows "bt_waiting s = 0" "bt_working s = 0"
proof -
  obtain r b where "Bulkhead_enter (None, True) (bt_gate s) = (r, b)" by fastforce
  with assms show "bt_waiting s = 0"
    by (cases r; cases "bt_waiting s") (blast intro: task_enters task_refused)+
  show "bt_working s = 0" using assms by (cases "bt_working s") (blast intro: task_leaves)+
qed

text \<open>
  The five tasks of the example: never more than two work at once; every schedule ends, after at
  most ten steps, and not before every task is over; then at least two have succeeded, the others were
  refused, and the bulkhead is empty.
\<close>

theorem bulkhead_tasks_complete:
  assumes "(task_step ^^ n) tasks_start s"
  shows "bt_working s \<le> 2 \<and> n \<le> 10
    \<and> ((\<nexists>s'. task_step s s') \<longrightarrow> bt_gate s = NewBulkhead 2 \<and> 2 \<le> bt_succeeded s \<and> bt_succeeded s + bt_failed s = 5)"
  using tasks_inv_steps [OF assms] task_progress [of s] by (auto simp: tasks_inv_def NewBulkhead_def)

theorem bulkhead_tasks_complete_witness: "bt_working (tasks_start\<lparr>bt_gate := \<lparr>bh_semaphore = \<lparr>sem_len = 1, sem_cap = 2\<rparr>\<rparr>,
    bt_waiting := 4, bt_working := 1\<rparr>) \<le> 2"
proof -
  let ?b = "\<lparr>bh_semaphore = \<lparr>sem_len = 1, sem_cap = 2\<rparr>\<rparr> :: bulkhead"
  have "task_step tasks_start (tasks_start\<lparr>bt_gate := ?b, bt_waiting := 4, bt_working := Suc (bt_working tasks_start)\<rparr>)"
    by (rule task_enters) (simp_all add: tasks_start_def Bulkhead_enter_def slot_select_def NewBulkhead_def)
  then have "(task_step ^^ 1) tasks_start (tasks_start\<lparr>bt_gate := ?b, bt_waiting := 4, bt_working := 1\<rparr>)"
    unfolding relpowp_1 by (simp add: tasks_start_def)
  from bulkhead_tasks_complete [OF this] show ?thesis by simp
qed

section \<open>Tasks of three priorities\<close>

text \<open>
  \<^verbatim>\<open>runTask\<close> calls the priority bulkhead directly. The goroutines in front of the check,
  between the check and the \<^verbatim>\<open>select\<close>, and inside, by their priorities; \<open>pt_over\<close> has the
  error of each task that is over. The pause of \<^verbatim>\<open>main\<close> guarantees nothing about the first
  six tasks, so the other two may start at any time.
\<close>

record priority_tasks =
  pt_gate :: priority_bulkhead
  pt_arriving :: "Priority multiset"
  pt_checked :: "Priority multiset"
  pt_inside :: "Priority multiset"
  pt_over :: "(Priority \<times> go_error option) multiset"
  pt_all :: bool

definition thresholds :: "Priority \<rightharpoonup> f64" where
  "thresholds = [PriorityLow \<mapsto> rnd (1 / 2), PriorityStandard \<mapsto> rnd (4 / 5), PriorityCritical \<mapsto> Fin 1]"

definition shared_gate :: priority_bulkhead where
  "shared_gate = NewPriorityBulkhead 10 thresholds"

definition priorities_start :: priority_tasks where
  "priorities_start = \<lparr>pt_gate = shared_gate, pt_arriving = replicate_mset 6 PriorityStandard,
     pt_checked = {#}, pt_inside = {#}, pt_over = {#}, pt_all = False\<rparr>"

inductive priority_step :: "priority_tasks \<Rightarrow> priority_tasks \<Rightarrow> bool" where
  pt_others: "\<not> pt_all s \<Longrightarrow>
     priority_step s (s\<lparr>pt_arriving := pt_arriving s + {#PriorityLow, PriorityCritical#}, pt_all := True\<rparr>)"
| pt_passes: "p \<in># pt_arriving s \<Longrightarrow> pb_check p (pt_gate s) = None \<Longrightarrow>
     priority_step s (s\<lparr>pt_arriving := pt_arriving s - {#p#}, pt_checked := add_mset p (pt_checked s)\<rparr>)"
| pt_shed: "p \<in># pt_arriving s \<Longrightarrow> pb_check p (pt_gate s) = Some e \<Longrightarrow>
     priority_step s (s\<lparr>pt_arriving := pt_arriving s - {#p#}, pt_over := add_mset (p, Some e) (pt_over s)\<rparr>)"
| pt_enters: "p \<in># pt_checked s \<Longrightarrow> pb_select (None, coin) (pt_gate s) = (None, b) \<Longrightarrow>
     priority_step s (s\<lparr>pt_gate := b, pt_checked := pt_checked s - {#p#}, pt_inside := add_mset p (pt_inside s)\<rparr>)"
| pt_refused: "p \<in># pt_checked s \<Longrightarrow> pb_select (None, coin) (pt_gate s) = (Some e, b) \<Longrightarrow>
     priority_step s (s\<lparr>pt_gate := b, pt_checked := pt_checked s - {#p#}, pt_over := add_mset (p, Some e) (pt_over s)\<rparr>)"
| pt_leaves: "p \<in># pt_inside s \<Longrightarrow>
     priority_step s (s\<lparr>pt_gate := PriorityBulkhead_leave (pt_gate s), pt_inside := pt_inside s - {#p#},
       pt_over := add_mset (p, None) (pt_over s)\<rparr>)"

text \<open>With eight tasks in all, the semaphore of ten is never full, and the gate depends on its length only.\<close>

definition gate_with :: "nat \<Rightarrow> priority_bulkhead" where
  "gate_with n = \<lparr>pb_capacity = 10, pb_thresholds = thresholds, pb_semaphore = \<lparr>sem_len = n, sem_cap = 10\<rparr>\<rparr>"

lemma gate_with_check:
  assumes "n < 10"
  shows "pb_check PriorityLow (gate_with n) = (if 5 \<le> n then Some ErrShedLoad else None)"
    "pb_check PriorityStandard (gate_with n) = (if 8 \<le> n then Some ErrShedLoad else None)"
    "pb_check PriorityCritical (gate_with n) = None"
proof -
  have q: "f64_of_int (int 5) / f64_of_int (int 10) = rnd (1 / 2)" "f64_of_int (int 8) / f64_of_int (int 10) = rnd (4 / 5)"
    "f64_of_int (int 10) / f64_of_int (int 10) = Fin 1"
    using rnd_integral [of 1] by (simp_all add: f64_of_int_exact)
  show "pb_check PriorityLow (gate_with n) = (if 5 \<le> n then Some ErrShedLoad else None)"
    "pb_check PriorityStandard (gate_with n) = (if 8 \<le> n then Some ErrShedLoad else None)"
    "pb_check PriorityCritical (gate_with n) = None"
    using check_fraction [of "gate_with n" 5 PriorityLow] check_fraction [of "gate_with n" 8 PriorityStandard]
      check_fraction [of "gate_with n" 10 PriorityCritical] assms q
    by (simp_all add: gate_with_def thresholds_def PriorityLow_def PriorityStandard_def PriorityCritical_def)
qed

lemma gate_with_steps:
  "n < 10 \<Longrightarrow> pb_select (None, coin) (gate_with n) = (None, gate_with (Suc n))"
  "PriorityBulkhead_leave (gate_with n) = gate_with (n - 1)"
  by (simp_all add: gate_with_def pb_select_def slot_select_def PriorityBulkhead_leave_def slot_release_def)

definition priorities_inv :: "priority_tasks \<Rightarrow> bool" where
  "priorities_inv s \<longleftrightarrow> pt_gate s = gate_with (size (pt_inside s))
     \<and> size (pt_arriving s) + size (pt_checked s) + size (pt_inside s) + size (pt_over s) = (if pt_all s then 8 else 6)
     \<and> set_mset (pt_arriving s) \<subseteq> {PriorityLow, PriorityStandard, PriorityCritical}
     \<and> (\<forall>p e. (p, Some e) \<in># pt_over s \<longrightarrow> p = PriorityLow \<and> e = ErrShedLoad)"

declare priorities_inv_def [inv_defs]

definition steps_left :: "priority_tasks \<Rightarrow> nat" where
  "steps_left s = 3 * size (pt_arriving s) + 2 * size (pt_checked s) + size (pt_inside s) + (if pt_all s then 0 else 7)"

lemma inside_below: "priorities_inv s \<Longrightarrow> size (pt_inside s) < 10"
  by (auto simp: priorities_inv_def split: if_splits)

lemma priorities_inv_step:
  assumes "priority_step s s'" "priorities_inv s"
  shows "priorities_inv s' \<and> steps_left s' < steps_left s"
  using assms(1)
proof cases
  case pt_others
  with assms(2) show "priorities_inv s' \<and> steps_left s' < steps_left s"
    by (auto simp: priorities_inv_def steps_left_def)
next
  case (pt_passes p)
  then obtain A where "pt_arriving s = add_mset p A" by (auto dest!: multi_member_split)
  with pt_passes assms(2) show "priorities_inv s' \<and> steps_left s' < steps_left s"
    by (simp_all add: priorities_inv_def steps_left_def)
next
  case (pt_shed p e)
  then obtain A where A: "pt_arriving s = add_mset p A" by (auto dest!: multi_member_split)
  let ?n = "size (pt_inside s)"
  have "size A + 1 + ?n \<le> 8" using assms(2) A by (auto simp: priorities_inv_def split: if_splits)
  then have n: "?n < 10" "\<not> 8 \<le> ?n" by linarith+
  have "p \<in> {PriorityLow, PriorityStandard, PriorityCritical}" "pb_check p (gate_with ?n) = Some e"
    using pt_shed assms(2) by (auto simp: priorities_inv_def)
  then have "p = PriorityLow" "e = ErrShedLoad" using gate_with_check [OF n(1)] n(2) by (auto split: if_splits)
  with A pt_shed assms(2) show "priorities_inv s' \<and> steps_left s' < steps_left s"
    by (auto simp: priorities_inv_def steps_left_def)
next
  case (pt_enters p coin b)
  then obtain A where "pt_checked s = add_mset p A" by (auto dest!: multi_member_split)
  moreover have "b = gate_with (Suc (size (pt_inside s)))"
    using pt_enters(3) gate_with_steps(1) [OF inside_below [OF assms(2)]] assms(2) by (simp add: priorities_inv_def)
  ultimately show "priorities_inv s' \<and> steps_left s' < steps_left s"
    using pt_enters assms(2) by (simp_all add: priorities_inv_def steps_left_def)
next
  case (pt_refused p coin e b)
  then show "priorities_inv s' \<and> steps_left s' < steps_left s"
    using gate_with_steps(1) [OF inside_below [OF assms(2)]] assms(2) by (simp_all add: priorities_inv_def)
next
  case (pt_leaves p)
  then obtain A where "pt_inside s = add_mset p A" by (auto dest!: multi_member_split)
  with pt_leaves assms(2) show "priorities_inv s' \<and> steps_left s' < steps_left s"
    by (auto simp: priorities_inv_def steps_left_def gate_with_steps)
qed

lemma priorities_inv_steps:
  "(priority_step ^^ n) priorities_start s \<Longrightarrow> priorities_inv s \<and> n + steps_left s \<le> 25"
proof (induction n arbitrary: s)
  case 0
  then have "s = priorities_start" by auto
  then show ?case
    by (simp add: priorities_inv_def priorities_start_def steps_left_def shared_gate_def NewPriorityBulkhead_def gate_with_def)
next
  case (Suc n)
  then obtain s1 where "(priority_step ^^ n) priorities_start s1" "priority_step s1 s" by auto
  with Suc.IH [of s1] priorities_inv_step [of s1 s] show ?case by fastforce
qed

lemma priority_progress:
  assumes "\<nexists>s'. priority_step s s'"
  shows "pt_all s" "pt_arriving s = {#}" "pt_checked s = {#}" "pt_inside s = {#}"
proof -
  show "pt_all s" using assms by (blast intro: pt_others)
  show "pt_arriving s = {#}"
  proof (rule ccontr)
    assume "pt_arriving s \<noteq> {#}"
    then obtain p where "p \<in># pt_arriving s" by blast
    then show False using assms by (cases "pb_check p (pt_gate s)") (blast intro: pt_passes pt_shed)+
  qed
  show "pt_checked s = {#}"
  proof (rule ccontr)
    assume "pt_checked s \<noteq> {#}"
    then obtain p where "p \<in># pt_checked s" by blast
    moreover obtain r b where "pb_select (None, True) (pt_gate s) = (r, b)" by fastforce
    ultimately show False using assms by (cases r) (blast intro: pt_enters pt_refused)+
  qed
  show "pt_inside s = {#}" using assms by (blast intro: pt_leaves)
qed

text \<open>
  The eight tasks of the example. In every schedule only the task of low priority can fail, and
  what it gets is \<open>ErrShedLoad\<close>; it is shed exactly when it looks while five or more of the others are
  inside. Every schedule ends after at most 25 steps with all tasks over and the bulkhead empty.
\<close>

theorem only_low_priority_is_shed:
  assumes "(priority_step ^^ n) priorities_start s"
  shows "(\<forall>p e. (p, Some e) \<in># pt_over s \<longrightarrow> p = PriorityLow \<and> e = ErrShedLoad)
    \<and> pb_check PriorityLow (pt_gate s) = (if 5 \<le> size (pt_inside s) then Some ErrShedLoad else None)
    \<and> n \<le> 25 \<and> ((\<nexists>s'. priority_step s s') \<longrightarrow> size (pt_over s) = 8 \<and> pt_gate s = shared_gate)"
proof -
  have inv: "priorities_inv s" "n \<le> 25" using priorities_inv_steps [OF assms] by simp_all
  then have "pb_check PriorityLow (pt_gate s) = (if 5 \<le> size (pt_inside s) then Some ErrShedLoad else None)"
    using gate_with_check(1) [OF inside_below [OF inv(1)]] by (simp add: priorities_inv_def)
  moreover have "size (pt_over s) = 8 \<and> pt_gate s = shared_gate" if "\<nexists>s'. priority_step s s'"
    using priority_progress [OF that] inv(1) by (simp add: priorities_inv_def gate_with_def shared_gate_def NewPriorityBulkhead_def)
  ultimately show ?thesis using inv by (simp add: priorities_inv_def)
qed

theorem only_low_priority_is_shed_witness:
  "pb_check PriorityLow (pt_gate (priorities_start\<lparr>pt_arriving :=
     replicate_mset 6 PriorityStandard + {#PriorityLow, PriorityCritical#}, pt_all := True\<rparr>)) = None"
proof -
  let ?s = "priorities_start\<lparr>pt_arriving := pt_arriving priorities_start + {#PriorityLow, PriorityCritical#}, pt_all := True\<rparr>"
  have "priority_step priorities_start ?s" by (rule pt_others) (simp add: priorities_start_def)
  then have "(priority_step ^^ 1) priorities_start ?s" unfolding relpowp_1 .
  from only_low_priority_is_shed [OF this] show ?thesis by (simp add: priorities_start_def)
qed

section \<open>Bursts through an adaptive limiter\<close>

definition burst_options :: "nat \<Rightarrow> ('u, 't) opt list" where
  "burst_options k = [WithAdaptiveLimiterInstance (Some k)]"

text \<open>The policy has no middleware but the limiter: a call is its \<open>Execute\<close>, with no retries.\<close>

lemma burst_call:
  "Policy_DoErr (cfg (NewPolicy (burst_options k) h r t) :: ('u, 't) config) x act = AdaptiveLimiter_Execute k (act x)"
proof -
  let ?c = "(DefaultConfig r :: ('u, 't) config)\<lparr>AdaptiveLimiter := Some k, pipeline := Some [MwAdaptiveLimiter]\<rparr>"
  have cfg: "cfg (NewPolicy (burst_options k) h r t) = ?c"
    by (simp add: burst_options_def NewPolicy_def apply_options_def start_builder_def option_defs add_mw_def DefaultConfig_def Let_def)
  have "Policy_DoErr ?c x act = compose ?c [MwAdaptiveLimiter] (terminalAction None (Some act)) x (initial_state ?c)"
    unfolding Policy_DoErr_def by (rule execute_recorded) (simp_all add: DefaultConfig_def)
  then show ?thesis unfolding cfg by (simp add: adaptiveLimiterMiddleware_def)
qed

text \<open>
  A request of \<^verbatim>\<open>adaptiveconcurrency\<close> draws its processing time before it calls the policy;
  \<open>i\<close> is its number, and the ones of the latency spike take longer.
\<close>

definition process_time :: "nat \<Rightarrow> ('u, duration) prog" where
  "process_time i =
     bind (rand_Intn 20) (\<lambda>a.
       if 25 < i \<and> i < 35 then bind (rand_Intn 50) (\<lambda>b. ret (int (100 + b) * Millisecond))
       else ret (int (10 + a) * Millisecond))"

definition burst_request :: "('u, 't) config \<Rightarrow> nat \<Rightarrow> ('u, go_error option) prog" where
  "burst_request c i = bind (process_time i) (\<lambda>d. Policy_DoErr c Background (\<lambda>x. bind (time_Sleep d) (\<lambda>_. ret None)))"

lemma burst_request_call:
  "burst_request (cfg (NewPolicy (burst_options k) h r t) :: ('u, 't) config) i =
     bind (process_time i) (\<lambda>d. AdaptiveLimiter_Execute k (bind (time_Sleep d) (\<lambda>_. ret None)))"
  by (simp add: burst_request_def burst_call)

text \<open>
  A loop launches \<open>n\<close> calls and waits for them; the worker of \<^verbatim>\<open>backpressure\<close>
  (\<open>listens\<close>) also takes an event from the limiter's channel at each turn, and ends when its context does.
  A call is on its way to \<open>Execute\<close>, has its ticket, runs its action, has fed its time to the limiter, or
  is over: the numbers of calls at each of these points, and the tickets.
\<close>

record burst =
  bu_turn :: nat
  bu_ended :: bool
  bu_lim :: adaptive_limiter
  bu_arriving :: nat
  bu_waiting :: "i32 multiset"
  bu_running :: "i32 multiset"
  bu_leaving :: nat
  bu_processed :: nat
  bu_shed :: nat

definition burst_start :: "bool \<Rightarrow> time \<Rightarrow> burst" where
  "burst_start listens t =
     (let al = NewAdaptiveLimiter t
      in \<lparr>bu_turn = 0, bu_ended = False, bu_lim = (if listens then Limiter_Health al else al), bu_arriving = 0,
          bu_waiting = {#}, bu_running = {#}, bu_leaving = 0, bu_processed = 0, bu_shed = 0\<rparr>)"

definition burst_turn :: "bool \<Rightarrow> burst \<Rightarrow> burst" where
  "burst_turn listens s =
     (let al = bu_lim s
      in s\<lparr>bu_turn := Suc (bu_turn s), bu_arriving := Suc (bu_arriving s),
           bu_lim := (if listens then al\<lparr>al_healthCh := snd (receive_event (al_healthCh al))\<rparr> else al)\<rparr>)"

inductive burst_step :: "nat \<Rightarrow> bool \<Rightarrow> burst \<Rightarrow> burst \<Rightarrow> bool" for n listens where
  bu_launch: "\<not> bu_ended s \<Longrightarrow> bu_turn s < n \<Longrightarrow> burst_step n listens s (burst_turn listens s)"
| bu_cancelled: "listens \<Longrightarrow> \<not> bu_ended s \<Longrightarrow> bu_turn s < n \<Longrightarrow> burst_step n listens s (s\<lparr>bu_ended := True\<rparr>)"
| bu_arrives: "bu_arriving s = Suc m \<Longrightarrow> al_add (bu_lim s) = (t, al) \<Longrightarrow>
     burst_step n listens s (s\<lparr>bu_arriving := m, bu_lim := al, bu_waiting := add_mset t (bu_waiting s)\<rparr>)"
| bu_admitted: "t \<in># bu_waiting s \<Longrightarrow> al_admits t (bu_lim s) \<Longrightarrow>
     burst_step n listens s (s\<lparr>bu_waiting := bu_waiting s - {#t#}, bu_running := add_mset t (bu_running s)\<rparr>)"
| bu_refused: "t \<in># bu_waiting s \<Longrightarrow> \<not> al_admits t (bu_lim s) \<Longrightarrow>
     burst_step n listens s (s\<lparr>bu_waiting := bu_waiting s - {#t#}, bu_lim := al_exit (bu_lim s), bu_shed := Suc (bu_shed s)\<rparr>)"
| bu_measured: "t \<in># bu_running s \<Longrightarrow>
     burst_step n listens s (s\<lparr>bu_running := bu_running s - {#t#}, bu_leaving := Suc (bu_leaving s),
       bu_lim := al_update oor rtt tnow ev (bu_lim s)\<rparr>)"
| bu_leaves: "bu_leaving s = Suc m \<Longrightarrow>
     burst_step n listens s (s\<lparr>bu_leaving := m, bu_lim := al_exit (bu_lim s), bu_processed := Suc (bu_processed s)\<rparr>)"

text \<open>
  The invariant: the counter counts the calls inside, the calls add up, the limit grows by one per
  finished call at most, and some call that arrived is always let in: the ticket of the first is one, and the
  limit never falls below that.
\<close>

definition bu_inside :: "burst \<Rightarrow> nat" where
  "bu_inside s = size (bu_waiting s) + size (bu_running s) + bu_leaving s"

definition burst_inv :: "nat \<Rightarrow> burst \<Rightarrow> bool" where
  "burst_inv n s \<longleftrightarrow> sint (currentConcurrency (bu_lim s)) = int (bu_inside s)
     \<and> bu_arriving s + bu_inside s + bu_processed s + bu_shed s = bu_turn s \<and> bu_turn s \<le> n
     \<and> limiter_inv (10 + int (bu_processed s + bu_leaving s)) (bu_lim s)
     \<and> (bu_arriving s < bu_turn s \<longrightarrow> 1 \<in># bu_waiting s \<or> bu_running s \<noteq> {#} \<or> 0 < bu_leaving s \<or> 0 < bu_processed s)"

declare burst_inv_def [inv_defs]

definition burst_steps_left :: "nat \<Rightarrow> burst \<Rightarrow> nat" where
  "burst_steps_left n s = 5 * (n - bu_turn s) + 4 * bu_arriving s + 3 * size (bu_waiting s) + 2 * size (bu_running s)
     + bu_leaving s + (if bu_ended s then 0 else 1)"

lemma limiter_inv_frames [simp]:
  "limiter_inv b (snd (al_add al)) = limiter_inv b al" "limiter_inv b (al_exit al) = limiter_inv b al"
  "limiter_inv b (al\<lparr>al_healthCh := ch\<rparr>) = limiter_inv b al" "limiter_inv b (Limiter_Health al) = limiter_inv b al"
  by (simp_all add: limiter_inv_def limiter_default_def al_add_def al_exit_def Limiter_Health_def Let_def)

lemma first_ticket: "limiter_inv b al \<Longrightarrow> al_admits 1 al"
  by (simp add: limiter_inv_def al_admits_def)

lemma burst_exit:
  "sint (currentConcurrency al) = int (Suc m) \<Longrightarrow> sint (currentConcurrency (al_exit al)) = int m"
  using sint_sub_one [of "currentConcurrency al"] by (simp add: al_exit_def)

lemma sint_zero: "sint (x :: i32) = 0 \<Longrightarrow> x = 0"
  by (simp add: signed_eq_0_iff)

lemma burst_inv_step:
  assumes "burst_step n listens s s'" "burst_inv n s" "n < 2 ^ 31 - 12"
  shows "burst_inv n s' \<and> burst_steps_left n s' < burst_steps_left n s"
  using assms(1)
proof cases
  case bu_launch
  then show ?thesis
    using assms(2) by (auto simp: burst_inv_def burst_turn_def burst_steps_left_def bu_inside_def Let_def)
next
  case bu_cancelled
  then show ?thesis using assms(2) by (simp add: burst_inv_def burst_steps_left_def bu_inside_def)
next
  case (bu_arrives m t al)
  let ?c = "currentConcurrency (bu_lim s)"
  have al: "al = snd (al_add (bu_lim s))" "t = ?c + 1" "currentConcurrency al = ?c + 1"
    using bu_arrives(3) by (auto simp: al_add_def Let_def)
  have "sint ?c < 2147483647" using assms(2,3) by (auto simp: burst_inv_def)
  then have "sint (?c + 1) = sint ?c + 1" by (rule sint_add_one)
  moreover have "t = 1" if "bu_inside s = 0"
  proof -
    have "sint ?c = 0" using that assms(2) by (simp add: burst_inv_def)
    then have "?c = 0" by (rule sint_zero)
    then show ?thesis using al(2) by simp
  qed
  moreover have "bu_arriving s < bu_turn s" if "bu_inside s \<noteq> 0" using that assms(2) by (simp add: burst_inv_def)
  ultimately show ?thesis
    using assms(2) bu_arrives(1,2) al
    by (cases "bu_inside s = 0") (auto simp: burst_inv_def burst_steps_left_def bu_inside_def)
next
  case (bu_admitted t)
  then obtain A where "bu_waiting s = add_mset t A" by (auto dest!: multi_member_split)
  with bu_admitted assms(2) show ?thesis by (auto simp: burst_inv_def burst_steps_left_def bu_inside_def)
next
  case (bu_refused t)
  then obtain A where A: "bu_waiting s = add_mset t A" by (auto dest!: multi_member_split)
  have "t \<noteq> 1" using bu_refused(3) assms(2) first_ticket by (auto simp: burst_inv_def)
  moreover have "sint (currentConcurrency (al_exit (bu_lim s))) = int (size A + size (bu_running s) + bu_leaving s)"
    using assms(2) A by (intro burst_exit) (simp add: burst_inv_def bu_inside_def)
  ultimately show ?thesis
    using bu_refused assms(2) A by (auto simp: burst_inv_def burst_steps_left_def bu_inside_def)
next
  case (bu_measured t oor rtt tnow ev)
  then obtain A where A: "bu_running s = add_mset t A" by (auto dest!: multi_member_split)
  have "bu_processed s + bu_leaving s < n" using assms(2) A by (auto simp: burst_inv_def bu_inside_def)
  then have "limiter_inv (10 + int (bu_processed s + bu_leaving s) + 1) (al_update oor rtt tnow ev (bu_lim s))"
    using assms(2,3) by (intro limiter_inv_update) (auto simp: burst_inv_def)
  then show ?thesis
    using bu_measured assms(2) A by (auto simp: burst_inv_def burst_steps_left_def bu_inside_def ac_simps)
next
  case (bu_leaves m)
  have "sint (currentConcurrency (al_exit (bu_lim s))) = int (size (bu_waiting s) + size (bu_running s) + m)"
    using assms(2) bu_leaves(2) by (intro burst_exit) (simp add: burst_inv_def bu_inside_def)
  then show ?thesis
    using bu_leaves assms(2) by (auto simp: burst_inv_def burst_steps_left_def bu_inside_def ac_simps)
qed

lemma burst_inv_steps:
  "(burst_step n listens ^^ m) (burst_start listens t) s \<Longrightarrow> n < 2 ^ 31 - 12 \<Longrightarrow>
     burst_inv n s \<and> m + burst_steps_left n s \<le> 5 * n + 1"
proof (induction m arbitrary: s)
  case 0
  then have "s = burst_start listens t" by auto
  moreover have "currentConcurrency (Limiter_Health al) = currentConcurrency al" for al by (simp add: Limiter_Health_def)
  ultimately show ?case
    using limiter_inv_New [of t] by (simp add: burst_inv_def burst_start_def burst_steps_left_def bu_inside_def NewAdaptiveLimiter_def Let_def)
next
  case (Suc m)
  then obtain s1 where "(burst_step n listens ^^ m) (burst_start listens t) s1" "burst_step n listens s1 s" by auto
  with Suc.IH [of s1] burst_inv_step [of n listens s1 s] Suc.prems(2) show ?case by fastforce
qed

lemma burst_progress:
  assumes "\<nexists>s'. burst_step n listens s s'"
  shows "bu_ended s \<or> n \<le> bu_turn s" "bu_arriving s = 0" "bu_inside s = 0"
proof -
  show "bu_ended s \<or> n \<le> bu_turn s" using assms by (meson bu_launch not_le)
  obtain t al where "al_add (bu_lim s) = (t, al)" by fastforce
  then show "bu_arriving s = 0" using assms by (cases "bu_arriving s") (blast intro: bu_arrives)+
  have "bu_waiting s = {#}"
  proof (rule ccontr)
    assume "bu_waiting s \<noteq> {#}"
    then obtain t where "t \<in># bu_waiting s" by blast
    then show False using assms by (cases "al_admits t (bu_lim s)") (blast intro: bu_admitted bu_refused)+
  qed
  moreover have "bu_running s = {#}" using assms by (blast intro: bu_measured)
  moreover have "bu_leaving s = 0" using assms by (cases "bu_leaving s") (blast intro: bu_leaves)+
  ultimately show "bu_inside s = 0" by (simp add: bu_inside_def)
qed

text \<open>
  C21. A burst of \<open>n\<close> calls over an adaptive limiter, for every schedule, every processing time and every
  reading of the clock. Meanwhile the permitted concurrency is at least one and at most ten more than the calls
  that have finished their action. Every schedule ends, after at most $5 n + 1$ steps; then the limiter's counter is
  back at zero, every launched call was processed or shed, and if there was one, at least one was
  processed: the limiter never sheds all of its load.
\<close>

theorem adaptive_burst_completes:
  assumes "(burst_step n listens ^^ m) (burst_start listens t) s" "n < 2 ^ 31 - 12"
  shows "1 \<le> sint (GetMaxConcurrency (bu_lim s)) \<and> sint (GetMaxConcurrency (bu_lim s)) \<le> 10 + int (bu_processed s + bu_leaving s)
    \<and> m \<le> 5 * n + 1
    \<and> ((\<nexists>s'. burst_step n listens s s') \<longrightarrow> currentConcurrency (bu_lim s) = 0 \<and> bu_processed s + bu_shed s = bu_turn s
        \<and> (bu_ended s \<or> bu_turn s = n) \<and> (0 < bu_turn s \<longrightarrow> 0 < bu_processed s))"
proof -
  have inv: "burst_inv n s" "m \<le> 5 * n + 1" using burst_inv_steps [OF assms] by simp_all
  have "currentConcurrency (bu_lim s) = 0 \<and> bu_processed s + bu_shed s = bu_turn s
      \<and> (bu_ended s \<or> bu_turn s = n) \<and> (0 < bu_turn s \<longrightarrow> 0 < bu_processed s)" if "\<nexists>s'. burst_step n listens s s'"
  proof -
    have "sint (currentConcurrency (bu_lim s)) = 0" using inv(1) burst_progress(3) [OF that] by (simp add: burst_inv_def)
    then have "currentConcurrency (bu_lim s) = 0" by (rule sint_zero)
    then show ?thesis using inv(1) burst_progress [OF that] by (auto simp: burst_inv_def bu_inside_def)
  qed
  then show ?thesis using inv by (auto simp: burst_inv_def limiter_inv_def GetMaxConcurrency_def)
qed

text \<open>The bursts of the two examples: fifty calls, and twenty by a worker that listens.\<close>

theorem adaptive_burst_completes_witness:
  "1 \<le> sint (GetMaxConcurrency (bu_lim (burst_turn False (burst_start False 0))))
   \<and> 1 \<le> sint (GetMaxConcurrency (bu_lim (burst_turn True (burst_start True 0))))"
proof -
  have "burst_step n b (burst_start b 0) (burst_turn b (burst_start b 0))" if "0 < n" for n b
    by (rule bu_launch) (use that in \<open>simp_all add: burst_start_def Let_def\<close>)
  then have "(burst_step n b ^^ 1) (burst_start b 0) (burst_turn b (burst_start b 0))" if "0 < n" for n b
    unfolding relpowp_1 using that by blast
  from adaptive_burst_completes [OF this [of 50 False]] adaptive_burst_completes [OF this [of 20 True]]
  show ?thesis by simp
qed

end
