(* ===== verification/Spec2Isabelle.thy ===== *)
theory Spec2Isabelle
  imports Adaptive_Bucket Rate_Bound Retry_Policy Breaker_Shape Window_History Hedged_Calls Protection Telemetry Propagation
    Resumed_Download Example_Calls Example_Tasks
begin

text \<open>
  A verification development for the Go library \<^verbatim>\<open>resile\<close>, which executes actions of
  its callers with retries, hedging, circuit breaking, rate limiting, bulkheads, adaptive concurrency
  limits, timeouts, fallbacks, panic recovery and fault injection.

  \<^bold>\<open>The program and its parts.\<close> A caller gives an action and a list of options. The options build a
  \<^verbatim>\<open>Config\<close>; the configuration determines a pipeline of middlewares, each of which wraps
  the rest of the pipeline; the innermost is the action. A middleware consults one component: the
  rate limiter, a bulkhead, the adaptive limiter, the circuit breaker, the chaos injector, an
  instrumenter, or the retry loop with its policy, its backoff and its bucket of retry tokens. The
  components are shared between calls and protect their state by mutexes, atomics or channels.
  Hedged calls run a pipeline several times at once and coordinate the results over a channel.

  \<^bold>\<open>How it is modelled.\<close> A component is a record with the fields of the source, and an operation that
  runs in one critical section is one function on it; readings of the clock, random draws and the
  choices of a \<^verbatim>\<open>select\<close> are arguments. Where the code uses several atomic steps, the
  steps are separate functions, and a step relation interleaves those of any number of goroutines.
  Calls are programs on a world (\<open>World\<close>): a clock, the shared components, the caller's state,
  and an oracle that fixes in advance all timings, what other goroutines do in between, and all
  random choices; a theorem about calls quantifies over the oracle. A panic is a result. Integers
  whose width matters are words; durations and instants are integers in nanoseconds, which saturate
  where package \<^verbatim>\<open>time\<close> does; floats are an executable binary64.

  \<^bold>\<open>The theories.\<close>
  \<^item> \<open>Resile_Prelude\<close>, \<open>Float64\<close>, \<open>Go_Errors\<close>, \<open>Go_Context\<close>: machine integers, time,
    \<^verbatim>\<open>float64\<close>, error trees with \<^verbatim>\<open>errors.Is\<close>, \<^verbatim>\<open>As\<close> and
    \<^verbatim>\<open>Join\<close>, contexts and \<^verbatim>\<open>priority.go\<close>.
  \<^item> \<open>Token_Bucket\<close> (locale), \<open>Adaptive_Bucket\<close> (\<^verbatim>\<open>adaptive_retry.go\<close>),
    \<open>Rate_Limiter\<close> and \<open>Rate_Bound\<close> (\<^verbatim>\<open>ratelimit.go\<close>): token buckets;
    bounds of the level and, from above and below, of the number of grants, rounding included.
  \<^item> \<open>Retry_Policy\<close> (\<^verbatim>\<open>policy.go\<close>), \<open>Backoff\<close> (\<^verbatim>\<open>backoff.go\<close>):
    which errors are retried; the full jitter against its integer formula, and exactly when it panics.
  \<^item> \<open>Health\<close>, \<open>Breaker_Window\<close>, \<open>Count_Window\<close> (with the locale of a window of outcomes),
    \<open>Circuit_Breaker\<close>, \<open>Breaker_Runs\<close>, \<open>Time_Window\<close>, \<open>Window_History\<close>,
    \<open>Breaker_Shape\<close> (\<^verbatim>\<open>circuit/breaker.go\<close>, \<^verbatim>\<open>statevent.go\<close>): both
    windows, the state machine, runs and interleavings; each window against the list of outcomes it
    stands for, the trip condition, the limit of probes, well-formedness.
  \<^item> \<open>Admission_Gate\<close> (locale), \<open>Bulkhead\<close> (\<^verbatim>\<open>bulkhead.go\<close>),
    \<open>Adaptive_Limiter\<close> (\<^verbatim>\<open>adaptive_concurrency.go\<close>): bounded concurrency, sequentially by
    interpretations of the gate and interleaved by step relations.
  \<^item> \<open>World\<close>, \<open>Chaos_Injector\<close> (\<^verbatim>\<open>chaos/injector.go\<close>), \<open>Middleware\<close>,
    \<open>Returns\<close>, \<open>Retry_Loop\<close>, \<open>Pipeline\<close> (\<^verbatim>\<open>retry.go\<close>, \<^verbatim>\<open>telemetry.go\<close>):
    the middlewares, what returns instead of panicking, the retry loop with its specification
    (\<open>retry_spec\<close>), the composition.
  \<^item> \<open>Options\<close> (\<^verbatim>\<open>options.go\<close>), \<open>Entry_Points\<close> (\<^verbatim>\<open>retry.go\<close>,
    \<^verbatim>\<open>policy.go\<close>, \<^verbatim>\<open>statemachine.go\<close>): every option, the functions and methods
    that execute, the state machine.
  \<^item> \<open>Pipeline_Relation\<close> (locale), \<open>Pipeline_Facts\<close>, \<open>Slot_Balance\<close>, \<open>Protection\<close>: theorems
    about all pipelines: values come from the action, transitions are atomic, slots are balanced, a
    recovered call returns.
  \<^item> \<open>Hedging\<close>, \<open>Hedged_Calls\<close> (\<^verbatim>\<open>executeHedged\<close> in \<^verbatim>\<open>retry.go\<close>): the
    coordinator as functions, its schedules as a step relation, the hedged entry points; termination,
    pacing, results, values.
  \<^item> \<open>Telemetry\<close> (\<^verbatim>\<open>telemetry/resileslog\<close>, \<^verbatim>\<open>telemetry/resileotel\<close>): the hooks of
    the two instrumenters as the calls they make; the life of a span.
  \<^item> \<open>Decimal_Text\<close>, \<open>Propagation\<close> (\<^verbatim>\<open>propagation.go\<close>): numbers as text; the
    deadline headers and what a gRPC receiver reads.
  \<^item> \<open>Retry_Runs\<close>: a calculus of preconditions and postconditions for calls whose components nobody
    else uses, for every clock and all random choices.
  \<^item> \<open>Range_Requests\<close> (with the locale of a server of ranges), \<open>Resumed_Download\<close>: the
    download that retries resume, and its server. \<open>Example_Programs\<close>, \<open>Example_Calls\<close>,
    \<open>Example_Services\<close>: programs of one goroutine, each with its action, its options and its
    \<^verbatim>\<open>main\<close>: the endpoint rotation, the connection state machine, the recovered panics, the fallbacks, the
    retry budget, the database call, the basic calls, the breaker around retries, the pushback, the rate limiter,
    fault injection, the deadline, the Redis client, hedging and the server that says when to come back. \<open>Backpressure\<close>, \<open>Example_Tasks\<close>:
    programs of several goroutines, as step relations: the workers that follow health events, the tasks around the two
    bulkheads, the bursts through the adaptive limiter (all of \<^verbatim>\<open>examples\<close>). What these programs
    compute is proved of the library's model, with the library's own options.

  \<^bold>\<open>Bounds and fuel.\<close> No definition takes fuel. The retry loop terminates by its 64-bit counter, the
  clearing loop of the time-based window by its distance around the ring, a hedged run by a measure
  that bounds it by seven steps per attempt and two more, the loop that sends a file by what remains, and a
  burst of calls by five steps per call and one more.

  \<^bold>\<open>Assumptions.\<close> Instants fit \<^verbatim>\<open>int64\<close> nanoseconds. Errors of callers do not define
  \<^verbatim>\<open>Is\<close> or \<^verbatim>\<open>As\<close> themselves; the delay one asks for is a duration, or the
  time until an instant at the moment it is asked. An action, a hook and a custom backoff are arbitrary
  programs on the world; where a theorem needs more of them, it is a hypothesis. In a hedged call the
  outcome of an attempt is fixed when its action has ended, and its hooks see the context of that
  moment. The configuration's own mutex is not modelled: the pipeline is composed once, in a step that
  nothing interleaves, and options are not applied while calls run.

  \<^bold>\<open>Not modelled.\<close> The signal handler of
  \<^verbatim>\<open>examples/backpressure\<close>, of which only the cancellation is seen; the texts of errors and log records and the stack
  trace of a recovered panic; the cancellation of a timeout's context after its call has returned; what the examples
  print, and the transport of their HTTP exchanges, whose failures are arguments; the allocation of channels and slices, which
  fails for an absurd number of attempts; the data race of a hedged call that returns an error while an
  attempt still writes the result.
\<close>

end
